(* ===== verification/Lneto_Prelude.thy ===== *)
theory Lneto_Prelude
  imports Main "HOL-Library.Word" "HOL-Library.Monad_Syntax"
begin

text \<open>
  Shared vocabulary of the development: the machine integers of the Go source, the error
  values its functions return, and the few slice operations of the Go language the stack
  is built on.

  \<^item> A Go \<open>uint8/16/32/64\<close> is a word of that width; a Go \<open>int\<close> is a HOL \<open>int\<close> (all the
    \<open>int\<close> values of the modelled code are offsets and lengths of buffers, far below
    \<open>2^63\<close>).
  \<^item> A Go slice is a list; only where the code looks at \<open>cap\<close> is the capacity a field.
  \<^item> A function that can panic returns an \<open>option\<close>, and \<open>None\<close> is the panic (an explicit
    \<open>panic\<close> call or an out-of-range slice expression).
  \<^item> A Go \<open>error\<close> result is a \<^verbatim>\<open>goerror option\<close>, \<open>None\<close> being \<open>nil\<close>.
\<close>

unbundle bit_operations_syntax

section \<open>Machine types\<close>

type_synonym u8 = "8 word"
type_synonym u16 = "16 word"
type_synonym u32 = "32 word"
type_synonym u64 = "64 word"
type_synonym bytes = "u8 list"

text \<open>Collections the component theories add to and the proofs simplify with.\<close>

named_theorems flag_bits \<open>flag tests as tests of single bits\<close>
named_theorems seq_arith \<open>sequence-space comparisons as statements on circular distances\<close>

lemma and_exp_if: "(x :: 'a::len word) AND 2 ^ k = (if bit x k then 2 ^ k else 0)"
  by (intro bit_word_eqI) (auto simp: bit_simps)

lemma bit_less_exp: "bit (x :: 'a::len word) k \<Longrightarrow> unat x < 2 ^ n \<Longrightarrow> k < n"
proof (rule ccontr)
  assume b: "bit x k" "unat x < 2 ^ n" "\<not> k < n"
  then have "unat x < 2 ^ k" by (meson le_less_trans less_le_trans linorder_not_less one_le_numeral power_increasing)
  moreover have "bit (unat x) k" using b(1) by (simp add: bit_unsigned_iff)
  ultimately show False by (simp add: bit_iff_odd)
qed

lemma ucast_ucast_small:
  assumes "unat (x :: 'a::len word) < 2 ^ LENGTH('b)"
  shows "ucast (ucast x :: 'b::len word) = x"
proof (rule bit_word_eqI)
  fix n assume "n < LENGTH('a)"
  then show "bit (ucast (ucast x :: 'b word) :: 'a word) n \<longleftrightarrow> bit x n"
    using bit_less_exp [OF _ assms, of n] by (auto simp: bit_simps)
qed

section \<open>Error values\<close>

text \<open>The constants of \<open>errors.go\<close>, in the order of the source.\<close>

datatype err_generic =
    ErrBug | ErrPacketDrop | ErrBadCRC | ErrZeroSource | ErrZeroDestination
  | ErrShortBuffer | ErrBufferFull | ErrInvalidAddr | ErrUnsupported | ErrMismatch
  | ErrMismatchLen | ErrInvalidConfig | ErrInvalidField | ErrInvalidLengthField
  | ErrExhausted | ErrAlreadyRegistered | ErrTruncatedFrame | ErrMissingHALConfig
  | ErrBadState

text \<open>The error variables of \<open>internal/ring.go\<close>.\<close>

datatype ring_error =
  errRingNoData | errInvalidCommit | errInvalidDiscard | errDiscardExceeds | errOffsetOverflow

text \<open>
  The error variables of \<open>tcp/definitions.go\<close> and \<open>tcp/conn.go\<close> that are not aliases of generic
  ones.
\<close>

datatype tcp_error =
    errWindowTooLarge | errNeedClosedTCBToOpen | errInvalidState | errConnNotExist
  | errConnectionClosing | errExpectedSYN | errBadSegack | errFinwaitExpectedACK
  | errNoRemoteAddr

text \<open>The \<open>RejectError\<close> variables of \<open>tcp/definitions.go\<close>.\<close>

datatype reject_error =
    errWindowOverflow | errSeqNotInWindow | errZeroWindow | errLastNotInWindow
  | errRequireSequential | errAckNotNext

text \<open>The errors of \<open>arp/definitions.go\<close>.\<close>

datatype arp_error = errQueryPending | errQueryNotFound

text \<open>
  A Go \<open>error\<close>: one of the above, a sentinel of the standard library, or the join of
  several errors (\<open>errors.Join\<close>), or an error with the bits it is about (\<open>BitPosErr\<close> of
  \<open>validation.go\<close>).
\<close>

datatype goerror =
    Generic err_generic
  | RingErr ring_error
  | TcpErr tcp_error
  | Reject reject_error
  | ArpErr arp_error
  | IoEOF | IoShortBuffer | IoUnexpectedEOF | IoClosedPipe | NetClosed | OsDeadlineExceeded
  | Joined "goerror list"
  | BitPosErr int int goerror

section \<open>Slices\<close>

text \<open>\<open>xs[i:j]\<close>; out of range the Go runtime panics.\<close>

definition go_slice :: "'a list \<Rightarrow> int \<Rightarrow> int \<Rightarrow> 'a list option" where
  "go_slice xs i j =
     (if 0 \<le> i \<and> i \<le> j \<and> j \<le> int (length xs)
      then Some (take (nat (j - i)) (drop (nat i) xs)) else None)"

text \<open>
  \<open>copy(xs[i:j], b)\<close>: the slice expression panics out of range; otherwise
  \<open>min (j - i) (len b)\<close> elements are overwritten and their number is returned.
\<close>

definition copy_into :: "'a list \<Rightarrow> int \<Rightarrow> int \<Rightarrow> 'a list \<Rightarrow> ('a list \<times> int) option" where
  "copy_into xs i j b =
     (if 0 \<le> i \<and> i \<le> j \<and> j \<le> int (length xs)
      then let n = min (nat (j - i)) (length b)
           in Some (take (nat i) xs @ take n b @ drop (nat i + n) xs, int n)
      else None)"

lemma nat_int_diff [simp]: "nat (int a - int b) = a - b"
  by arith

lemma go_slice_Some_iff:
  "go_slice xs i j = Some ys \<longleftrightarrow>
     0 \<le> i \<and> i \<le> j \<and> j \<le> int (length xs) \<and> ys = take (nat (j - i)) (drop (nat i) xs)"
  by (auto simp: go_slice_def)

lemma go_slice_int [simp]:
  "go_slice xs (int i) (int j) =
     (if i \<le> j \<and> j \<le> length xs then Some (take (j - i) (drop i xs)) else None)"
  by (simp add: go_slice_def nat_diff_distrib)

lemma copy_into_int:
  "copy_into xs (int i) (int j) b =
     (if i \<le> j \<and> j \<le> length xs
      then Some (take i xs @ take (min (j - i) (length b)) b @ drop (i + min (j - i) (length b)) xs,
                 int (min (j - i) (length b)))
      else None)"
  by (simp add: copy_into_def Let_def nat_diff_distrib)

lemma copy_into_length:
  "copy_into xs i j b = Some (ys, n) \<Longrightarrow> length ys = length xs \<and> n = min (j - i) (int (length b))"
  by (auto simp: copy_into_def Let_def split: if_splits)

section \<open>Overwriting a segment of a list\<close>

text \<open>
  The list-level counterpart of a \<open>copy\<close> that fits: \<open>patch k b xs\<close> overwrites \<open>xs\<close>
  with \<open>b\<close> from position \<open>k\<close> on.
\<close>

definition patch :: "nat \<Rightarrow> 'a list \<Rightarrow> 'a list \<Rightarrow> 'a list" where
  "patch k b xs = take k xs @ b @ drop (k + length b) xs"

lemma length_patch [simp]: "k + length b \<le> length xs \<Longrightarrow> length (patch k b xs) = length xs"
  by (simp add: patch_def)

lemma patch_Nil [simp]: "patch k [] xs = xs"
  by (simp add: patch_def)

lemma nth_patch:
  "k + length b \<le> length xs \<Longrightarrow> i < length xs \<Longrightarrow>
   patch k b xs ! i = (if k \<le> i \<and> i < k + length b then b ! (i - k) else xs ! i)"
  by (auto simp: patch_def nth_append min_def)

lemma take_patch_before: "n \<le> k \<Longrightarrow> k \<le> length xs \<Longrightarrow> take n (patch k b xs) = take n xs"
  by (simp add: patch_def min_def)

lemma take_patch_after:
  "k \<le> length xs \<Longrightarrow> take (k + length b) (patch k b xs) = take k xs @ b"
  by (simp add: patch_def)

lemma drop_patch_after:
  "k + length b \<le> n \<Longrightarrow> k + length b \<le> length xs \<Longrightarrow> drop n (patch k b xs) = drop n xs"
  by (simp add: patch_def)

lemma copy_into_fits:
  "i + length b \<le> j \<Longrightarrow> j \<le> length xs \<Longrightarrow>
   copy_into xs (int i) (int j) b = Some (patch i b xs, int (length b))"
  by (simp add: copy_into_int patch_def min_absorb2)

lemma copy_into_truncates:
  "i \<le> j \<Longrightarrow> j \<le> length xs \<Longrightarrow> j - i \<le> length b \<Longrightarrow>
   copy_into xs (int i) (int j) b = Some (patch i (take (j - i) b) xs, int (j - i))"
  by (simp add: copy_into_int patch_def min_def)

section \<open>Splitting and rotating lists\<close>

text \<open>
  \<open>rot k xs\<close> reads \<open>xs\<close> from position \<open>k\<close> on and around its end. Identities between
  \<open>take\<close>, \<open>drop\<close>, \<open>rot\<close> and \<open>patch\<close> are proved by cutting the list into named pieces.
\<close>

definition rot :: "nat \<Rightarrow> 'a list \<Rightarrow> 'a list" where
  "rot k xs = drop k xs @ take k xs"

lemma length_rot [simp]: "length (rot k xs) = length xs"
  by (simp add: rot_def)

lemma rot_append: "k = length xs \<Longrightarrow> rot k (xs @ ys) = ys @ xs"
  by (simp add: rot_def)

lemma patch_append:
  "k = length xs \<Longrightarrow> length b = length ys \<Longrightarrow> patch k b (xs @ ys @ zs) = xs @ b @ zs"
  by (simp add: patch_def)

lemma split3E:
  assumes "i + j \<le> length xs"
  obtains as bs cs where "xs = as @ bs @ cs" "length as = i" "length bs = j"
proof (rule that)
  show "xs = take i xs @ take j (drop i xs) @ drop j (drop i xs)"
    by (simp only: append_take_drop_id)
qed (use assms in simp_all)

lemma split4E:
  assumes "i + j + k \<le> length xs"
  obtains as bs cs ds where "xs = as @ bs @ cs @ ds" "length as = i" "length bs = j" "length cs = k"
proof -
  obtain as bs r where 1: "xs = as @ bs @ r" "length as = i" "length bs = j"
    by (rule split3E [of i j xs]) (use assms in simp)
  obtain c bs' ds where 2: "r = c @ bs' @ ds" "length c = k" "length bs' = 0"
    by (rule split3E [of k 0 r]) (use 1 assms in simp)
  show thesis by (rule that [of as bs c ds]) (use 1 2 in simp_all)
qed

lemma rot_patch_tail:
  assumes "o' + k + length b \<le> length xs"
  shows "rot o' (patch (o' + k) b xs) = patch k b (rot o' xs)"
proof -
  obtain as bs cs ds where "xs = as @ bs @ cs @ ds" "length as = o'" "length bs = k" "length cs = length b"
    using assms by (rule split4E)
  then show ?thesis
    using patch_append [of "o' + k" "as @ bs" b cs ds] patch_append [of k bs b cs "ds @ as"]
    by (simp add: rot_append)
qed

lemma rot_patch_head:
  assumes "o' \<le> n" "n \<le> o' + k" "k + length b \<le> n" "length xs = n"
  shows "rot o' (patch (o' + k - n) b xs) = patch k b (rot o' xs)"
proof -
  obtain as bs cs ds where *: "xs = as @ bs @ cs @ ds" "length as = o' + k - n"
      "length bs = length b" "length cs = n - k - length b"
    by (rule split4E [of "o' + k - n" "length b" "n - k - length b" xs]) (use assms in simp)
  then have "length (as @ bs @ cs) = o'" "length (ds @ as) = k" using assms by simp_all
  then show ?thesis
    using * patch_append [of "o' + k - n" as b bs "cs @ ds"]
      patch_append [of k "ds @ as" b bs "cs"] rot_append [of o' "as @ bs @ cs" ds]
      rot_append [of o' "as @ b @ cs" ds]
    by simp
qed

lemma rot_patch_wrap:
  assumes "o' \<le> n" "length b1 = n - (o' + k)" "o' + k \<le> n"
    and "k + length (b1 @ b2) \<le> n" "length xs = n"
  shows "rot o' (patch 0 b2 (patch (o' + k) b1 xs)) = patch k (b1 @ b2) (rot o' xs)"
proof -
  obtain as bs cs ds where *: "xs = as @ bs @ cs @ ds" "length as = length b2"
      "length bs = o' - length b2" "length cs = k"
    by (rule split4E [of "length b2" "o' - length b2" k xs]) (use assms in simp)
  then have "length (as @ bs) = o'" "length ds = length b1" using assms by simp_all
  then show ?thesis
    using * assms(4) patch_append [of "o' + k" "as @ bs @ cs" b1 ds "[]"]
      patch_append [of 0 "[]" b2 as "bs @ cs @ b1"] patch_append [of k cs "b1 @ b2" "ds @ as" bs]
      rot_append [of o' "as @ bs" "cs @ ds"] rot_append [of o' "b2 @ bs" "cs @ b1"]
    by simp
qed

lemma rot_rot_lt:
  assumes "k + j \<le> length xs"
  shows "rot j (rot k xs) = rot (k + j) xs"
proof -
  obtain as bs cs where "xs = as @ bs @ cs" "length as = k" "length bs = j"
    using assms by (rule split3E)
  then show ?thesis
    using rot_append [of "k + j" "as @ bs" cs] by (simp add: rot_append)
qed

lemma rot_rot_ge:
  assumes "k \<le> n" "j \<le> n" "n \<le> k + j" "length xs = n"
  shows "rot j (rot k xs) = rot (k + j - n) xs"
proof -
  obtain as bs cs where *: "xs = as @ bs @ cs" "length as = k + j - n" "length bs = n - j"
    by (rule split3E [of "k + j - n" "n - j" xs]) (use assms in simp)
  then have "length (as @ bs) = k" "length (cs @ as) = j" using assms by simp_all
  then show ?thesis
    using * rot_append [of k "as @ bs" cs] rot_append [of j "cs @ as" bs] by (simp add: rot_append)
qed

lemma rot_full: "length xs = k \<Longrightarrow> rot k xs = xs"
  and rot_length [simp]: "rot (length xs) xs = xs" and rot_0 [simp]: "rot 0 xs = xs"
  by (auto simp: rot_def)

end
