(* ===== verification/Tcp_Seq.thy ===== *)
theory Tcp_Seq
  imports Lneto_Prelude
begin

text \<open>
  \<open>tcp/valuesize.go\<close> and the data of \<open>tcp/definitions.go\<close>: sequence numbers with their
  circular comparison, segments, flags and the connection states. The second half proves
  the arithmetic of the sequence space that the control block relies on.
\<close>

section \<open>Sequence numbers\<close>

type_synonym Value = u32
type_synonym Size = u32

definition LessThan :: "Value \<Rightarrow> Value \<Rightarrow> bool" where
  "LessThan v w \<longleftrightarrow> sint (v - w) < 0"

definition LessThanEq :: "Value \<Rightarrow> Value \<Rightarrow> bool" where
  "LessThanEq v w \<longleftrightarrow> v = w \<or> LessThan v w"

definition InRange :: "Value \<Rightarrow> Value \<Rightarrow> Value \<Rightarrow> bool" where
  "InRange v a b \<longleftrightarrow> v - a < b - a"

definition Add :: "Value \<Rightarrow> Size \<Rightarrow> Value" where
  "Add v s = v + s"

definition InWindow :: "Value \<Rightarrow> Value \<Rightarrow> Size \<Rightarrow> bool" where
  "InWindow v first sz = InRange v first (Add first sz)"

definition Sizeof :: "Value \<Rightarrow> Value \<Rightarrow> Size" where
  "Sizeof v w = w - v"

definition UpdateForward :: "Value \<Rightarrow> Size \<Rightarrow> Value" where
  "UpdateForward v s = v + s"

section \<open>Flags\<close>

type_synonym Flags = u16

definition FlagFIN :: Flags where "FlagFIN = 0x001"
definition FlagSYN :: Flags where "FlagSYN = 0x002"
definition FlagRST :: Flags where "FlagRST = 0x004"
definition FlagPSH :: Flags where "FlagPSH = 0x008"
definition FlagACK :: Flags where "FlagACK = 0x010"
definition FlagURG :: Flags where "FlagURG = 0x020"
definition FlagECE :: Flags where "FlagECE = 0x040"
definition FlagCWR :: Flags where "FlagCWR = 0x080"
definition FlagNS :: Flags where "FlagNS = 0x100"

definition flagMask :: Flags where "flagMask = 0x01ff"

definition synack :: Flags where "synack = FlagSYN OR FlagACK"
definition finack :: Flags where "finack = FlagFIN OR FlagACK"
definition pshack :: Flags where "pshack = FlagPSH OR FlagACK"
definition flagctl :: Flags where "flagctl = FlagSYN OR FlagFIN OR FlagRST"

lemmas flag_defs = FlagFIN_def FlagSYN_def FlagRST_def FlagPSH_def FlagACK_def FlagURG_def
  FlagECE_def FlagCWR_def FlagNS_def flagMask_def synack_def finack_def pshack_def flagctl_def

definition HasAll :: "Flags \<Rightarrow> Flags \<Rightarrow> bool" where
  "HasAll flags m \<longleftrightarrow> flags AND m = m"

definition HasAny :: "Flags \<Rightarrow> Flags \<Rightarrow> bool" where
  "HasAny flags m \<longleftrightarrow> flags AND m \<noteq> 0"

definition Mask :: "Flags \<Rightarrow> Flags" where
  "Mask flags = flags AND flagMask"

definition Invalid :: "Flags \<Rightarrow> bool" where
  "Invalid flags \<longleftrightarrow> flags AND flagMask \<noteq> flags"

text \<open>The tests of single flags, as tests of bits.\<close>

lemma HasAny_single [flag_bits]:
  "HasAny f FlagFIN \<longleftrightarrow> bit f 0" "HasAny f FlagSYN \<longleftrightarrow> bit f 1" "HasAny f FlagRST \<longleftrightarrow> bit f 2"
  "HasAny f FlagPSH \<longleftrightarrow> bit f 3" "HasAny f FlagACK \<longleftrightarrow> bit f 4"
  using and_exp_if [of f 0] and_exp_if [of f 1] and_exp_if [of f 2] and_exp_if [of f 3]
    and_exp_if [of f 4]
  by (simp_all add: HasAny_def flag_defs)

lemma HasAll_single [flag_bits]:
  "HasAll f FlagFIN \<longleftrightarrow> bit f 0" "HasAll f FlagSYN \<longleftrightarrow> bit f 1" "HasAll f FlagRST \<longleftrightarrow> bit f 2"
  "HasAll f FlagACK \<longleftrightarrow> bit f 4"
  using and_exp_if [of f 0] and_exp_if [of f 1] and_exp_if [of f 2] and_exp_if [of f 4]
  by (simp_all add: HasAll_def flag_defs)

lemma HasAny_OR: "HasAny f (m OR n) \<longleftrightarrow> HasAny f m \<or> HasAny f n"
  by (simp add: HasAny_def bit.conj_disj_distrib or_eq_0_iff)

lemma HasAny_ctl [flag_bits]: "HasAny f flagctl \<longleftrightarrow> bit f 0 \<or> bit f 1 \<or> bit f 2"
  unfolding flagctl_def HasAny_OR HasAny_single by blast

lemma flags_as_exp:
  "FlagFIN = 2 ^ 0" "FlagSYN = 2 ^ 1" "FlagRST = 2 ^ 2" "FlagPSH = 2 ^ 3" "FlagACK = 2 ^ 4"
  by (simp_all add: flag_defs)

lemma flag_consts_bits [flag_bits]:
  "bit FlagFIN n \<longleftrightarrow> n = 0" "bit FlagSYN n \<longleftrightarrow> n = 1" "bit FlagRST n \<longleftrightarrow> n = 2"
  "bit FlagPSH n \<longleftrightarrow> n = 3" "bit FlagACK n \<longleftrightarrow> n = 4"
  unfolding flags_as_exp bit_exp_iff by auto

lemma flag_unions_bits [flag_bits]:
  "bit synack n \<longleftrightarrow> n = 1 \<or> n = 4" "bit finack n \<longleftrightarrow> n = 0 \<or> n = 4"
  unfolding synack_def finack_def bit_or_iff flag_consts_bits by simp_all

section \<open>Segments\<close>

record Segment =
  SEQ :: Value
  ACK :: Value
  DATALEN :: Size
  WND :: Size
  SegFlags :: Flags

definition LEN :: "Segment \<Rightarrow> Size" where
  "LEN seg =
     (let add = (ucast (SegFlags seg) :: Size) AND 1;
          add = add + ((ucast (drop_bit 1 (SegFlags seg)) :: Size) AND 1)
      in DATALEN seg + add)"

definition Last :: "Segment \<Rightarrow> Value" where
  "Last seg = (let seglen = LEN seg in if seglen = 0 then SEQ seg else Add (SEQ seg) seglen - 1)"

definition isFirstSYN :: "Segment \<Rightarrow> bool" where
  "isFirstSYN seg \<longleftrightarrow> SegFlags seg = FlagSYN \<and> ACK seg = 0 \<and> DATALEN seg = 0 \<and> WND seg > 0"

definition ClientSynSegment :: "Value \<Rightarrow> Size \<Rightarrow> Segment" where
  "ClientSynSegment clientISS clientWND =
     \<lparr>SEQ = clientISS, ACK = 0, DATALEN = 0, WND = clientWND, SegFlags = FlagSYN\<rparr>"

section \<open>Connection states\<close>

datatype State =
    StateClosed | StateListen | StateSynRcvd | StateSynSent | StateEstablished | StateFinWait1
  | StateFinWait2 | StateClosing | StateTimeWait | StateCloseWait | StateLastAck

text \<open>Go compares states by their \<open>iota\<close> value; the order instance is that comparison.\<close>

primrec state_code :: "State \<Rightarrow> nat" where
  "state_code StateClosed = 0"
| "state_code StateListen = 1"
| "state_code StateSynRcvd = 2"
| "state_code StateSynSent = 3"
| "state_code StateEstablished = 4"
| "state_code StateFinWait1 = 5"
| "state_code StateFinWait2 = 6"
| "state_code StateClosing = 7"
| "state_code StateTimeWait = 8"
| "state_code StateCloseWait = 9"
| "state_code StateLastAck = 10"

lemma state_code_inject [simp]: "state_code a = state_code b \<longleftrightarrow> a = b"
  by (cases a; cases b) simp_all

instantiation State :: linorder
begin

definition less_eq_State :: "State \<Rightarrow> State \<Rightarrow> bool" where
  "a \<le> b \<longleftrightarrow> state_code a \<le> state_code b"

definition less_State :: "State \<Rightarrow> State \<Rightarrow> bool" where
  "a < b \<longleftrightarrow> state_code a < state_code b"

instance
  by standard (auto simp: less_eq_State_def less_State_def)

end

definition IsPreestablished :: "State \<Rightarrow> bool" where
  "IsPreestablished s \<longleftrightarrow> s = StateSynRcvd \<or> s = StateSynSent \<or> s = StateListen"

definition IsClosing :: "State \<Rightarrow> bool" where
  "IsClosing s \<longleftrightarrow> s = StateFinWait1 \<or> s = StateFinWait2 \<or> s = StateClosing \<or>
     s = StateLastAck \<or> s = StateCloseWait"

definition IsClosed :: "State \<Rightarrow> bool" where
  "IsClosed s \<longleftrightarrow> s = StateClosed \<or> s = StateTimeWait"

definition IsSynchronized :: "State \<Rightarrow> bool" where
  "IsSynchronized s \<longleftrightarrow> s \<ge> StateEstablished \<and> \<not> IsClosed s"

definition TxDataOpen :: "State \<Rightarrow> bool" where
  "TxDataOpen s \<longleftrightarrow> s = StateEstablished \<or> s = StateCloseWait"

definition txQueuedDataOpen :: "State \<Rightarrow> bool" where
  "txQueuedDataOpen s \<longleftrightarrow>
     TxDataOpen s \<or> s = StateFinWait1 \<or> s = StateClosing \<or> s = StateLastAck"

definition RxDataOpen :: "State \<Rightarrow> bool" where
  "RxDataOpen s \<longleftrightarrow> s = StateEstablished \<or> s = StateFinWait1 \<or> s = StateFinWait2"

definition isOpen :: "State \<Rightarrow> bool" where
  "isOpen s \<longleftrightarrow> \<not> IsClosed s"

definition hasIRS :: "State \<Rightarrow> bool" where
  "hasIRS s \<longleftrightarrow> isOpen s \<and> s \<noteq> StateSynSent \<and> s \<noteq> StateListen"

lemmas state_preds = IsPreestablished_def IsClosing_def IsClosed_def IsSynchronized_def
  TxDataOpen_def txQueuedDataOpen_def RxDataOpen_def isOpen_def hasIRS_def less_eq_State_def

section \<open>Arithmetic of the sequence space\<close>

text \<open>
  Comparisons are turned into statements on the circular distance \<open>unat (w - v)\<close> from
  \<open>v\<close> up to \<open>w\<close>, which linear arithmetic handles.
\<close>

lemma unat_u32: "unat (x :: u32) < 4294967296"
proof -
  have "unat x < 2 ^ LENGTH(32)" by (rule unsigned_less)
  then show ?thesis by simp
qed

lemma sint_neg_iff: "sint (x :: u32) < 0 \<longleftrightarrow> 2147483648 \<le> unat x"
proof -
  have "unat x div 2147483648 = (if unat x < 2147483648 then 0 else 1)"
    using unat_u32 [of x] by (simp add: Suc_leI div_nat_eqI)
  moreover have "bit x 31 \<longleftrightarrow> odd (unat x div 2147483648)"
    using bit_unsigned_iff [where w = x and n = 31 and 'a = nat] by (simp add: bit_iff_odd)
  ultimately show ?thesis using bit_last_iff [of x] by (auto split: if_splits)
qed

lemma unat_sub_cases:
  "unat ((a :: u32) - b) = (if unat b \<le> unat a then unat a - unat b else unat a + 4294967296 - unat b)"
  by (simp add: unat_sub_if_size word_size)

lemma LessThan_iff [seq_arith]: "LessThan v w \<longleftrightarrow> 0 < unat (w - v) \<and> unat (w - v) \<le> 2147483648"
  unfolding LessThan_def sint_neg_iff unat_sub_cases using unat_u32 [of v] unat_u32 [of w]
  by (cases "unat w \<le> unat v"; cases "unat v \<le> unat w") auto

lemma InWindow_iff [seq_arith]: "InWindow v a n \<longleftrightarrow> unat (v - a) < unat n"
  by (simp add: InWindow_def InRange_def Add_def word_less_nat_alt)

lemma LessThanEq_iff [seq_arith]: "LessThanEq v w \<longleftrightarrow> unat (w - v) \<le> 2147483648"
  by (auto simp: LessThanEq_def LessThan_iff unat_gt_0)

lemma LessThan_irrefl [simp]: "\<not> LessThan v v"
  by (simp add: LessThan_def)

lemma LessThanEq_refl [simp]: "LessThanEq v v"
  by (simp add: LessThanEq_def)

text \<open>
  Inside a half window (offsets below \<open>2^31\<close> from a common base, wherever it is) the
  circular comparison is the comparison of the offsets: it does not matter where the
  32-bit space wraps.
\<close>

theorem LessThan_half_window:
  assumes "a < 2147483648" "b < 2147483648"
  shows "LessThan (Add v a) (Add v b) \<longleftrightarrow> a < b"
proof -
  have "unat a < 2147483648" "unat b < 2147483648"
    using assms by (simp_all add: word_less_nat_alt)
  moreover have "unat (Add v b - Add v a) = unat (b - a)" by (simp add: Add_def)
  ultimately show ?thesis
    unfolding LessThan_iff unat_sub_cases [of b a]
    by (auto simp: word_less_nat_alt unat_sub_cases)
qed

text \<open>\<open>InWindow\<close> is membership in the \<open>sz\<close> numbers from \<open>first\<close> on.\<close>

lemma InWindow_ex: "InWindow v first sz \<longleftrightarrow> (\<exists>k < sz. v = Add first k)"
proof
  assume "InWindow v first sz"
  then show "\<exists>k < sz. v = Add first k"
    by (intro exI [of _ "v - first"]) (auto simp: InWindow_iff Add_def word_less_nat_alt)
next
  assume "\<exists>k < sz. v = Add first k"
  then show "InWindow v first sz"
    by (auto simp: InWindow_iff Add_def word_less_nat_alt)
qed

text \<open>
  Positions of a byte stream, numbered from \<open>q\<close> on: two positions less than \<open>2^31\<close> apart
  have different sequence numbers, and comparing these compares the positions.
\<close>

lemma unat_diff_close:
  assumes "a \<le> b" "b < a + 4294967296"
  shows "unat ((q + of_nat b) - (q + of_nat a) :: Value) = b - a"
  using assms by (simp add: unat_of_nat flip: of_nat_diff)

lemma unat_diff_swap: "x \<noteq> y \<Longrightarrow> unat (x - y :: Value) = 4294967296 - unat (y - x)"
  using unat_u32 [of x] unat_u32 [of y] unfolding word_unat_eq_iff unat_sub_cases by auto

lemma unat_diff_behind:
  assumes "b < a" "a < b + 4294967296"
  shows "unat ((q + of_nat b) - (q + of_nat a) :: Value) = 4294967296 - (a - b)"
  using unat_diff_close [of b a q] unat_diff_swap [of "q + of_nat b" "q + of_nat a"] assms by fastforce

lemma LessThan_close:
  assumes "a < b + 2147483648" "b \<le> a + 2147483648"
  shows "LessThan (q + of_nat a) (q + of_nat b :: Value) \<longleftrightarrow> a < b"
proof (cases "a \<le> b")
  case True
  then show ?thesis unfolding LessThan_iff using unat_diff_close [of a b q] assms by auto
next
  case False
  then show ?thesis unfolding LessThan_iff using unat_diff_behind [of b a q] assms by auto
qed

lemma seq_eq_close:
  assumes "a < b + 4294967296" "b < a + 4294967296"
  shows "q + of_nat a = (q + of_nat b :: Value) \<longleftrightarrow> a = b"
proof
  assume eq: "q + of_nat a = (q + of_nat b :: Value)"
  show "a = b"
  proof (cases "a \<le> b")
    case True
    then show ?thesis using unat_diff_close [of a b q] assms eq by simp
  next
    case False
    then show ?thesis using unat_diff_behind [of b a q] assms eq by simp
  qed
qed simp

end
