(* ===== verification/Tcp_Control.thy ===== *)
theory Tcp_Control
  imports Tcp_Seq
begin

text \<open>
  \<open>tcp/control.go\<close> and \<open>tcp/control_rcvhandlers.go\<close>: the transmission control block. The
  record holds the fields of \<open>ControlBlock\<close> except its logger; every method is a function
  that returns the updated block. Logging calls are dropped. A result \<open>None\<close> is a panic.
\<close>

section \<open>State\<close>

record recvSpace =
  rIRS :: Value
  rNXT :: Value
  rWND :: Size

record sendSpace =
  sISS :: Value
  sUNA :: Value
  sNXT :: Value
  sWND :: Size
  sMSS :: Size
  sWL1 :: Value
  sWL2 :: Value

text \<open>The array \<open>pending [2]Flags\<close> is the pair of fields \<open>pending0\<close>, \<open>pending1\<close>.\<close>

record ControlBlock =
  sndS :: sendSpace
  rcvS :: recvSpace
  rstPtr :: Value
  pending0 :: Flags
  pending1 :: Flags
  tcbState :: State
  challengeAcks :: u8
  dupack :: u8
  nRetransmit :: u8

definition retransmitAfterDupacks :: u8 where "retransmitAfterDupacks = 3"
definition retransmitMaxQueued :: u8 where "retransmitMaxQueued = 2"
definition maxChallengeRejects :: int where "maxChallengeRejects = 8"

definition maxWndShift :: nat where "maxWndShift = 14"
definition maxWindow :: Size where "maxWindow = push_bit maxWndShift 0xFFFF"

definition errDropSegment :: goerror where "errDropSegment = Generic ErrPacketDrop"

text \<open>The zero value of the Go structs.\<close>

definition zeroSnd :: sendSpace where
  "zeroSnd = \<lparr>sISS = 0, sUNA = 0, sNXT = 0, sWND = 0, sMSS = 0, sWL1 = 0, sWL2 = 0\<rparr>"

definition zeroRcv :: recvSpace where
  "zeroRcv = \<lparr>rIRS = 0, rNXT = 0, rWND = 0\<rparr>"

definition zeroTCB :: ControlBlock where
  "zeroTCB = \<lparr>sndS = zeroSnd, rcvS = zeroRcv, rstPtr = 0, pending0 = 0, pending1 = 0,
     tcbState = StateClosed, challengeAcks = 0, dupack = 0, nRetransmit = 0\<rparr>"

section \<open>Accessors and segments built from the block\<close>

definition inFlight :: "sendSpace \<Rightarrow> Size" where
  "inFlight s = Sizeof (sUNA s) (sNXT s)"

definition maxSend :: "sendSpace \<Rightarrow> Size" where
  "maxSend s = (let inf = inFlight s in if inf \<ge> sWND s then 0 else sWND s - inf)"

definition MaxInFlightData :: "ControlBlock \<Rightarrow> Size" where
  "MaxInFlightData tcb =
     (if \<not> hasIRS (tcbState tcb) then 0
      else let unacked = Sizeof (sUNA (sndS tcb)) (sNXT (sndS tcb)) in
        if unacked \<ge> sWND (sndS tcb) then 0 else sWND (sndS tcb) - unacked)"

definition SetRecvWindow :: "ControlBlock \<Rightarrow> Size \<Rightarrow> ControlBlock" where
  "SetRecvWindow tcb wnd = tcb\<lparr>rcvS := rcvS tcb\<lparr>rWND := wnd\<rparr>\<rparr>"

definition IncomingIsKeepalive :: "ControlBlock \<Rightarrow> Segment \<Rightarrow> bool" where
  "IncomingIsKeepalive tcb seg \<longleftrightarrow>
     SEQ seg = rNXT (rcvS tcb) - 1 \<and> SegFlags seg = FlagACK \<and>
     ACK seg = sNXT (sndS tcb) \<and> DATALEN seg = 0"

definition IncomingIsDupACK :: "ControlBlock \<Rightarrow> Value \<Rightarrow> bool" where
  "IncomingIsDupACK tcb ack \<longleftrightarrow> ack = sUNA (sndS tcb) \<and> LessThan ack (sNXT (sndS tcb))"

definition MakeKeepalive :: "ControlBlock \<Rightarrow> Segment" where
  "MakeKeepalive tcb =
     \<lparr>SEQ = sNXT (sndS tcb) - 1, ACK = rNXT (rcvS tcb), DATALEN = 0,
      WND = rWND (rcvS tcb), SegFlags = FlagACK\<rparr>"

definition QueueRST :: "ControlBlock \<Rightarrow> Value \<Rightarrow> ControlBlock" where
  "QueueRST tcb seq = tcb\<lparr>pending0 := FlagRST, pending1 := 0, rstPtr := seq\<rparr>"

definition MakeDupACK :: "ControlBlock \<Rightarrow> Segment" where
  "MakeDupACK tcb =
     \<lparr>SEQ = sUNA (sndS tcb), ACK = rNXT (rcvS tcb), DATALEN = 0,
      WND = rWND (rcvS tcb), SegFlags = FlagACK\<rparr>"

definition MakeChallengeACK :: "ControlBlock \<Rightarrow> Segment" where
  "MakeChallengeACK tcb =
     \<lparr>SEQ = sNXT (sndS tcb), ACK = rNXT (rcvS tcb), DATALEN = 0,
      WND = rWND (rcvS tcb), SegFlags = FlagACK\<rparr>"

section \<open>Resetting\<close>

definition tcb_reset :: "ControlBlock \<Rightarrow> ControlBlock" where
  "tcb_reset tcb = zeroTCB"

definition tcb_Abort :: "ControlBlock \<Rightarrow> ControlBlock" where
  "tcb_Abort tcb = tcb_reset tcb"

definition resetSnd :: "ControlBlock \<Rightarrow> Value \<Rightarrow> Size \<Rightarrow> ControlBlock" where
  "resetSnd tcb localISS remoteWND =
     tcb\<lparr>sndS := zeroSnd\<lparr>sISS := localISS, sUNA := localISS, sNXT := localISS, sWND := remoteWND\<rparr>\<rparr>"

definition resetRcv :: "ControlBlock \<Rightarrow> Size \<Rightarrow> Value \<Rightarrow> ControlBlock" where
  "resetRcv tcb localWND remoteISS =
     tcb\<lparr>rcvS := \<lparr>rIRS = remoteISS, rNXT = remoteISS, rWND = localWND\<rparr>\<rparr>"

definition prepareToHandshake :: "ControlBlock \<Rightarrow> Value \<Rightarrow> Size \<Rightarrow> State \<Rightarrow> ControlBlock" where
  "prepareToHandshake tcb iss wnd newState =
     (let tcb = tcb_reset tcb;
          tcb = resetRcv tcb wnd 0;
          tcb = resetSnd tcb iss 1
      in tcb\<lparr>tcbState := newState\<rparr>)"

definition tcb_Open :: "ControlBlock \<Rightarrow> Value \<Rightarrow> Size \<Rightarrow> ControlBlock \<times> goerror option" where
  "tcb_Open tcb iss wnd =
     (if tcbState tcb \<noteq> StateClosed \<and> tcbState tcb \<noteq> StateTimeWait
      then (tcb, Some (TcpErr errNeedClosedTCBToOpen))
      else if wnd > maxWindow then (tcb, Some (TcpErr errWindowTooLarge))
      else (prepareToHandshake tcb iss wnd StateListen, None))"

section \<open>Challenge acknowledgements\<close>

text \<open>\<open>challengeAcks\<close> is an \<open>int8\<close>: the word is read with \<open>sint\<close> and its arithmetic wraps.\<close>

definition triggerChallengeAckSatisfied :: "ControlBlock \<Rightarrow> ControlBlock" where
  "triggerChallengeAckSatisfied tcb = tcb\<lparr>challengeAcks := 0\<rparr>"

definition triggerChallengeAckEmit :: "ControlBlock \<Rightarrow> ControlBlock" where
  "triggerChallengeAckEmit tcb =
     (if sint (challengeAcks tcb) \<ge> 0
      then tcb\<lparr>challengeAcks := - challengeAcks tcb - 1\<rparr> else tcb)"

definition triggerChallengeAckSent :: "ControlBlock \<Rightarrow> ControlBlock" where
  "triggerChallengeAckSent tcb =
     (if sint (challengeAcks tcb) < 0 then tcb\<lparr>challengeAcks := - challengeAcks tcb\<rparr> else tcb)"

definition pendingChallengeAck :: "ControlBlock \<Rightarrow> bool" where
  "pendingChallengeAck tcb \<longleftrightarrow> sint (challengeAcks tcb) < 0"

definition tooManyChallengeAcks :: "ControlBlock \<Rightarrow> bool" where
  "tooManyChallengeAcks tcb =
     (if sint (challengeAcks tcb) \<ge> 0 then sint (challengeAcks tcb) > maxChallengeRejects
      else sint (challengeAcks tcb) < - maxChallengeRejects)"

section \<open>What to send next\<close>

definition HasPendingRetransmit :: "ControlBlock \<Rightarrow> bool" where
  "HasPendingRetransmit tcb \<longleftrightarrow>
     TxDataOpen (tcbState tcb) \<and> dupack tcb \<ge> retransmitAfterDupacks \<and>
     nRetransmit tcb \<le> dupack tcb - retransmitAfterDupacks"

definition HasPending :: "ControlBlock \<Rightarrow> bool" where
  "HasPending tcb \<longleftrightarrow>
     pending0 tcb \<noteq> 0 \<or> pendingChallengeAck tcb \<or> HasPendingRetransmit tcb"

definition tcb_RetransmitFrom :: "ControlBlock \<Rightarrow> Value \<Rightarrow> ControlBlock \<times> bool" where
  "tcb_RetransmitFrom tcb newNxt =
     (if \<not> txQueuedDataOpen (tcbState tcb) then (tcb, False)
      else if LessThan newNxt (sUNA (sndS tcb)) \<or> LessThan (sNXT (sndS tcb)) newNxt
      then (tcb, False)
      else (tcb\<lparr>sndS := sndS tcb\<lparr>sNXT := newNxt\<rparr>, dupack := 0, nRetransmit := 0\<rparr>, True))"

definition tcb_RetransmitAll :: "ControlBlock \<Rightarrow> ControlBlock" where
  "tcb_RetransmitAll tcb = fst (tcb_RetransmitFrom tcb (sUNA (sndS tcb)))"

definition zeroSegment :: Segment where
  "zeroSegment = \<lparr>SEQ = 0, ACK = 0, DATALEN = 0, WND = 0, SegFlags = 0\<rparr>"

text \<open>\<open>PendingSegment\<close>; \<open>None\<close> is its \<open>panic("seqs: bad calculation")\<close>.\<close>

definition PendingSegment :: "ControlBlock \<Rightarrow> int \<Rightarrow> (Segment \<times> bool) option" where
  "PendingSegment tcb payloadLen =
     (let pending = pending0 tcb in
      if pendingChallengeAck tcb then Some (MakeChallengeACK tcb, True)
      else if \<not> HasAny pending flagctl \<and> HasPendingRetransmit tcb then
        Some (\<lparr>SEQ = sUNA (sndS tcb), ACK = rNXT (rcvS tcb), DATALEN = word_of_int payloadLen,
               WND = rWND (rcvS tcb), SegFlags = FlagACK\<rparr>, True)
      else
        let canSendData = txQueuedDataOpen (tcbState tcb);
            payloadLen = (if \<not> canSendData then 0 else payloadLen)
        in if pending = 0 \<and> payloadLen = 0 then Some (zeroSegment, False)
        else
          let maxPayload = maxSend (sndS tcb) in
          if payloadLen > uint maxPayload \<and> maxPayload = 0 \<and> pending = 0
          then Some (zeroSegment, False)
          else if payloadLen > uint maxPayload \<and> maxPayload > sWND (sndS tcb) then None
          else
            let payloadLen = (if payloadLen > uint maxPayload then uint maxPayload else payloadLen);
                payloadLen = (if sMSS (sndS tcb) > 0 \<and> payloadLen > uint (sMSS (sndS tcb))
                              then uint (sMSS (sndS tcb)) else payloadLen);
                pending = (if canSendData then pending OR FlagACK else pending);
                payloadLen = (if canSendData then payloadLen else 0);
                ack = (if HasAny pending FlagACK then rNXT (rcvS tcb) else 0);
                seq = (if HasAny pending FlagRST then rstPtr tcb else sNXT (sndS tcb))
            in Some (\<lparr>SEQ = seq, ACK = ack, DATALEN = word_of_int payloadLen,
                      WND = rWND (rcvS tcb), SegFlags = pending\<rparr>, True))"

section \<open>Receiving\<close>

definition rstJump :: Value where "rstJump = 100"

definition handleRST :: "ControlBlock \<Rightarrow> Value \<Rightarrow> ControlBlock \<times> goerror option" where
  "handleRST tcb seq =
     (case tcbState tcb of
        StateSynSent \<Rightarrow> (tcb_Abort tcb, Some NetClosed)
      | StateListen \<Rightarrow> (tcb, Some errDropSegment)
      | StateSynRcvd \<Rightarrow>
          (let tcb = tcb\<lparr>pending0 := 0, tcbState := StateListen\<rparr>;
               tcb = resetSnd tcb (sISS (sndS tcb) + rstJump) (sWND (sndS tcb));
               tcb = resetRcv tcb (rWND (rcvS tcb)) (3141592653 XOR rIRS (rcvS tcb))
           in (tcb, Some errDropSegment))
      | _ \<Rightarrow>
          (if seq \<noteq> rNXT (rcvS tcb)
           then (let tcb = triggerChallengeAckEmit tcb
                 in (tcb\<lparr>pending0 := pending0 tcb OR FlagACK\<rparr>, Some errDropSegment))
           else (tcb_Abort tcb, Some NetClosed)))"

text \<open>The first \<open>switch\<close> of \<open>validateIncomingSegment\<close>: is the segment acceptable?\<close>

definition incomingAcceptErr :: "ControlBlock \<Rightarrow> Segment \<Rightarrow> goerror option" where
  "incomingAcceptErr tcb seg =
     (let flags = SegFlags seg;
          preestablished = IsPreestablished (tcbState tcb);
          checkSEQ = (\<not> HasAny flags FlagSYN \<or> \<not> preestablished) \<and> tcbState tcb \<noteq> StateListen;
          nxt = rNXT (rcvS tcb); wnd = rWND (rcvS tcb);
          zeroWindowOK = (wnd = 0 \<and> DATALEN seg = 0 \<and> SEQ seg = nxt)
      in if WND seg > maxWindow then Some (Reject errWindowOverflow)
         else if tcbState tcb = StateClosed then Some IoClosedPipe
         else if checkSEQ \<and> wnd = 0 \<and> DATALEN seg > 0 \<and> SEQ seg = nxt
           then Some (Reject errZeroWindow)
         else if checkSEQ \<and> \<not> InWindow (SEQ seg) nxt wnd \<and> \<not> zeroWindowOK
           then Some (Reject errSeqNotInWindow)
         else if checkSEQ \<and> \<not> InWindow (Last seg) nxt wnd \<and> \<not> zeroWindowOK
           then Some (Reject errLastNotInWindow)
         else if checkSEQ \<and> \<not> HasAny flags FlagRST \<and> SEQ seg \<noteq> nxt
           then Some (Reject errRequireSequential)
         else None)"

definition validateIncomingSegment ::
    "ControlBlock \<Rightarrow> Segment \<Rightarrow> ControlBlock \<times> goerror option" where
  "validateIncomingSegment tcb seg =
     (let flags = SegFlags seg;
          hasAck = HasAll flags FlagACK;
          preestablished = IsPreestablished (tcbState tcb);
          established = (tcbState tcb = StateEstablished);
          acksOld = (hasAck \<and> \<not> LessThan (sUNA (sndS tcb)) (ACK seg));
          acksUnsentData = (hasAck \<and> \<not> LessThanEq (ACK seg) (sNXT (sndS tcb)));
          ctlOrDataSegment = (established \<and> (DATALEN seg > 0 \<or> HasAny flags (FlagFIN OR FlagRST)))
      in case incomingAcceptErr tcb seg of
           Some err \<Rightarrow>
             (if err \<in> {Reject errSeqNotInWindow, Reject errLastNotInWindow,
                         Reject errRequireSequential, Reject errZeroWindow}
                 \<and> \<not> HasAny flags FlagRST
              then (if tooManyChallengeAcks tcb then (tcb_Abort tcb, Some NetClosed)
                    else (triggerChallengeAckEmit tcb, Some err))
              else (tcb, Some err))
         | None \<Rightarrow>
             (if HasAny flags FlagRST then handleRST tcb (SEQ seg)
              else if established \<and> acksOld \<and> \<not> ctlOrDataSegment then (tcb, None)
              else if established \<and> acksUnsentData
              then (tcb\<lparr>pending0 := pending0 tcb OR FlagACK\<rparr>, Some errDropSegment)
              else if preestablished \<and> (acksOld \<or> acksUnsentData)
              then (resetSnd (tcb\<lparr>pending0 := FlagRST, rstPtr := ACK seg\<rparr>)
                      (sISS (sndS tcb)) (WND seg), Some errDropSegment)
              else (tcb, None)))"

definition rcvListen :: "ControlBlock \<Rightarrow> Segment \<Rightarrow> ControlBlock \<times> Flags \<times> goerror option" where
  "rcvListen tcb seg =
     (if \<not> HasAll (SegFlags seg) FlagSYN then (tcb, 0, Some (TcpErr errExpectedSYN))
      else let tcb = resetSnd tcb (sISS (sndS tcb)) (WND seg);
               tcb = resetRcv tcb (rWND (rcvS tcb)) (SEQ seg)
           in (tcb\<lparr>pending0 := synack, tcbState := StateSynRcvd\<rparr>, synack, None))"

definition rcvSynSent :: "ControlBlock \<Rightarrow> Segment \<Rightarrow> ControlBlock \<times> Flags \<times> goerror option" where
  "rcvSynSent tcb seg =
     (let hasSyn = HasAny (SegFlags seg) FlagSYN; hasAck = HasAny (SegFlags seg) FlagACK in
      if \<not> hasSyn then (tcb, 0, Some (TcpErr errExpectedSYN))
      else if hasAck \<and> ACK seg \<noteq> sUNA (sndS tcb) + 1 then (tcb, 0, Some (TcpErr errBadSegack))
      else if hasAck then
        (let tcb = tcb\<lparr>tcbState := StateEstablished\<rparr>
         in (resetRcv tcb (rWND (rcvS tcb)) (SEQ seg), FlagACK, None))
      else
        (let tcb = tcb\<lparr>tcbState := StateSynRcvd\<rparr>;
             tcb = resetSnd tcb (sISS (sndS tcb)) (WND seg)
         in (resetRcv tcb (rWND (rcvS tcb)) (SEQ seg), synack, None)))"

definition rcvSynRcvd :: "ControlBlock \<Rightarrow> Segment \<Rightarrow> ControlBlock \<times> Flags \<times> goerror option" where
  "rcvSynRcvd tcb seg =
     (if \<not> HasAll (SegFlags seg) FlagACK then (tcb, 0, Some (TcpErr errBadSegack))
      else if ACK seg \<noteq> sUNA (sndS tcb) + 1 then (tcb, 0, Some (TcpErr errBadSegack))
      else (tcb\<lparr>tcbState := StateEstablished\<rparr>, 0, None))"

definition rcvEstablished :: "ControlBlock \<Rightarrow> Segment \<Rightarrow> ControlBlock \<times> Flags \<times> goerror option" where
  "rcvEstablished tcb seg =
     (let dataToAck = DATALEN seg > 0; hasFin = HasAny (SegFlags seg) FlagFIN in
      if dataToAck \<or> hasFin
      then ((if hasFin then tcb\<lparr>tcbState := StateCloseWait\<rparr> else tcb), FlagACK, None)
      else (tcb, 0, None))"

definition rcvFinWait1 :: "ControlBlock \<Rightarrow> Segment \<Rightarrow> ControlBlock \<times> Flags \<times> goerror option" where
  "rcvFinWait1 tcb seg =
     (let flags = SegFlags seg;
          hasFin = (flags AND FlagFIN \<noteq> 0); hasAck = (flags AND FlagACK \<noteq> 0);
          pending = (if DATALEN seg > 0 \<or> hasFin then FlagACK else 0)
      in if hasFin \<and> hasAck \<and> ACK seg = sNXT (sndS tcb)
           then (tcb\<lparr>tcbState := StateTimeWait\<rparr>, pending, None)
         else if hasFin then (tcb\<lparr>tcbState := StateClosing\<rparr>, pending, None)
         else if hasAck \<and> ACK seg = sNXT (sndS tcb)
           then (tcb\<lparr>tcbState := StateFinWait2\<rparr>, pending, None)
         else if hasAck then (tcb, pending, None)
         else (tcb, 0, Some (TcpErr errFinwaitExpectedACK)))"

definition rcvFinWait2 :: "ControlBlock \<Rightarrow> Segment \<Rightarrow> ControlBlock \<times> Flags \<times> goerror option" where
  "rcvFinWait2 tcb seg =
     (if HasAny (SegFlags seg) FlagFIN then (tcb\<lparr>tcbState := StateTimeWait\<rparr>, FlagACK, None)
      else if DATALEN seg > 0 then (tcb, FlagACK, None)
      else (tcb, 0, None))"

text \<open>The state \<open>switch\<close> of \<open>Recv\<close>; its \<open>default\<close> branch is a panic.\<close>

definition recvDispatch ::
    "ControlBlock \<Rightarrow> Segment \<Rightarrow> (ControlBlock \<times> Flags \<times> goerror option) option" where
  "recvDispatch tcb seg =
     (case tcbState tcb of
        StateListen \<Rightarrow> Some (rcvListen tcb seg)
      | StateSynSent \<Rightarrow> Some (rcvSynSent tcb seg)
      | StateSynRcvd \<Rightarrow> Some (rcvSynRcvd tcb seg)
      | StateEstablished \<Rightarrow> Some (rcvEstablished tcb seg)
      | StateFinWait1 \<Rightarrow> Some (rcvFinWait1 tcb seg)
      | StateFinWait2 \<Rightarrow> Some (rcvFinWait2 tcb seg)
      | StateCloseWait \<Rightarrow> Some (tcb, 0, None)
      | StateLastAck \<Rightarrow>
          Some (if HasAny (SegFlags seg) FlagACK then tcb_Abort tcb else tcb, 0, None)
      | StateClosing \<Rightarrow>
          Some (if HasAny (SegFlags seg) FlagACK then tcb\<lparr>tcbState := StateTimeWait\<rparr> else tcb,
                0, None)
      | _ \<Rightarrow> None)"

text \<open>Send-window update of \<open>Recv\<close> (WL1/WL2 rules).\<close>

definition updateSendWindow :: "ControlBlock \<Rightarrow> Segment \<Rightarrow> ControlBlock" where
  "updateSendWindow tcb seg =
     (let s = sndS tcb; wlUnset = (sWL1 s = 0 \<and> sWL2 s = 0) in
      if wlUnset \<or> LessThan (sWL1 s) (SEQ seg) \<or>
         (sWL1 s = SEQ seg \<and> LessThanEq (sWL2 s) (ACK seg))
      then tcb\<lparr>sndS := s\<lparr>sWND := (if LessThan (sUNA s) (ACK seg) \<or> WND seg > sWND s
                                  then WND seg else sWND s),
                         sWL1 := SEQ seg, sWL2 := ACK seg\<rparr>\<rparr>
      else tcb)"

text \<open>Acknowledgement processing of \<open>Recv\<close>: duplicate-ACK counting or \<open>snd.UNA\<close> advance.\<close>

definition processAck :: "ControlBlock \<Rightarrow> Segment \<Rightarrow> ControlBlock" where
  "processAck tcb seg =
     (if HasAny (SegFlags seg) FlagACK \<and> LessThanEq (ACK seg) (sNXT (sndS tcb)) then
        (if IncomingIsDupACK tcb (ACK seg) \<and> TxDataOpen (tcbState tcb) \<and>
            \<not> HasAny (SegFlags seg) flagctl \<and>
            dupack tcb < nRetransmit tcb + retransmitMaxQueued + retransmitMaxQueued
         then tcb\<lparr>dupack := dupack tcb + 1\<rparr>
         else if LessThan (sUNA (sndS tcb)) (ACK seg)
         then tcb\<lparr>sndS := sndS tcb\<lparr>sUNA := ACK seg\<rparr>, dupack := 0, nRetransmit := 0\<rparr>
         else tcb)
      else tcb)"

text \<open>The tail of \<open>Recv\<close>, once a state handler has accepted the segment.\<close>

definition recvFinish :: "ControlBlock \<Rightarrow> Flags \<Rightarrow> Segment \<Rightarrow> ControlBlock" where
  "recvFinish tcb pending seg =
     (let tcb = triggerChallengeAckSatisfied tcb;
          tcb = tcb\<lparr>pending0 := pending0 tcb OR pending\<rparr>;
          tcb = updateSendWindow tcb seg;
          tcb = processAck tcb seg
      in tcb\<lparr>rcvS := rcvS tcb\<lparr>rNXT := UpdateForward (rNXT (rcvS tcb)) (LEN seg)\<rparr>\<rparr>)"

definition tcb_Recv :: "ControlBlock \<Rightarrow> Segment \<Rightarrow> (ControlBlock \<times> goerror option) option" where
  "tcb_Recv tcb seg =
     (let (tcb, err) = validateIncomingSegment tcb seg in
      if err \<noteq> None then Some (tcb, err)
      else if HasAny (SegFlags seg) FlagSYN \<and> \<not> IsPreestablished (tcbState tcb)
      then (let tcb = triggerChallengeAckEmit tcb
            in Some (tcb\<lparr>pending0 := pending0 tcb OR FlagACK\<rparr>, Some errDropSegment))
      else do {
        (tcb, pending, err) \<leftarrow> recvDispatch tcb seg;
        if err \<noteq> None then Some (tcb, err)
        else Some (recvFinish tcb pending seg, None)
      })"

section \<open>Sending and closing\<close>

definition validateOutgoingSegment :: "ControlBlock \<Rightarrow> Segment \<Rightarrow> goerror option" where
  "validateOutgoingSegment tcb seg =
     (let hasAck = HasAny (SegFlags seg) FlagACK;
          isFirst = (tcbState tcb = StateClosed \<and> isFirstSYN seg);
          checkSeq = (\<not> isFirst \<and> \<not> HasAny (SegFlags seg) FlagRST);
          seglast = Last seg;
          nxt = sNXT (sndS tcb); wnd = sWND (sndS tcb);
          zeroWindowOK = (wnd = 0 \<and> DATALEN seg = 0 \<and> SEQ seg = nxt);
          outOfWindow = (checkSeq \<and> \<not> InWindow (SEQ seg) nxt wnd \<and> \<not> zeroWindowOK);
          isRetransmit = (checkSeq \<and> InRange (SEQ seg) (sUNA (sndS tcb)) nxt)
      in if tcbState tcb = StateClosed \<and> \<not> isFirst then Some IoClosedPipe
         else if WND seg > maxWindow then Some (TcpErr errWindowTooLarge)
         else if hasAck \<and> ACK seg \<noteq> rNXT (rcvS tcb) then Some (Reject errAckNotNext)
         else if outOfWindow \<and> \<not> isRetransmit
           then (if wnd = 0 then Some (Reject errZeroWindow) else Some (Reject errSeqNotInWindow))
         else if DATALEN seg > 0 \<and> tcbState tcb = StateFinWait2
           then Some (TcpErr errConnectionClosing)
         else if checkSeq \<and> wnd = 0 \<and> DATALEN seg > 0 \<and> SEQ seg = nxt
           then Some (Reject errZeroWindow)
         else if checkSeq \<and> \<not> InWindow seglast nxt wnd \<and> \<not> zeroWindowOK \<and> \<not> isRetransmit
           then Some (Reject errLastNotInWindow)
         else None)"

text \<open>The state \<open>switch\<close> of \<open>Send\<close>.\<close>

definition sendDispatch :: "ControlBlock \<Rightarrow> Segment \<Rightarrow> ControlBlock" where
  "sendDispatch tcb seg =
     (let hasFIN = HasAny (SegFlags seg) FlagFIN; hasACK = HasAny (SegFlags seg) FlagACK in
      case tcbState tcb of
        StateClosed \<Rightarrow>
          (if SegFlags seg = FlagSYN
           then prepareToHandshake tcb (SEQ seg) (WND seg) StateSynSent else tcb)
      | StateSynRcvd \<Rightarrow> (if hasFIN then tcb\<lparr>tcbState := StateFinWait1\<rparr> else tcb)
      | StateEstablished \<Rightarrow> (if hasFIN then tcb\<lparr>tcbState := StateFinWait1\<rparr> else tcb)
      | StateClosing \<Rightarrow> (if hasACK then tcb\<lparr>tcbState := StateTimeWait\<rparr> else tcb)
      | StateCloseWait \<Rightarrow> (if hasFIN then tcb\<lparr>tcbState := StateLastAck\<rparr> else tcb)
      | _ \<Rightarrow> tcb)"

text \<open>Advancing the queue of pending flags.\<close>

definition advancePending :: "ControlBlock \<Rightarrow> Segment \<Rightarrow> ControlBlock" where
  "advancePending tcb seg =
     (let tcb = tcb\<lparr>pending0 := pending0 tcb AND NOT (SegFlags seg)\<rparr> in
      if pending0 tcb = 0
      then tcb\<lparr>pending0 := pending1 tcb AND NOT (SegFlags seg AND FlagFIN), pending1 := 0\<rparr>
      else tcb)"

definition tcb_Send :: "ControlBlock \<Rightarrow> Segment \<Rightarrow> ControlBlock \<times> goerror option" where
  "tcb_Send tcb seg =
     (case validateOutgoingSegment tcb seg of
        Some err \<Rightarrow> (tcb, Some err)
      | None \<Rightarrow>
        (let tcb = sendDispatch tcb seg;
             tcb = advancePending tcb seg;
             tcb = (if pendingChallengeAck tcb \<and> HasAny (SegFlags seg) FlagACK
                    then triggerChallengeAckSent tcb else tcb);
             retransmit = LessThan (SEQ seg) (sNXT (sndS tcb));
             tcb = (if retransmit
                    then (if nRetransmit tcb < 255 - retransmitMaxQueued - retransmitAfterDupacks
                          then tcb\<lparr>nRetransmit := nRetransmit tcb + 1\<rparr> else tcb)
                    else tcb\<lparr>sndS := sndS tcb\<lparr>sNXT := UpdateForward (sNXT (sndS tcb)) (LEN seg)\<rparr>\<rparr>);
             tcb = tcb\<lparr>rcvS := rcvS tcb\<lparr>rWND := WND seg\<rparr>\<rparr>
         in (tcb, None)))"

definition tcb_Close :: "ControlBlock \<Rightarrow> ControlBlock \<times> goerror option" where
  "tcb_Close tcb =
     (case tcbState tcb of
        StateClosed \<Rightarrow> (tcb, Some (TcpErr errConnNotExist))
      | StateCloseWait \<Rightarrow>
          (tcb\<lparr>tcbState := StateLastAck, pending0 := FlagFIN OR FlagACK, pending1 := 0\<rparr>, None)
      | StateListen \<Rightarrow> (tcb_Abort tcb, None)
      | StateSynSent \<Rightarrow> (tcb_Abort tcb, None)
      | StateSynRcvd \<Rightarrow> (tcb\<lparr>pending0 := (pending0 tcb AND FlagACK) OR FlagFIN\<rparr>, None)
      | StateEstablished \<Rightarrow> (tcb\<lparr>pending0 := (pending0 tcb AND FlagACK) OR FlagFIN\<rparr>, None)
      | StateFinWait2 \<Rightarrow> (tcb, Some (TcpErr errConnectionClosing))
      | StateTimeWait \<Rightarrow> (tcb, Some (TcpErr errConnectionClosing))
      | _ \<Rightarrow> (tcb, Some (TcpErr errInvalidState)))"

section \<open>Shape of a reception\<close>

lemma triggerChallengeAck_fields [simp]:
  "sndS (triggerChallengeAckEmit t) = sndS t" "rcvS (triggerChallengeAckEmit t) = rcvS t"
  "tcbState (triggerChallengeAckEmit t) = tcbState t" "pending0 (triggerChallengeAckEmit t) = pending0 t"
  "pending1 (triggerChallengeAckEmit t) = pending1 t"
  "sndS (triggerChallengeAckSent t) = sndS t" "rcvS (triggerChallengeAckSent t) = rcvS t"
  "tcbState (triggerChallengeAckSent t) = tcbState t" "pending0 (triggerChallengeAckSent t) = pending0 t"
  "pending1 (triggerChallengeAckSent t) = pending1 t"
  "dupack (triggerChallengeAckSent t) = dupack t" "nRetransmit (triggerChallengeAckSent t) = nRetransmit t"
  by (simp_all add: triggerChallengeAckEmit_def triggerChallengeAckSent_def)

lemma reset_fields [simp]:
  "tcbState (tcb_Abort t) = StateClosed" "tcbState (resetSnd t i w) = tcbState t"
  "rcvS (resetSnd t i w) = rcvS t" "tcbState (resetRcv t w' i) = tcbState t"
  "sndS (resetRcv t w' i) = sndS t" "pending0 (resetSnd t i w) = pending0 t"
  "pending0 (resetRcv t w' i) = pending0 t"
  by (simp_all add: tcb_Abort_def tcb_reset_def zeroTCB_def resetSnd_def resetRcv_def)

text \<open>The seven outcomes of the admission checks.\<close>

lemma validateIncomingSegment_cases:
  obtains
    (challenge) err where "incomingAcceptErr tcb seg = Some err" "tcbState tcb \<noteq> StateListen"
      "validateIncomingSegment tcb seg = (triggerChallengeAckEmit tcb, Some err)"
  | (tooMany) err where "incomingAcceptErr tcb seg = Some err" "tcbState tcb \<noteq> StateListen"
      "validateIncomingSegment tcb seg = (tcb_Abort tcb, Some NetClosed)"
  | (refused) err where "incomingAcceptErr tcb seg = Some err"
      "validateIncomingSegment tcb seg = (tcb, Some err)"
  | (reset) "incomingAcceptErr tcb seg = None" "HasAny (SegFlags seg) FlagRST"
      "validateIncomingSegment tcb seg = handleRST tcb (SEQ seg)"
  | (unsent) "incomingAcceptErr tcb seg = None" "\<not> HasAny (SegFlags seg) FlagRST"
      "tcbState tcb = StateEstablished" "\<not> LessThanEq (ACK seg) (sNXT (sndS tcb))"
      "validateIncomingSegment tcb seg =
         (tcb\<lparr>pending0 := pending0 tcb OR FlagACK\<rparr>, Some errDropSegment)"
  | (badack) "incomingAcceptErr tcb seg = None" "\<not> HasAny (SegFlags seg) FlagRST"
      "IsPreestablished (tcbState tcb)"
      "validateIncomingSegment tcb seg =
         (resetSnd (tcb\<lparr>pending0 := FlagRST, rstPtr := ACK seg\<rparr>) (sISS (sndS tcb)) (WND seg),
          Some errDropSegment)"
  | (admitted) "incomingAcceptErr tcb seg = None" "\<not> HasAny (SegFlags seg) FlagRST"
      "validateIncomingSegment tcb seg = (tcb, None)"
proof (cases "incomingAcceptErr tcb seg")
  case (Some err)
  have "tcbState tcb \<noteq> StateListen" if "err \<in> {Reject errSeqNotInWindow, Reject errLastNotInWindow,
      Reject errRequireSequential, Reject errZeroWindow}"
    using Some that by (auto simp: incomingAcceptErr_def Let_def split: if_splits)
  then have "tcbState tcb \<noteq> StateListen \<and>
      (validateIncomingSegment tcb seg = (triggerChallengeAckEmit tcb, Some err) \<or>
       validateIncomingSegment tcb seg = (tcb_Abort tcb, Some NetClosed)) \<or>
      validateIncomingSegment tcb seg = (tcb, Some err)"
    using Some by (auto simp: validateIncomingSegment_def)
  then show thesis
    using Some challenge tooMany refused by blast
next
  case None
  show thesis
  proof (cases "HasAny (SegFlags seg) FlagRST")
    case True
    with None show thesis by (intro reset) (simp_all add: validateIncomingSegment_def)
  next
    case False
    with None have "validateIncomingSegment tcb seg = (tcb, None) \<or>
        tcbState tcb = StateEstablished \<and> \<not> LessThanEq (ACK seg) (sNXT (sndS tcb)) \<and>
        validateIncomingSegment tcb seg =
          (tcb\<lparr>pending0 := pending0 tcb OR FlagACK\<rparr>, Some errDropSegment) \<or>
        IsPreestablished (tcbState tcb) \<and> validateIncomingSegment tcb seg =
          (resetSnd (tcb\<lparr>pending0 := FlagRST, rstPtr := ACK seg\<rparr>) (sISS (sndS tcb)) (WND seg),
           Some errDropSegment)"
      by (auto simp: validateIncomingSegment_def Let_def)
    with None False show thesis
      using unsent badack admitted by blast
  qed
qed

lemma handleRST_refuses: "snd (handleRST t s) \<noteq> None"
  by (simp add: handleRST_def Let_def split: State.splits)

lemma validateIncomingSegment_None:
  assumes "validateIncomingSegment tcb seg = (t, None)"
  shows "t = tcb \<and> incomingAcceptErr tcb seg = None \<and> \<not> HasAny (SegFlags seg) FlagRST"
  using handleRST_refuses [of tcb "SEQ seg"] assms
  by (cases rule: validateIncomingSegment_cases [of tcb seg]) simp_all

text \<open>Which handler result and which tail an accepted segment went through.\<close>

lemma tcb_Recv_okE:
  assumes "tcb_Recv tcb seg = Some (tcb', None)"
  obtains t pend where "incomingAcceptErr tcb seg = None" "\<not> HasAny (SegFlags seg) FlagRST"
    "validateIncomingSegment tcb seg = (tcb, None)"
    "HasAny (SegFlags seg) FlagSYN \<Longrightarrow> IsPreestablished (tcbState tcb)"
    "recvDispatch tcb seg = Some (t, pend, None)" "tcb' = recvFinish t pend seg"
proof -
  obtain t err where v: "validateIncomingSegment tcb seg = (t, err)" by fastforce
  with assms have "err = None" by (auto simp: tcb_Recv_def split: if_splits)
  with v have t: "t = tcb" "incomingAcceptErr tcb seg = None" "\<not> HasAny (SegFlags seg) FlagRST"
    using validateIncomingSegment_None by auto
  then have "\<not> (HasAny (SegFlags seg) FlagSYN \<and> \<not> IsPreestablished (tcbState tcb))"
    using assms v \<open>err = None\<close> by (auto simp: tcb_Recv_def Let_def split: if_splits)
  with assms v \<open>err = None\<close> t show thesis
    by (auto simp: tcb_Recv_def Let_def split: if_splits option.splits bind_splits intro: that)
qed

end
