(* ===== verification/Byte_Fifo.thy ===== *)
theory Byte_Fifo
  imports Lneto_Prelude
begin

text \<open>
  The contracts the TCP code relies on when it buffers bytes. \<open>byte_fifo\<close> is a bounded FIFO
  of bytes: whatever is put comes out once, in order, and a put that does not fit changes
  nothing. \<open>staged_fifo\<close> adds what reassembly needs: bytes can be staged ahead of a gap and
  committed once the gap is filled. The laws are stated against a plain list; the lemmas
  lift them to whole runs of operations and to the gap-filling sequence.
\<close>

section \<open>The list specification\<close>

fun list_put :: "nat \<Rightarrow> bytes \<Rightarrow> bytes \<Rightarrow> bytes \<times> int \<times> goerror option" where
  "list_put c s b =
     (if b = [] then (s, 0, Some (RingErr errRingNoData))
      else if c < length s + length b then (s, 0, Some (Generic ErrBufferFull))
      else (s @ b, int (length b), None))"

fun list_get :: "bytes \<Rightarrow> nat \<Rightarrow> bytes \<times> bytes \<times> goerror option" where
  "list_get s k =
     (if k = 0 then (s, [], None)
      else if s = [] then (s, [], Some IoEOF)
      else (drop k s, take k s, None))"

datatype fifo_op = FPut bytes | FGet nat

text \<open>What a caller sees of one operation: the byte count, the bytes read, the error.\<close>

type_synonym fifo_out = "int \<times> bytes \<times> goerror option"

fun spec_run :: "nat \<Rightarrow> bytes \<Rightarrow> fifo_op list \<Rightarrow> fifo_out list" where
  "spec_run c s [] = []"
| "spec_run c s (FPut b # ops) =
     (let (s', n, err) = list_put c s b in (n, [], err) # spec_run c s' ops)"
| "spec_run c s (FGet k # ops) =
     (let (s', b, err) = list_get s k in (int (length b), b, err) # spec_run c s' ops)"

fun fifo_run ::
    "('q \<Rightarrow> bytes \<Rightarrow> ('q \<times> int \<times> goerror option) option) \<Rightarrow>
     ('q \<Rightarrow> nat \<Rightarrow> ('q \<times> bytes \<times> goerror option) option) \<Rightarrow>
     'q \<Rightarrow> fifo_op list \<Rightarrow> fifo_out list option" where
  "fifo_run put get q [] = Some []"
| "fifo_run put get q (FPut b # ops) = do {
     (q', n, err) \<leftarrow> put q b;
     outs \<leftarrow> fifo_run put get q' ops;
     Some ((n, [], err) # outs)
   }"
| "fifo_run put get q (FGet k # ops) = do {
     (q', b, err) \<leftarrow> get q k;
     outs \<leftarrow> fifo_run put get q' ops;
     Some ((int (length b), b, err) # outs)
   }"

text \<open>The bytes accepted by the puts and delivered by the gets of a run.\<close>

fun bytes_in :: "fifo_op list \<Rightarrow> fifo_out list \<Rightarrow> bytes" where
  "bytes_in (FPut b # ops) (x # outs) = take (nat (fst x)) b @ bytes_in ops outs"
| "bytes_in (FGet k # ops) (_ # outs) = bytes_in ops outs"
| "bytes_in _ _ = []"

fun bytes_out :: "fifo_out list \<Rightarrow> bytes" where
  "bytes_out [] = []"
| "bytes_out (x # outs) = fst (snd x) @ bytes_out outs"

lemma spec_run_conserves:
  "\<exists>rest. s @ bytes_in ops (spec_run c s ops) = bytes_out (spec_run c s ops) @ rest"
proof (induction c s ops rule: spec_run.induct)
  case (1 c s)
  then show ?case by simp
next
  case (2 c s b ops)
  then show ?case by (cases "b = []"; cases "c < length s + length b") auto
next
  case (3 c s k ops)
  then obtain rest where IH: "fst (list_get s k) @ bytes_in ops (spec_run c (fst (list_get s k)) ops)
      = bytes_out (spec_run c (fst (list_get s k)) ops) @ rest"
    by (metis prod.collapse)
  have "fst (snd (list_get s k)) @ fst (list_get s k) = s" by simp
  with IH have "s @ bytes_in ops (spec_run c (fst (list_get s k)) ops) =
      fst (snd (list_get s k)) @ bytes_out (spec_run c (fst (list_get s k)) ops) @ rest"
    by (metis append.assoc)
  then show ?case by (auto simp: Let_def split_beta simp del: list_get.simps)
qed

section \<open>The interfaces\<close>

locale byte_fifo =
  fixes invar :: "'q \<Rightarrow> bool"
    and contents :: "'q \<Rightarrow> bytes"
    and room :: "'q \<Rightarrow> nat"
    and put :: "'q \<Rightarrow> bytes \<Rightarrow> ('q \<times> int \<times> goerror option) option"
    and get :: "'q \<Rightarrow> nat \<Rightarrow> ('q \<times> bytes \<times> goerror option) option"
  assumes put_law: "invar q \<Longrightarrow>
      \<exists>q'. put q b = Some (q', snd (list_put (room q) (contents q) b)) \<and> invar q' \<and>
        contents q' = fst (list_put (room q) (contents q) b) \<and> room q' = room q"
    and get_law: "invar q \<Longrightarrow>
      \<exists>q'. get q k = Some (q', snd (list_get (contents q) k)) \<and> invar q' \<and>
        contents q' = fst (list_get (contents q) k) \<and> room q' = room q"
    and fill_law: "invar q \<Longrightarrow> length (contents q) \<le> room q"
begin

lemma run_refines_list:
  "invar q \<Longrightarrow> fifo_run put get q ops = Some (spec_run (room q) (contents q) ops)"
proof (induction ops arbitrary: q)
  case Nil
  then show ?case by simp
next
  case (Cons x ops)
  show ?case
  proof (cases x)
    case (FPut b)
    obtain q' where "put q b = Some (q', snd (list_put (room q) (contents q) b))" "invar q'"
      "contents q' = fst (list_put (room q) (contents q) b)" "room q' = room q"
      using put_law [OF Cons.prems] by blast
    then show ?thesis
      using Cons.IH [of q'] FPut by (auto split: prod.splits simp del: list_put.simps)
  next
    case (FGet k)
    obtain q' where "get q k = Some (q', snd (list_get (contents q) k))" "invar q'"
      "contents q' = fst (list_get (contents q) k)" "room q' = room q"
      using get_law [OF Cons.prems] by blast
    then show ?thesis
      using Cons.IH [of q'] FGet by (auto split: prod.splits simp del: list_get.simps)
  qed
qed

lemma run_in_order:
  assumes "invar q" "contents q = []"
  shows "\<exists>outs rest. fifo_run put get q ops = Some outs \<and> bytes_in ops outs = bytes_out outs @ rest"
  using run_refines_list [OF assms(1), of ops] spec_run_conserves [of "[]" ops "room q"] assms(2)
  by auto

end

text \<open>
  \<open>holds q v u\<close>: the storage, read from the oldest byte on, is \<open>v\<close>, and its first \<open>u\<close>
  bytes are readable. Staging writes behind the readable part, committing extends it.
\<close>

locale staged_fifo =
  fixes holds :: "'q \<Rightarrow> bytes \<Rightarrow> nat \<Rightarrow> bool"
    and put :: "'q \<Rightarrow> bytes \<Rightarrow> ('q \<times> int \<times> goerror option) option"
    and stage :: "'q \<Rightarrow> bytes \<Rightarrow> int \<Rightarrow> ('q \<times> bool) option"
    and commit :: "'q \<Rightarrow> int \<Rightarrow> 'q \<times> goerror option"
  assumes holds_le: "holds q v u \<Longrightarrow> u \<le> length v"
    and put_holds: "\<lbrakk>holds q v u; b \<noteq> []; u + length b \<le> length v\<rbrakk> \<Longrightarrow>
      \<exists>q'. put q b = Some (q', int (length b), None) \<and> holds q' (patch u b v) (u + length b)"
    and stage_holds: "\<lbrakk>holds q v u; u + k + length b \<le> length v\<rbrakk> \<Longrightarrow>
      \<exists>q'. stage q b (int k) = Some (q', True) \<and> holds q' (patch (u + k) b v) u"
    and commit_holds: "\<lbrakk>holds q v u; 0 < k; u + k \<le> length v\<rbrakk> \<Longrightarrow>
      \<exists>q'. commit q (int k) = (q', None) \<and> holds q' v (u + k)"
begin

text \<open>
  Bytes staged behind a gap are handed out right after the bytes that fill the gap: the
  sequence stage, put, commit appends the gap and the staged bytes to the readable data.
\<close>

lemma stage_put_commit:
  assumes "holds q v u" "gap \<noteq> []" "b \<noteq> []" "u + length gap + length b \<le> length v"
  shows "\<exists>q1 q2 q3. stage q b (int (length gap)) = Some (q1, True)
    \<and> put q1 gap = Some (q2, int (length gap), None)
    \<and> commit q2 (int (length b)) = (q3, None)
    \<and> (\<exists>v'. holds q3 v' (u + length gap + length b) \<and>
         take (u + length gap + length b) v' = take u v @ gap @ b)"
proof -
  let ?v1 = "patch (u + length gap) b v" and ?k = "u + length gap"
  obtain q1 where q1: "stage q b (int (length gap)) = Some (q1, True)" "holds q1 ?v1 u"
    using stage_holds assms(1,4) by blast
  have len: "length ?v1 = length v" using assms(4) by simp
  obtain q2 where q2: "put q1 gap = Some (q2, int (length gap), None)"
    "holds q2 (patch u gap ?v1) ?k"
    using put_holds [OF q1(2) assms(2)] len assms(4) by auto
  obtain q3 where q3: "commit q2 (int (length b)) = (q3, None)"
    "holds q3 (patch u gap ?v1) (?k + length b)"
    using commit_holds [OF q2(2), of "length b"] len assms(3,4) by auto
  have "take (?k + length b) (patch u gap ?v1) = take u v @ gap @ b"
    using assms(4) by (simp add: patch_def min_absorb2)
  with q1 q2 q3 show ?thesis by blast
qed

end

end
