(* ===== verification/Ring.thy ===== *)
theory Ring
  imports Byte_Fifo
begin

text \<open>
  \<open>internal/ring.go\<close>: the byte ring buffer under the TCP receive path, the transmit queue
  and the reassembly buffer. The record and the operations follow the source; the second
  half proves that they implement a bounded FIFO of bytes with a staging area behind the
  readable data.
\<close>

section \<open>State and operations\<close>

record ring =
  Buf :: bytes
  Off :: int
  End :: int

abbreviation lenBuf :: "ring \<Rightarrow> int" where
  "lenBuf r \<equiv> int (length (Buf r))"

definition ring_Size :: "ring \<Rightarrow> int" where
  "ring_Size r = lenBuf r"

definition ring_IsFull :: "ring \<Rightarrow> bool" where
  "ring_IsFull r \<longleftrightarrow> End r \<noteq> 0 \<and> (End r = Off r \<or> (End r = lenBuf r \<and> Off r = 0))"

definition ring_IsEmpty :: "ring \<Rightarrow> bool" where
  "ring_IsEmpty r \<longleftrightarrow> End r = 0"

definition ring_Free :: "ring \<Rightarrow> int" where
  "ring_Free r =
     (if End r = 0 \<or> Off r = 0 then lenBuf r - End r
      else if Off r < End r then Off r + (lenBuf r - End r)
      else Off r - End r)"

definition ring_Buffered :: "ring \<Rightarrow> int" where
  "ring_Buffered r = ring_Size r - ring_Free r"

definition ring_midFree :: "ring \<Rightarrow> int" where
  "ring_midFree r = (if End r \<ge> Off r \<or> End r = 0 then 0 else Off r - End r)"

definition ring_addOff :: "ring \<Rightarrow> int \<Rightarrow> int \<Rightarrow> int" where
  "ring_addOff r a b =
     (let result = a + b in if result > lenBuf r then result - lenBuf r else result)"

definition ring_Reset :: "ring \<Rightarrow> ring" where
  "ring_Reset r = r\<lparr>Off := 0, End := 0\<rparr>"

definition ring_emptied :: "ring \<Rightarrow> ring" where
  "ring_emptied r =
     (let off = End r; off = (if off = lenBuf r then 0 else off)
      in r\<lparr>Off := off, End := 0\<rparr>)"

text \<open>\<open>Write\<close> returns the ring, the byte count and the error; \<open>None\<close> is a panic.\<close>

definition ring_Write :: "ring \<Rightarrow> bytes \<Rightarrow> (ring \<times> int \<times> goerror option) option" where
  "ring_Write r b =
     (if length b = 0 then Some (r, 0, Some (RingErr errRingNoData))
      else if ring_IsFull r \<or> ring_Free r < int (length b)
      then Some (r, 0, Some (Generic ErrBufferFull))
      else if ring_midFree r > 0 then do {
        (buf, n) \<leftarrow> copy_into (Buf r) (End r) (Off r) b;
        let r' = r\<lparr>Buf := buf, End := End r + n\<rparr>;
        if End r' \<le> 0 then None else Some (r', n, None)
      }
      else do {
        let r1 = (if End r = 0 then r\<lparr>End := Off r\<rparr> else r);
        (buf, n) \<leftarrow> copy_into (Buf r1) (End r1) (lenBuf r1) b;
        let r2 = r1\<lparr>Buf := buf, End := End r1 + n\<rparr>;
        (r3, m) \<leftarrow>
          (if n < int (length b) then do {
             rest \<leftarrow> go_slice b n (int (length b));
             (buf', n2) \<leftarrow> copy_into (Buf r2) 0 (lenBuf r2) rest;
             Some (r2\<lparr>Buf := buf', End := n2\<rparr>, n + n2)
           }
           else Some (r2, n));
        if End r3 \<le> 0 then None else Some (r3, m, None)
      })"

definition ring_FreeLimited :: "ring \<Rightarrow> int \<Rightarrow> int" where
  "ring_FreeLimited r limitOffset =
     (if ring_IsFull r then 0
      else let writeAt = End r in
        if writeAt = 0 then
          (let writeAt = Off r in
           if limitOffset \<ge> writeAt then limitOffset - writeAt
           else ring_Size r - writeAt + limitOffset)
        else if writeAt \<le> limitOffset \<and> writeAt \<le> Off r then min (Off r) limitOffset - writeAt
        else if writeAt \<le> limitOffset then limitOffset - writeAt
        else if writeAt \<le> Off r then Off r - writeAt
        else ring_Size r - writeAt + min limitOffset (Off r))"

definition ring_WriteLimited ::
    "ring \<Rightarrow> bytes \<Rightarrow> int \<Rightarrow> (ring \<times> int \<times> goerror option) option" where
  "ring_WriteLimited r b limitOffset =
     (if limitOffset > lenBuf r then None
      else if int (length b) > lenBuf r then Some (r, 0, Some IoShortBuffer)
      else if int (length b) > ring_FreeLimited r limitOffset
      then Some (r, 0, Some (Generic ErrBufferFull))
      else ring_Write r b)"

definition ring_writeStart :: "ring \<Rightarrow> int" where
  "ring_writeStart r =
     (if End r = 0 then Off r else if End r = lenBuf r then 0 else End r)"

definition ring_PeekWrite :: "ring \<Rightarrow> bytes \<Rightarrow> int \<Rightarrow> (ring \<times> bool) option" where
  "ring_PeekWrite r b offset =
     (if offset < 0 \<or> offset + int (length b) > ring_Free r then Some (r, False)
      else do {
        let off = ring_writeStart r + offset;
        let off = (if off \<ge> lenBuf r then off - lenBuf r else off);
        (buf, n) \<leftarrow> copy_into (Buf r) off (lenBuf r) b;
        (if n < int (length b) then do {
           rest \<leftarrow> go_slice b n (int (length b));
           (buf', n2) \<leftarrow> copy_into buf 0 (int (length buf)) rest;
           Some (r\<lparr>Buf := buf'\<rparr>, True)
         }
         else Some (r\<lparr>Buf := buf\<rparr>, True))
      })"

definition ring_Commit :: "ring \<Rightarrow> int \<Rightarrow> ring \<times> goerror option" where
  "ring_Commit r n =
     (if n \<le> 0 then (r, Some (RingErr errInvalidCommit))
      else if n > ring_Free r then (r, Some (Generic ErrBufferFull))
      else let e0 = (if End r = 0 then Off r else End r);
               e = e0 + n;
               e = (if e > lenBuf r then e - lenBuf r else e)
           in (r\<lparr>End := e\<rparr>, None))"

definition ring_ReadDiscard :: "ring \<Rightarrow> int \<Rightarrow> ring \<times> goerror option" where
  "ring_ReadDiscard r n =
     (if n \<le> 0 then (r, Some (RingErr errInvalidDiscard))
      else let buffered = ring_Buffered r in
        if n > buffered then (r, Some (RingErr errDiscardExceeds))
        else if n = buffered then (ring_emptied r, None)
        else if n + Off r > lenBuf r then (r\<lparr>Off := n - (lenBuf r - Off r)\<rparr>, None)
        else (r\<lparr>Off := Off r + n\<rparr>, None))"

text \<open>
  \<open>read\<close> fills a caller's slice of length \<open>k\<close>; the model returns the bytes copied there
  (their number is the \<open>n\<close> of the source).
\<close>

definition ring_read :: "ring \<Rightarrow> nat \<Rightarrow> (bytes \<times> goerror option) option" where
  "ring_read r k =
     (if k = 0 then Some ([], None)
      else if ring_IsEmpty r then Some ([], Some IoEOF)
      else if End r > Off r then do {
        s \<leftarrow> go_slice (Buf r) (Off r) (End r);
        Some (take k s, None)
      }
      else do {
        s \<leftarrow> go_slice (Buf r) (Off r) (lenBuf r);
        let b = take k s;
        if length b < k then do {
          s2 \<leftarrow> go_slice (Buf r) 0 (End r);
          Some (b @ take (k - length b) s2, None)
        }
        else Some (b, None)
      })"

definition ring_ReadPeek :: "ring \<Rightarrow> nat \<Rightarrow> (bytes \<times> goerror option) option" where
  "ring_ReadPeek r k = ring_read r k"

text \<open>
  \<open>ReadAt\<close>; the 32-bit platform check of the source is compiled out where \<open>int\<close> is 64 bits
  wide.
\<close>

definition ring_ReadAt :: "ring \<Rightarrow> nat \<Rightarrow> int \<Rightarrow> (bytes \<times> goerror option) option" where
  "ring_ReadAt r k off =
     (if off + int k > ring_Buffered r then Some ([], Some IoUnexpectedEOF)
      else ring_ReadPeek (r\<lparr>Off := ring_addOff r (Off r) off\<rparr>) k)"

definition ring_onReadEnd :: "ring \<Rightarrow> int \<Rightarrow> ring option" where
  "ring_onReadEnd r totalRead =
     (if totalRead \<le> 0 then None
      else let newOff = ring_addOff r (Off r) totalRead in
        Some (if newOff = End r then ring_emptied r
              else if newOff = lenBuf r then r\<lparr>Off := 0\<rparr>
              else r\<lparr>Off := newOff\<rparr>))"

definition ring_Read :: "ring \<Rightarrow> nat \<Rightarrow> (ring \<times> bytes \<times> goerror option) option" where
  "ring_Read r k = do {
     (b, err) \<leftarrow> ring_read r k;
     if err \<noteq> None \<or> k = 0 then Some (r, b, err)
     else do {
       r' \<leftarrow> ring_onReadEnd r (int (length b));
       Some (r', b, None)
     }
   }"


section \<open>Abstraction: a rotated buffer and a fill level\<close>

text \<open>
  Reading the buffer from \<open>Off\<close> on, around the end, gives its \<^emph>\<open>view\<close>. The first
  \<open>ring_used\<close> bytes of the view are the readable data, the rest is free space in the order
  in which writes will fill it.
\<close>

definition ring_inv :: "ring \<Rightarrow> bool" where
  "ring_inv r \<longleftrightarrow> 0 \<le> Off r \<and> Off r \<le> lenBuf r \<and> 0 \<le> End r \<and> End r \<le> lenBuf r"

definition ring_view :: "ring \<Rightarrow> bytes" where
  "ring_view r = rot (nat (Off r)) (Buf r)"

definition ring_used :: "ring \<Rightarrow> nat" where
  "ring_used r = nat (ring_Buffered r)"

definition ring_contents :: "ring \<Rightarrow> bytes" where
  "ring_contents r = take (ring_used r) (ring_view r)"

lemma length_ring_view [simp]: "length (ring_view r) = length (Buf r)"
  by (simp add: ring_view_def)

text \<open>Under the invariant the fields are natural numbers; the fill level by cases.\<close>

lemma ring_natE:
  assumes "ring_inv r"
  obtains xs o' e where "r = \<lparr>Buf = xs, Off = int o', End = int e\<rparr>"
    "o' \<le> length xs" "e \<le> length xs"
proof (cases r)
  case (fields xs i j)
  with assms show thesis
    by (auto simp: ring_inv_def intro!: that [of xs "nat i" "nat j"])
qed

lemma ring_used_nat:
  assumes "o' \<le> length xs" "e \<le> length xs"
  shows "ring_used \<lparr>Buf = xs, Off = int o', End = int e\<rparr> =
     (if e = 0 then 0 else if o' < e then e - o' else length xs - o' + e)"
  using assms
  by (auto simp: ring_used_def ring_Buffered_def ring_Size_def ring_Free_def)

lemma ring_Free_nat:
  assumes "o' \<le> length xs" "e \<le> length xs"
  shows "ring_Free \<lparr>Buf = xs, Off = int o', End = int e\<rparr> =
     int (if e = 0 then length xs else if o' < e then length xs - (e - o') else o' - e)"
  using assms by (auto simp: ring_Free_def)

lemma ring_used_Free:
  assumes "ring_inv r"
  shows "int (ring_used r) = lenBuf r - ring_Free r" "0 \<le> ring_Free r" "ring_Free r \<le> lenBuf r"
    "ring_used r \<le> length (Buf r)"
proof -
  obtain xs o' e where r: "r = \<lparr>Buf = xs, Off = int o', End = int e\<rparr>"
    "o' \<le> length xs" "e \<le> length xs"
    using assms by (rule ring_natE)
  then show "int (ring_used r) = lenBuf r - ring_Free r" "0 \<le> ring_Free r"
    "ring_Free r \<le> lenBuf r" "ring_used r \<le> length (Buf r)"
    by (auto simp: ring_used_nat ring_Free_nat)
qed

lemma ring_Buffered_used: "ring_inv r \<Longrightarrow> ring_Buffered r = int (ring_used r)"
  by (simp add: ring_used_Free ring_Buffered_def ring_Size_def)

lemma length_ring_contents [simp]: "ring_inv r \<Longrightarrow> length (ring_contents r) = ring_used r"
  by (simp add: ring_contents_def ring_used_Free)

lemma ring_contents_Nil [simp]: "ring_inv r \<Longrightarrow> ring_contents r = [] \<longleftrightarrow> ring_used r = 0"
  by (metis length_0_conv length_ring_contents)

lemma ring_IsEmpty_iff: "ring_inv r \<Longrightarrow> ring_IsEmpty r \<longleftrightarrow> ring_used r = 0"
  by (cases r rule: ring_natE) (auto simp: ring_used_nat ring_IsEmpty_def)

lemma ring_IsFull_iff: "ring_inv r \<Longrightarrow> Buf r \<noteq> [] \<Longrightarrow> ring_IsFull r \<longleftrightarrow> ring_Free r = 0"
  by (cases r rule: ring_natE) (auto simp: ring_Free_nat ring_IsFull_def)

section \<open>Every operation on the abstraction\<close>

text \<open>
  \<open>ring_is r v u\<close>: the ring \<open>r\<close> is well formed, its view is \<open>v\<close> and its first \<open>u\<close>
  bytes are readable.
\<close>

definition ring_is :: "ring \<Rightarrow> bytes \<Rightarrow> nat \<Rightarrow> bool" where
  "ring_is r v u \<longleftrightarrow> ring_inv r \<and> ring_view r = v \<and> ring_used r = u"

lemma ring_is_self: "ring_inv r \<Longrightarrow> ring_is r (ring_view r) (ring_used r)"
  by (simp add: ring_is_def)

lemma ring_is_contents: "ring_is r v u \<Longrightarrow> ring_contents r = take u v"
  by (simp add: ring_is_def ring_contents_def)

lemma ring_isD:
  assumes "ring_is r v u"
  shows "ring_inv r" "ring_view r = v" "ring_used r = u" "length (Buf r) = length v"
    "u \<le> length v" "ring_Free r = int (length v - u)" "ring_Buffered r = int u"
  using assms ring_used_Free [of r]
  by (auto simp: ring_is_def ring_Buffered_used)

lemma ring_isI:
  "\<lbrakk>o' \<le> length xs; e \<le> length xs; v = rot o' xs;
    u = (if e = 0 then 0 else if o' < e then e - o' else length xs - o' + e)\<rbrakk>
   \<Longrightarrow> ring_is \<lparr>Buf = xs, Off = int o', End = int e\<rparr> v u"
  by (simp add: ring_is_def ring_inv_def ring_view_def ring_used_nat)

lemma ring_isE:
  assumes "ring_is r v u"
  obtains xs o' e where "r = \<lparr>Buf = xs, Off = int o', End = int e\<rparr>"
    "o' \<le> length xs" "e \<le> length xs" "v = rot o' xs" "length v = length xs"
    "u = (if e = 0 then 0 else if o' < e then e - o' else length xs - o' + e)"
proof -
  obtain xs o' e where r: "r = \<lparr>Buf = xs, Off = int o', End = int e\<rparr>"
    "o' \<le> length xs" "e \<le> length xs"
    using ring_isD(1) [OF assms] by (rule ring_natE)
  show thesis
  proof (rule that [OF r])
    show v: "v = rot o' xs" using assms r by (simp add: ring_is_def ring_view_def)
    then show "length v = length xs" by simp
    show "u = (if e = 0 then 0 else if o' < e then e - o' else length xs - o' + e)"
      using assms r by (simp add: ring_is_def ring_used_nat)
  qed
qed

lemma ring_is_Buf:
  assumes "ring_is r v u" "length ys = length (Buf r)"
  shows "ring_is (r\<lparr>Buf := ys\<rparr>) (rot (nat (Off r)) ys) u"
proof -
  obtain xs o' e where "r = \<lparr>Buf = xs, Off = int o', End = int e\<rparr>"
    "o' \<le> length xs" "e \<le> length xs" "v = rot o' xs" "length v = length xs"
    "u = (if e = 0 then 0 else if o' < e then e - o' else length xs - o' + e)"
    using assms(1) by (rule ring_isE)
  then show ?thesis
    using assms(2) ring_isI [of o' ys e "rot o' ys" u] by auto
qed

text \<open>The index where the next byte goes, and the index after \<open>k\<close> more bytes.\<close>

definition wrap_end :: "nat \<Rightarrow> nat \<Rightarrow> nat" where
  "wrap_end n e = (if e > n then e - n else e)"

lemma ring_Write_nat:
  assumes r: "r = \<lparr>Buf = xs, Off = int o', End = int e\<rparr>"
    and bd: "o' \<le> length xs" "e \<le> length xs" and b: "b \<noteq> []"
    and u: "u = (if e = 0 then 0 else if o' < e then e - o' else length xs - o' + e)"
    and fits: "u + length b \<le> length xs"
  shows "\<exists>ys. ring_Write r b =
      Some (\<lparr>Buf = ys, Off = int o',
             End = int (wrap_end (length xs) ((if e = 0 then o' else e) + length b))\<rparr>,
            int (length b), None)
    \<and> length ys = length xs \<and> rot o' ys = patch u b (rot o' xs)"
proof -
  have free: "\<not> ring_Free r < int (length b)"
    using fits u bd by (auto simp: r ring_Free_nat)
  obtain m where lb: "length b = Suc m" using b by (cases b) auto
  have nfull: "\<not> ring_IsFull r"
    using fits u lb bd by (auto simp: r ring_IsFull_def split: if_splits)
  show ?thesis
  proof (cases "e \<noteq> 0 \<and> e < o'")
    case True
    have mid: "ring_midFree r > 0" using True by (simp add: r ring_midFree_def)
    have "rot o' (patch (o' + u - length xs) b xs) = patch u b (rot o' xs)"
      by (rule rot_patch_head) (use True u bd fits in auto)
    then have "rot o' (patch e b xs) = patch u b (rot o' xs)" using True u bd by simp
    moreover have "e + length b \<le> o'" using True u bd fits by simp
    ultimately show ?thesis
      using True b bd free nfull mid
      by (auto simp: ring_Write_def r copy_into_fits wrap_end_def)
  next
    case False
    let ?s = "if e = 0 then o' else e"
    have mid: "\<not> ring_midFree r > 0" using False by (auto simp: r ring_midFree_def)
    have s: "?s \<le> length xs" "o' \<le> ?s" "u = ?s - o'" using False bd u b nfull
      by (auto simp: r ring_IsFull_def)
    show ?thesis
    proof (cases "?s + length b \<le> length xs")
      case True
      have "rot o' (patch (o' + u) b xs) = patch u b (rot o' xs)"
        by (rule rot_patch_tail) (use True s in simp)
      then have "rot o' (patch ?s b xs) = patch u b (rot o' xs)" using s by simp
      then show ?thesis
        using True False b bd s free nfull mid lb
        by (auto simp: ring_Write_def r copy_into_fits wrap_end_def Let_def)
    next
      case wraps: False
      let ?b1 = "take (length xs - ?s) b" and ?b2 = "drop (length xs - ?s) b"
      have "rot o' (patch 0 ?b2 (patch (o' + u) ?b1 xs)) = patch u (?b1 @ ?b2) (rot o' xs)"
        by (rule rot_patch_wrap [where n = "length xs"]) (use wraps s fits bd in auto)
      then have "rot o' (patch 0 ?b2 (patch ?s ?b1 xs)) = patch u b (rot o' xs)" using s by simp
      moreover have "length ?b2 \<le> length xs" using fits s by simp
      ultimately show ?thesis
        using wraps False b bd s free nfull mid fits lb
          copy_into_truncates [of ?s "length xs" xs b]
          copy_into_fits [of 0 ?b2 "length xs" "patch ?s ?b1 xs"]
        by (auto simp: ring_Write_def r wrap_end_def Let_def go_slice_def of_nat_diff
              split: if_splits)
    qed
  qed
qed

lemma ring_Write_is:
  assumes "ring_is r v u" "b \<noteq> []" "u + length b \<le> length v"
  shows "\<exists>r'. ring_Write r b = Some (r', int (length b), None)
    \<and> ring_is r' (patch u b v) (u + length b)"
proof -
  obtain xs o' e where r: "r = \<lparr>Buf = xs, Off = int o', End = int e\<rparr>"
    "o' \<le> length xs" "e \<le> length xs" "v = rot o' xs" "length v = length xs"
    "u = (if e = 0 then 0 else if o' < e then e - o' else length xs - o' + e)"
    using assms(1) by (rule ring_isE)
  obtain m where lb: "length b = Suc m" using assms(2) by (cases b) auto
  obtain ys where ys: "ring_Write r b =
      Some (\<lparr>Buf = ys, Off = int o',
             End = int (wrap_end (length xs) ((if e = 0 then o' else e) + length b))\<rparr>,
            int (length b), None)" "length ys = length xs" "rot o' ys = patch u b (rot o' xs)"
    using ring_Write_nat [OF r(1-3) assms(2) r(6)] assms(3) r(5) by auto
  moreover have "ring_is \<lparr>Buf = ys, Off = int o',
      End = int (wrap_end (length xs) ((if e = 0 then o' else e) + length b))\<rparr>
      (patch u b v) (u + length b)"
    by (rule ring_isI) (use ys r assms(3) lb in \<open>auto simp: wrap_end_def split: if_splits\<close>)
  ultimately show ?thesis by blast
qed

lemma ring_Write_full:
  assumes "ring_is r v u" "b \<noteq> []" "length v < u + length b"
  shows "ring_Write r b = Some (r, 0, Some (Generic ErrBufferFull))"
  using assms ring_isD [OF assms(1)] by (simp add: ring_Write_def)

lemma ring_Write_empty: "ring_Write r [] = Some (r, 0, Some (RingErr errRingNoData))"
  by (simp add: ring_Write_def)

lemma ring_PeekWrite_is:
  assumes "ring_is r v u" "u + k + length b \<le> length v"
  shows "\<exists>r'. ring_PeekWrite r b (int k) = Some (r', True) \<and> ring_is r' (patch (u + k) b v) u"
proof -
  obtain xs o' e where r: "r = \<lparr>Buf = xs, Off = int o', End = int e\<rparr>"
    "o' \<le> length xs" "e \<le> length xs" "v = rot o' xs" "length v = length xs"
    "u = (if e = 0 then 0 else if o' < e then e - o' else length xs - o' + e)"
    using assms(1) by (rule ring_isE)
  let ?n = "length xs"
  define p where "p = (if o' + u + k \<ge> ?n then o' + u + k - ?n else o' + u + k)"
  have lr: "Buf r = xs" using r by simp
  have free: "int k + int (length b) \<le> ring_Free r"
    using ring_isD(6) [OF assms(1)] assms(2) by simp
  let ?off = "ring_writeStart r + int k"
  have off: "(if ?off \<ge> int ?n then ?off - int ?n else ?off) = int p" if "b \<noteq> []"
    using r assms(2) that by (cases b) (auto simp: ring_writeStart_def p_def split: if_splits)
  show ?thesis
  proof (cases "b = []")
    case True
    define q where "q = (if ?off \<ge> int ?n then ?off - int ?n else ?off)"
    have "0 \<le> q" "q \<le> int ?n"
      using r assms(2) by (auto simp: ring_writeStart_def q_def split: if_splits)
    then have "copy_into xs q (int ?n) [] = Some (xs, 0)"
      by (auto simp: copy_into_def Let_def)
    then have "ring_PeekWrite r [] (int k) = Some (r, True)"
      using free True r unfolding ring_PeekWrite_def q_def by (auto simp: Let_def)
    with True assms(1) show ?thesis by auto
  next
    case False
    note off = off [OF False]
    have p: "p < ?n" using r assms(2) False by (cases b) (auto simp: p_def)
    have pw: "ring_PeekWrite r b (int k) = do {
        (buf, n) \<leftarrow> copy_into xs (int p) (int ?n) b;
        (if n < int (length b) then do {
           rest \<leftarrow> go_slice b n (int (length b));
           (buf', n2) \<leftarrow> copy_into buf 0 (int (length buf)) rest;
           Some (r\<lparr>Buf := buf'\<rparr>, True)
         }
         else Some (r\<lparr>Buf := buf\<rparr>, True))
      }"
      using free unfolding ring_PeekWrite_def Let_def lr off by simp
    show ?thesis
    proof (cases "p + length b \<le> ?n")
      case True
      have "rot o' (patch p b xs) = patch (u + k) b v"
      proof (cases "o' + u + k \<ge> ?n")
        case True
        then show ?thesis
          using rot_patch_head [of o' ?n "u + k" b xs] r(2,4,5) assms(2)
          by (simp add: p_def add.assoc)
      next
        case False
        then show ?thesis
          using rot_patch_tail [of o' "u + k" b xs] r(4) \<open>p + length b \<le> ?n\<close>
          by (simp add: p_def add.assoc)
      qed
      moreover have "length (patch p b xs) = ?n" using True by simp
      ultimately have "ring_is (r\<lparr>Buf := patch p b xs\<rparr>) (patch (u + k) b v) u"
        using r(1) ring_is_Buf [OF assms(1), of "patch p b xs"] by simp
      then show ?thesis using True p by (simp add: pw copy_into_fits)
    next
      case wraps: False
      let ?b1 = "take (?n - p) b" and ?b2 = "drop (?n - p) b"
      have noge: "\<not> o' + u + k \<ge> ?n" using wraps r(2,5) assms(2) by (auto simp: p_def split: if_splits)
      have "rot o' (patch 0 ?b2 (patch (o' + (u + k)) ?b1 xs)) = patch (u + k) (?b1 @ ?b2) v"
        unfolding r(4)
        by (rule rot_patch_wrap [where n = ?n]) (use wraps noge r(2,5) assms(2) in \<open>auto simp: p_def\<close>)
      then have *: "rot o' (patch 0 ?b2 (patch p ?b1 xs)) = patch (u + k) b v"
        using noge by (simp add: p_def add.assoc)
      have len: "length ?b2 \<le> ?n" "p + length ?b1 \<le> ?n"
        using r(2,5) assms(2) wraps p by auto
      have c1: "copy_into xs (int p) (int ?n) b = Some (patch p ?b1 xs, int (?n - p))"
        by (rule copy_into_truncates) (use p wraps in auto)
      have "copy_into (patch p ?b1 xs) (int 0) (int ?n) ?b2 = Some (patch 0 ?b2 (patch p ?b1 xs), int (length ?b2))"
        by (rule copy_into_fits) (use len in auto)
      then have "ring_PeekWrite r b (int k) = Some (r\<lparr>Buf := patch 0 ?b2 (patch p ?b1 xs)\<rparr>, True)"
        using wraps len p by (simp add: pw c1 go_slice_def)
      moreover have "ring_is (r\<lparr>Buf := patch 0 ?b2 (patch p ?b1 xs)\<rparr>) (patch (u + k) b v) u"
        using r(1) * len ring_is_Buf [OF assms(1), of "patch 0 ?b2 (patch p ?b1 xs)"] by simp
      ultimately show ?thesis by blast
    qed
  qed
qed

lemma ring_PeekWrite_refuses:
  assumes "ring_is r v u" "length v < u + k + length b"
  shows "ring_PeekWrite r b (int k) = Some (r, False)"
  using assms ring_isD [OF assms(1)] by (simp add: ring_PeekWrite_def)

lemma ring_Commit_is:
  assumes "ring_is r v u" "0 < k" "u + k \<le> length v"
  shows "\<exists>r'. ring_Commit r (int k) = (r', None) \<and> ring_is r' v (u + k)"
proof -
  obtain xs o' e where r: "r = \<lparr>Buf = xs, Off = int o', End = int e\<rparr>"
    "o' \<le> length xs" "e \<le> length xs" "v = rot o' xs" "length v = length xs"
    "u = (if e = 0 then 0 else if o' < e then e - o' else length xs - o' + e)"
    using assms(1) by (rule ring_isE)
  let ?e = "wrap_end (length xs) ((if e = 0 then o' else e) + k)"
  have "ring_Commit r (int k) = (\<lparr>Buf = xs, Off = int o', End = int ?e\<rparr>, None)"
    using assms r ring_isD(6) [OF assms(1)]
    by (auto simp: ring_Commit_def wrap_end_def Let_def)
  moreover have "ring_is \<lparr>Buf = xs, Off = int o', End = int ?e\<rparr> v (u + k)"
    by (rule ring_isI) (use assms r in \<open>auto simp: wrap_end_def split: if_splits\<close>)
  ultimately show ?thesis by blast
qed

lemma ring_Commit_refuses:
  "ring_is r v u \<Longrightarrow> length v < u + k \<Longrightarrow> 0 < k \<Longrightarrow>
   ring_Commit r (int k) = (r, Some (Generic ErrBufferFull))"
  using ring_isD [of r v u] by (simp add: ring_Commit_def)

lemma ring_read_is:
  assumes "ring_is r v u"
  shows "ring_read r k =
    Some (if k = 0 then ([], None) else if u = 0 then ([], Some IoEOF)
          else (take (min k u) v, None))"
proof -
  obtain xs o' e where r: "r = \<lparr>Buf = xs, Off = int o', End = int e\<rparr>"
    "o' \<le> length xs" "e \<le> length xs" "v = rot o' xs" "length v = length xs"
    "u = (if e = 0 then 0 else if o' < e then e - o' else length xs - o' + e)"
    using assms by (rule ring_isE)
  consider "e = 0" | "0 < e" "o' < e" | "0 < e" "e \<le> o'" by linarith
  then show ?thesis
  proof cases
    case 1
    then show ?thesis using r by (simp add: ring_read_def ring_IsEmpty_def)
  next
    case 2
    then show ?thesis
      using r by (auto simp: ring_read_def ring_IsEmpty_def rot_def min_def)
  next
    case 3
    have "go_slice xs 0 (int e) = Some (take e xs)" using r(3) by (simp add: go_slice_def)
    then show ?thesis
      using r 3 by (auto simp: ring_read_def ring_IsEmpty_def rot_def min_def Let_def)
  qed
qed

lemma ring_emptied_is:
  assumes "ring_is r v u" "0 < u"
  shows "ring_is (ring_emptied r) (rot u v) 0"
proof -
  obtain xs o' e where r: "r = \<lparr>Buf = xs, Off = int o', End = int e\<rparr>"
    "o' \<le> length xs" "e \<le> length xs" "v = rot o' xs" "length v = length xs"
    "u = (if e = 0 then 0 else if o' < e then e - o' else length xs - o' + e)"
    using assms(1) by (rule ring_isE)
  have "rot u v = rot e xs"
  proof (cases "o' < e")
    case True
    then show ?thesis using r assms(2) rot_rot_lt [of o' u xs] by auto
  next
    case False
    then show ?thesis using r assms(2) rot_rot_ge [of o' "length xs" u xs] by auto
  qed
  then show ?thesis
    using r ring_isI [of e xs 0 "rot e xs" 0] ring_isI [of 0 xs 0 "rot e xs" 0]
    by (auto simp: ring_emptied_def)
qed

text \<open>Advancing the read offset by less than the fill level, to a possibly wrapped index.\<close>

lemma ring_advance_is:
  assumes "ring_is r v u" "k < u"
    and "off' = wrap_end (length v) (nat (Off r) + k) \<or>
         off' = 0 \<and> length v = nat (Off r) + k"
  shows "ring_is (r\<lparr>Off := int off'\<rparr>) (rot k v) (u - k)"
proof -
  obtain xs o' e where r: "r = \<lparr>Buf = xs, Off = int o', End = int e\<rparr>"
    "o' \<le> length xs" "e \<le> length xs" "v = rot o' xs" "length v = length xs"
    "u = (if e = 0 then 0 else if o' < e then e - o' else length xs - o' + e)"
    using assms(1) by (rule ring_isE)
  have "rot k v = rot off' xs"
  proof (cases "o' + k \<le> length xs")
    case True
    then show ?thesis
      using r assms(3) rot_rot_lt [of o' k xs]
      by (auto simp: wrap_end_def rot_full)
  next
    case False
    then show ?thesis
      using r(1-5) assms rot_rot_ge [of o' "length xs" k xs] ring_isD(5) [OF assms(1)]
      by (auto simp: wrap_end_def)
  qed
  moreover have "ring_is \<lparr>Buf = xs, Off = int off', End = int e\<rparr> (rot off' xs) (u - k)"
    by (rule ring_isI) (use r assms in \<open>auto simp: wrap_end_def split: if_splits\<close>)
  ultimately show ?thesis using r(1) by simp
qed

lemma ring_onReadEnd_is:
  assumes "ring_is r v u" "0 < k" "k \<le> u"
  shows "\<exists>r'. ring_onReadEnd r (int k) = Some r' \<and> ring_is r' (rot k v) (u - k)"
proof -
  obtain xs o' e where r: "r = \<lparr>Buf = xs, Off = int o', End = int e\<rparr>"
    "o' \<le> length xs" "e \<le> length xs" "v = rot o' xs" "length v = length xs"
    "u = (if e = 0 then 0 else if o' < e then e - o' else length xs - o' + e)"
    using assms(1) by (rule ring_isE)
  have no: "ring_addOff r (Off r) (int k) = int (wrap_end (length xs) (o' + k))"
    using r by (auto simp: ring_addOff_def wrap_end_def Let_def)
  have eq: "wrap_end (length xs) (o' + k) = e \<longleftrightarrow> k = u"
    using r(2,3,6) assms(2,3) by (auto simp: wrap_end_def split: if_splits)
  show ?thesis
  proof (cases "k = u")
    case True
    then show ?thesis
      using ring_emptied_is [OF assms(1)] assms(2) no eq r(1) by (simp add: ring_onReadEnd_def)
  next
    case False
    then have "k < u" using assms(3) by simp
    then show ?thesis
      using False no eq r(1,2,5) assms(2) ring_isD(5) [OF assms(1)]
        ring_advance_is [OF assms(1), of k 0]
        ring_advance_is [OF assms(1), of k "wrap_end (length xs) (o' + k)"]
      by (auto simp: ring_onReadEnd_def wrap_end_def split: if_splits)
  qed
qed

lemma ring_Read_is:
  assumes "ring_is r v u" "0 < k" "0 < u"
  shows "\<exists>r'. ring_Read r k = Some (r', take (min k u) v, None)
    \<and> ring_is r' (rot (min k u) v) (u - min k u)"
proof -
  have len: "length (take (min k u) v) = min k u"
    using ring_isD(5) [OF assms(1)] by simp
  obtain r' where "ring_onReadEnd r (int (min k u)) = Some r'"
      "ring_is r' (rot (min k u) v) (u - min k u)"
    using ring_onReadEnd_is [OF assms(1), of "min k u"] assms by auto
  then show ?thesis
    using assms len by (simp add: ring_Read_def ring_read_is [OF assms(1)])
qed

lemma ring_Read_nothing:
  assumes "ring_is r v u" "k = 0 \<or> u = 0"
  shows "ring_Read r k = Some (r, [], if k = 0 then None else Some IoEOF)"
  using assms(2) by (auto simp: ring_Read_def ring_read_is [OF assms(1)])

lemma ring_ReadDiscard_is:
  assumes "ring_is r v u" "0 < k" "k \<le> u"
  shows "\<exists>r'. ring_ReadDiscard r (int k) = (r', None) \<and> ring_is r' (rot k v) (u - k)"
proof (cases "k = u")
  case True
  then show ?thesis
    using ring_emptied_is [OF assms(1)] assms ring_isD(7) [OF assms(1)]
    by (simp add: ring_ReadDiscard_def)
next
  case False
  obtain xs o' e where r: "r = \<lparr>Buf = xs, Off = int o', End = int e\<rparr>"
    "o' \<le> length xs" "e \<le> length xs" "v = rot o' xs" "length v = length xs"
    "u = (if e = 0 then 0 else if o' < e then e - o' else length xs - o' + e)"
    using assms(1) by (rule ring_isE)
  then show ?thesis
    using False assms ring_isD(7) [OF assms(1)]
      ring_advance_is [OF assms(1), of k "wrap_end (length xs) (o' + k)"]
    by (auto simp: ring_ReadDiscard_def wrap_end_def Let_def algebra_simps split: if_splits)
qed

lemma ring_ReadAt_is:
  assumes "ring_is r v u" "j + k \<le> u"
  shows "ring_ReadAt r k (int j) = Some (take k (drop j v), None)"
proof (cases "k = 0")
  case True
  then show ?thesis
    using assms ring_isD(7) [OF assms(1)]
    by (simp add: ring_ReadAt_def ring_ReadPeek_def ring_read_def)
next
  case False
  let ?r = "r\<lparr>Off := ring_addOff r (Off r) (int j)\<rparr>"
  have "0 \<le> Off r" "length (Buf r) = length v"
    using ring_isD [OF assms(1)] by (auto simp: ring_inv_def)
  then have "ring_addOff r (Off r) (int j) = int (wrap_end (length v) (nat (Off r) + j))"
    by (auto simp: ring_addOff_def wrap_end_def Let_def)
  then have is': "ring_is ?r (rot j v) (u - j)"
    using ring_advance_is [OF assms(1), of j "wrap_end (length v) (nat (Off r) + j)"] assms(2) False
    by simp
  have "take k (rot j v) = take k (drop j v)"
    using assms(2) ring_isD(5) [OF assms(1)] by (simp add: rot_def)
  then show ?thesis
    using False assms ring_isD(7) [OF assms(1)] ring_read_is [OF is', of k]
    by (simp add: ring_ReadAt_def ring_ReadPeek_def)
qed

lemma ring_Reset_is: "ring_is r v u \<Longrightarrow> ring_is (ring_Reset r) (Buf r) 0"
  using ring_isI [of 0 "Buf r" 0 "Buf r" 0] by (cases r) (simp add: ring_Reset_def)

section \<open>The ring provides the buffer interfaces\<close>

lemma take_rot: "k \<le> u \<Longrightarrow> u \<le> length v \<Longrightarrow> take (u - k) (rot k v) = drop k (take u v)"
  by (simp add: rot_def drop_take)

lemma ring_is_fifo: "ring_is r v u \<Longrightarrow> ring_inv r \<and> ring_contents r = take u v \<and> length (Buf r) = length v"
  using ring_isD [of r v u] ring_is_contents [of r v u] by simp

interpretation ring_fifo: byte_fifo ring_inv ring_contents "\<lambda>r. length (Buf r)" ring_Write ring_Read
proof unfold_locales
  fix r :: ring and b
  assume inv: "ring_inv r"
  note is' = ring_is_self [OF inv]
  show "\<exists>r'. ring_Write r b = Some (r', snd (list_put (length (Buf r)) (ring_contents r) b))
    \<and> ring_inv r' \<and> ring_contents r' = fst (list_put (length (Buf r)) (ring_contents r) b)
    \<and> length (Buf r') = length (Buf r)"
  proof (cases "b \<noteq> [] \<and> ring_used r + length b \<le> length (Buf r)")
    case True
    then obtain r' where "ring_Write r b = Some (r', int (length b), None)"
      "ring_is r' (patch (ring_used r) b (ring_view r)) (ring_used r + length b)"
      using ring_Write_is [OF is', of b] by auto
    then show ?thesis
      using True inv ring_is_fifo [of r'] take_patch_after [of "ring_used r" "ring_view r" b]
      by (auto simp: ring_contents_def)
  next
    case False
    then show ?thesis
      using inv ring_Write_full [OF is', of b] by (auto simp: ring_Write_empty)
  qed
next
  fix r :: ring and k
  assume inv: "ring_inv r"
  note is' = ring_is_self [OF inv]
  have used: "ring_used r \<le> length (ring_view r)" using ring_isD(5) [OF is'] .
  show "\<exists>r'. ring_Read r k = Some (r', snd (list_get (ring_contents r) k)) \<and> ring_inv r'
    \<and> ring_contents r' = fst (list_get (ring_contents r) k) \<and> length (Buf r') = length (Buf r)"
  proof (cases "0 < k \<and> 0 < ring_used r")
    case True
    let ?m = "min k (ring_used r)"
    obtain r' where r': "ring_Read r k = Some (r', take ?m (ring_view r), None)"
      "ring_is r' (rot ?m (ring_view r)) (ring_used r - ?m)"
      using ring_Read_is [OF is', of k] True by auto
    moreover have "ring_contents r \<noteq> []" using True inv by simp
    moreover have "take (ring_used r - ?m) (rot ?m (ring_view r)) = drop k (ring_contents r)"
      using used take_rot [of ?m "ring_used r" "ring_view r"] by (auto simp: ring_contents_def min_def)
    ultimately show ?thesis
      using True ring_is_fifo [OF r'(2)] by (simp add: ring_contents_def)
  next
    case False
    then show ?thesis
      using inv ring_Read_nothing [OF is', of k] by auto
  qed
next
  fix r :: ring
  assume "ring_inv r"
  then show "length (ring_contents r) \<le> length (Buf r)" by (simp add: ring_used_Free)
qed

interpretation ring_staged: staged_fifo ring_is ring_Write ring_PeekWrite ring_Commit
  using ring_isD(5) ring_Write_is ring_PeekWrite_is ring_Commit_is by unfold_locales

text \<open>
  C1. A well-formed ring is observationally a bounded list of bytes: whatever sequence of
  writes and reads a caller performs, no operation panics and every count, every byte read
  and every error is the one the list specification gives.
\<close>

theorem ring_refines_list_queue:
  "ring_inv r \<Longrightarrow>
   fifo_run ring_Write ring_Read r ops =
     Some (spec_run (length (Buf r)) (ring_contents r) ops)"
  by (rule ring_fifo.run_refines_list)

theorem ring_refines_list_queue_witness:
  "fifo_run ring_Write ring_Read \<lparr>Buf = [0, 0, 0], Off = 2, End = 0\<rparr>
     [FPut [7, 8], FPut [9, 9], FGet 1, FPut [5], FGet 9] =
   Some [(2, [], None), (0, [], Some (Generic ErrBufferFull)), (1, [7], None), (1, [], None),
         (2, [8, 5], None)]"
  using ring_refines_list_queue
    [of "\<lparr>Buf = [0, 0, 0], Off = 2, End = 0\<rparr>" "[FPut [7, 8], FPut [9, 9], FGet 1, FPut [5], FGet 9]"]
  by (simp add: ring_inv_def ring_contents_def ring_used_def ring_Buffered_def ring_Size_def ring_Free_def)

text \<open>
  C2. Out-of-order staging is sound: bytes placed with \<open>PeekWrite\<close> behind a gap become
  readable, in order and unchanged, exactly when the gap has been written and the staged
  length committed.
\<close>

theorem ring_gap_fill:
  assumes "ring_inv r" "gap \<noteq> []" "b \<noteq> []"
    and "ring_used r + length gap + length b \<le> length (Buf r)"
  shows "\<exists>r1 r2 r3. ring_PeekWrite r b (int (length gap)) = Some (r1, True)
    \<and> ring_contents r1 = ring_contents r
    \<and> ring_Write r1 gap = Some (r2, int (length gap), None)
    \<and> ring_Commit r2 (int (length b)) = (r3, None)
    \<and> ring_inv r3 \<and> ring_contents r3 = ring_contents r @ gap @ b"
proof -
  have fits: "ring_used r + length gap + length b \<le> length (ring_view r)" using assms(4) by simp
  obtain r1 r2 r3 v' where
    1: "ring_PeekWrite r b (int (length gap)) = Some (r1, True)" and
    2: "ring_Write r1 gap = Some (r2, int (length gap), None)"
       "ring_Commit r2 (int (length b)) = (r3, None)" and
    3: "ring_is r3 v' (ring_used r + length gap + length b)"
       "take (ring_used r + length gap + length b) v' = take (ring_used r) (ring_view r) @ gap @ b"
    using ring_staged.stage_put_commit [OF ring_is_self [OF assms(1)] assms(2,3) fits] by blast
  have "ring_is r1 (patch (ring_used r + length gap) b (ring_view r)) (ring_used r)"
    using ring_PeekWrite_is [OF ring_is_self [OF assms(1)] fits] 1 by auto
  then have "ring_contents r1 = ring_contents r"
    using fits by (simp only: ring_is_contents take_patch_before ring_contents_def [of r])
  with 1 2 3 show ?thesis
    using ring_is_fifo [OF 3(1)] by (auto simp: ring_contents_def)
qed

theorem ring_gap_fill_witness:
  "\<exists>r1 r2 r3. ring_PeekWrite \<lparr>Buf = [1, 2, 3, 4], Off = 3, End = 0\<rparr> [9, 8] (int (length [7::u8])) = Some (r1, True)
    \<and> ring_contents r1 = ring_contents \<lparr>Buf = [1, 2, 3, 4], Off = 3, End = 0\<rparr>
    \<and> ring_Write r1 [7] = Some (r2, int (length [7::u8]), None)
    \<and> ring_Commit r2 (int (length [9::u8, 8])) = (r3, None)
    \<and> ring_inv r3 \<and> ring_contents r3 = ring_contents \<lparr>Buf = [1, 2, 3, 4], Off = 3, End = 0\<rparr> @ [7] @ [9, 8]"
  by (rule ring_gap_fill)
    (simp_all add: ring_inv_def ring_used_def ring_Buffered_def ring_Size_def ring_Free_def)

end
