(* ===== verification/Tx_Queue.thy ===== *)
theory Tx_Queue
  imports Ring Tcp_Seq
begin

text \<open>
  \<open>tcp/txqueue.go\<close>: the transmit ring of a connection. One buffer holds, one behind the
  other, the bytes sent but not yet acknowledged (cut into the packets they were sent in) and
  the bytes written but not yet sent. The second half proves that the operations implement a
  byte stream cut into acknowledged, sent and unsent parts.
\<close>

section \<open>State\<close>

record ringidx =
  pkOff :: int
  pkEnd :: int
  pkSeq :: Value
  pkSize :: Size

definition zeroIdx :: ringidx where
  "zeroIdx = \<lparr>pkOff = 0, pkEnd = 0, pkSeq = 0, pkSize = 0\<rparr>"

text \<open>\<open>pktCap\<close> is the capacity of the slice \<open>pkts\<close>.\<close>

record sentlist =
  ssn :: Value
  pkts :: "ringidx list"
  pktCap :: int

record ringTx =
  rawbuf :: bytes
  unsentoff :: int
  unsentend :: int
  sentoff :: int
  sentend :: int
  slist :: sentlist
  txIss :: Value

definition minBufferSize :: int where "minBufferSize = 2"

section \<open>Packets and the list of sent packets\<close>

definition isRecvd :: "ringidx \<Rightarrow> bool" where
  "isRecvd pkt \<longleftrightarrow> pkSize pkt = 0"

definition pkt_endSeq :: "ringidx \<Rightarrow> Value" where
  "pkt_endSeq pkt = Add (pkSeq pkt) (pkSize pkt)"

definition addEnd :: "int \<Rightarrow> int \<Rightarrow> int \<Rightarrow> int" where
  "addEnd a b sz = (let result = a + b in if result > sz then result - sz else result)"

definition addOff :: "int \<Rightarrow> int \<Rightarrow> int \<Rightarrow> int" where
  "addOff a b sz = (let result = a + b in if result \<ge> sz then result - sz else result)"

text \<open>\<open>internal.SliceReuse\<close> on the packet slice: empty it, growing the capacity if needed.\<close>

definition sl_Reset :: "sentlist \<Rightarrow> int \<Rightarrow> Value \<Rightarrow> sentlist" where
  "sl_Reset sl pktQueueSize iss =
     \<lparr>ssn = iss, pkts = [],
      pktCap = (if pktCap sl < pktQueueSize then pktQueueSize else pktCap sl)\<rparr>"

definition sl_Newest :: "sentlist \<Rightarrow> ringidx option" where
  "sl_Newest sl = (if pkts sl = [] then None else Some (last (pkts sl)))"

definition sl_Oldest :: "sentlist \<Rightarrow> ringidx option" where
  "sl_Oldest sl = (case pkts sl of [] \<Rightarrow> None | p # _ \<Rightarrow> Some p)"

definition sl_EndSeq :: "sentlist \<Rightarrow> Value" where
  "sl_EndSeq sl = (case sl_Newest sl of None \<Rightarrow> ssn sl | Some p \<Rightarrow> pkt_endSeq p)"

definition sl_Free :: "sentlist \<Rightarrow> int" where
  "sl_Free sl = pktCap sl - int (length (pkts sl))"

fun packetIn :: "Value \<Rightarrow> ringidx list \<Rightarrow> ringidx option" where
  "packetIn seq [] = None"
| "packetIn seq (p # ps) =
     (if LessThanEq (pkSeq p) seq \<and> LessThan seq (pkt_endSeq p) then Some p else packetIn seq ps)"

definition packetContaining :: "sentlist \<Rightarrow> Value \<Rightarrow> ringidx option" where
  "packetContaining sl seq = packetIn seq (pkts sl)"

definition truncateFrom :: "sentlist \<Rightarrow> Value \<Rightarrow> sentlist" where
  "truncateFrom sl seq =
     (let kept = takeWhile (\<lambda>p. pkSeq p \<noteq> seq) (pkts sl) in
      if length kept = length (pkts sl) then sl
      else sl\<lparr>pkts := kept, ssn := (if kept = [] then seq else ssn sl)\<rparr>)"

text \<open>\<open>None\<close> is one of the two panics of \<open>AddPacket\<close>.\<close>

definition AddPacket ::
    "sentlist \<Rightarrow> int \<Rightarrow> int \<Rightarrow> int \<Rightarrow> Value \<Rightarrow> (sentlist \<times> ringidx) option" where
  "AddPacket sl datalen off bufsize seq =
     (if sl_Free sl = 0 then None
      else if (case sl_Newest sl of None \<Rightarrow> False
               | Some lastPkt \<Rightarrow> (off \<noteq> 0 \<and> off \<noteq> pkEnd lastPkt) \<or>
                                (off = 0 \<and> pkEnd lastPkt \<noteq> bufsize))
      then None
      else let p = \<lparr>pkOff = off, pkEnd = addEnd off datalen bufsize, pkSeq = seq,
                     pkSize = word_of_int datalen\<rparr>
           in Some (sl\<lparr>pkts := pkts sl @ [p]\<rparr>, p))"

text \<open>The marking loop of \<open>RecvAck\<close>: it stops at the first packet not fully acknowledged.\<close>

fun markAcked :: "Value \<Rightarrow> Value \<Rightarrow> ringidx list \<Rightarrow> Value \<times> ringidx list" where
  "markAcked s ack [] = (s, [])"
| "markAcked s ack (p # ps) =
     (if LessThanEq (pkt_endSeq p) ack
      then let (s', ps') = markAcked (pkt_endSeq p) ack ps in (s', zeroIdx # ps')
      else (s, p # ps))"

text \<open>\<open>removeRecvd\<close>; on an empty list the source dereferences a nil pointer.\<close>

definition removeRecvd :: "sentlist \<Rightarrow> sentlist option" where
  "removeRecvd sl =
     (case pkts sl of [] \<Rightarrow> None
      | p # _ \<Rightarrow> Some (if \<not> isRecvd p then sl
                        else sl\<lparr>pkts := filter (\<lambda>p. \<not> isRecvd p) (pkts sl)\<rparr>))"

definition sl_RecvAck :: "sentlist \<Rightarrow> Value \<Rightarrow> int \<Rightarrow> (sentlist \<times> goerror option) option" where
  "sl_RecvAck sl ack bufsize =
     (case sl_Newest sl of
        None \<Rightarrow> Some (sl, Some (Generic ErrPacketDrop))
      | Some newest \<Rightarrow>
        (if LessThan (pkt_endSeq newest) ack then Some (sl, Some (Generic ErrPacketDrop))
         else do {
           let (s, ps) = markAcked (ssn sl) ack (pkts sl);
           sl \<leftarrow> removeRecvd (sl\<lparr>ssn := s, pkts := ps\<rparr>);
           case pkts sl of
             [] \<Rightarrow> Some (sl, None)
           | p # rest \<Rightarrow>
             (let totalAcked = sint (ack - pkSeq p) in
              if \<not> totalAcked > 0 then Some (sl, None)
              else Some (sl\<lparr>pkts := p\<lparr>pkOff := addOff (pkOff p) totalAcked bufsize,
                                      pkSize := pkSize p - word_of_int totalAcked,
                                      pkSeq := pkSeq p + word_of_int totalAcked\<rparr> # rest\<rparr>, None))
         }))"

section \<open>The transmit ring\<close>

definition tx_Size :: "ringTx \<Rightarrow> int" where
  "tx_Size rtx = int (length (rawbuf rtx))"

definition tx_Reset :: "ringTx \<Rightarrow> bytes \<Rightarrow> int \<Rightarrow> Value \<Rightarrow> ringTx \<times> goerror option" where
  "tx_Reset rtx buf maxqueuedPackets iss =
     (if maxqueuedPackets \<le> 0 then (rtx, Some (Generic ErrInvalidConfig))
      else if int (length buf) < minBufferSize \<or> int (length buf) < maxqueuedPackets
      then (rtx, Some (Generic ErrShortBuffer))
      else (\<lparr>rawbuf = buf, unsentoff = 0, unsentend = 0, sentoff = 0, sentend = 0,
             slist = sl_Reset (slist rtx) maxqueuedPackets iss, txIss = iss\<rparr>, None))"

text \<open>A nil \<open>buf\<close> argument is \<open>None\<close>.\<close>

definition tx_ResetOrReuse :: "ringTx \<Rightarrow> bytes option \<Rightarrow> int \<Rightarrow> Value \<Rightarrow> ringTx \<times> goerror option" where
  "tx_ResetOrReuse rtx buf maxQueuedPackets ack =
     tx_Reset rtx (case buf of None \<Rightarrow> rawbuf rtx | Some b \<Rightarrow> b)
       (if maxQueuedPackets = 0 then pktCap (slist rtx) else maxQueuedPackets) ack"

definition tx_ring :: "ringTx \<Rightarrow> int \<Rightarrow> int \<Rightarrow> ring" where
  "tx_ring rtx off e = \<lparr>Buf = rawbuf rtx, Off = off, End = e\<rparr>"

definition unsentRing :: "ringTx \<Rightarrow> ring \<times> int" where
  "unsentRing rtx = (tx_ring rtx (unsentoff rtx) (unsentend rtx), sentoff rtx)"

definition sentRing :: "ringTx \<Rightarrow> ring \<times> int" where
  "sentRing rtx = (tx_ring rtx (sentoff rtx) (sentend rtx), unsentoff rtx)"

definition sentAndUnsentBuffer :: "ringTx \<Rightarrow> ring" where
  "sentAndUnsentBuffer rtx =
     (if unsentend rtx = 0 then tx_ring rtx (sentoff rtx) (sentend rtx)
      else if sentend rtx = 0 then tx_ring rtx (unsentoff rtx) (unsentend rtx)
      else tx_ring rtx (sentoff rtx) (unsentend rtx))"

definition tx_Free :: "ringTx \<Rightarrow> int" where
  "tx_Free rtx = ring_Free (sentAndUnsentBuffer rtx)"

definition BufferedUnsent :: "ringTx \<Rightarrow> int" where
  "BufferedUnsent rtx = ring_Buffered (fst (unsentRing rtx))"

definition BufferedSent :: "ringTx \<Rightarrow> int" where
  "BufferedSent rtx = ring_Buffered (fst (sentRing rtx))"

text \<open>
  The slices of the source share one backing array, so what a ring operation writes to its
  \<open>Buf\<close> is what \<open>rawbuf\<close> holds afterwards.
\<close>

definition tx_Write :: "ringTx \<Rightarrow> bytes \<Rightarrow> (ringTx \<times> int \<times> goerror option) option" where
  "tx_Write rtx b = do {
     let (unsent, lim) = unsentRing rtx;
     (unsent, n, err) \<leftarrow>
       (if sentend rtx = 0 then ring_Write unsent b else ring_WriteLimited unsent b lim);
     if err \<noteq> None then Some (rtx\<lparr>rawbuf := Buf unsent\<rparr>, 0, err)
     else Some (rtx\<lparr>rawbuf := Buf unsent, unsentend := End unsent\<rparr>, n, None)
   }"

definition sentEndSeq :: "ringTx \<Rightarrow> Value \<times> bool" where
  "sentEndSeq rtx =
     (case sl_Newest (slist rtx) of None \<Rightarrow> (0, False) | Some p \<Rightarrow> (pkt_endSeq p, True))"

text \<open>
  \<open>MakePacket\<close> fills a slice of length \<open>k\<close>; the model returns the bytes copied there. The
  packet that is looked up for a retransmission is the first one with that sequence number.
\<close>

definition tx_MakePacket ::
    "ringTx \<Rightarrow> nat \<Rightarrow> Value \<Rightarrow> (ringTx \<times> bytes \<times> goerror option) option" where
  "tx_MakePacket rtx k currentSeq =
     (if sl_Free (slist rtx) = 0 then Some (rtx, [], Some (Generic ErrBufferFull))
      else let (endSeq, ok) = sentEndSeq rtx in
        if ok \<and> LessThan currentSeq endSeq then
          (case find (\<lambda>p. pkSeq p = currentSeq) (pkts (slist rtx)) of
             Some p \<Rightarrow> do {
               (_, b, err) \<leftarrow> ring_Read (tx_ring rtx (pkOff p) (pkEnd p)) k;
               Some (rtx, b, err)
             }
           | None \<Rightarrow> Some (rtx, [], Some (Generic ErrBug)))
        else
          let unsent = fst (unsentRing rtx) in
          if ring_IsEmpty unsent then Some (rtx, [], None)
          else do {
            let oldUnsentOff = Off unsent;
            (unsent, b, err) \<leftarrow> ring_Read unsent k;
            if err \<noteq> None then Some (rtx, [], err)
            else do {
              let sz = tx_Size rtx;
              (sl, pkt) \<leftarrow> AddPacket (slist rtx) (int (length b)) oldUnsentOff sz currentSeq;
              if pkOff pkt \<noteq> oldUnsentOff \<or> pkEnd pkt \<noteq> addEnd (pkOff pkt) (int (length b)) sz
              then None
              else Some (rtx\<lparr>slist := sl,
                             sentoff := (if sentend rtx = 0 then pkOff pkt else sentoff rtx),
                             unsentoff := (if End unsent = 0 then pkEnd pkt else Off unsent),
                             sentend := pkEnd pkt,
                             unsentend := End unsent\<rparr>, b, None)
            }
          })"

definition consolidateBufs :: "ringTx \<Rightarrow> ringTx" where
  "consolidateBufs rtx =
     (if unsentend rtx = 0 \<and> sentend rtx = 0 then rtx\<lparr>sentoff := 0, unsentoff := 0\<rparr> else rtx)"

definition tx_RecvACK :: "ringTx \<Rightarrow> Value \<Rightarrow> (ringTx \<times> goerror option) option" where
  "tx_RecvACK rtx ack = do {
     (sl, err) \<leftarrow> sl_RecvAck (slist rtx) ack (tx_Size rtx);
     let rtx = rtx\<lparr>slist := sl\<rparr>;
     if err \<noteq> None then Some (rtx, err)
     else Some (consolidateBufs
       (case (sl_Oldest sl, sl_Newest sl) of
          (Some oldest, Some newest) \<Rightarrow> rtx\<lparr>sentoff := pkOff oldest, sentend := pkEnd newest\<rparr>
        | _ \<Rightarrow> rtx\<lparr>sentend := 0\<rparr>), None)
   }"

definition tx_RetransmitFrom :: "ringTx \<Rightarrow> Value \<Rightarrow> ringTx" where
  "tx_RetransmitFrom rtx seq =
     (case packetContaining (slist rtx) seq of
        None \<Rightarrow> rtx
      | Some pkt \<Rightarrow>
        (let writeEnd = (if unsentend rtx = 0 then sentend rtx else unsentend rtx);
             rtx' = (if pkOff pkt = sentoff rtx then rtx\<lparr>sentoff := 0, sentend := 0\<rparr>
                     else rtx\<lparr>sentend := pkOff pkt\<rparr>)
         in rtx'\<lparr>unsentoff := pkOff pkt, unsentend := writeEnd,
                 slist := truncateFrom (slist rtx') (pkSeq pkt)\<rparr>))"

definition tx_RetransmitFromUNA :: "ringTx \<Rightarrow> ringTx" where
  "tx_RetransmitFromUNA rtx =
     (case sl_Oldest (slist rtx) of None \<Rightarrow> rtx | Some p \<Rightarrow> tx_RetransmitFrom rtx (pkSeq p))"

end
