(* ===== verification/Reassembly.thy ===== *)
theory Reassembly
  imports Ring Tcp_Seq
begin

text \<open>
  \<open>tcp/reassembly.go\<close>: segments that arrive ahead of the next expected sequence number are
  staged in the free region of the receive ring and handed out once the gap is filled.
\<close>

section \<open>Model\<close>

definition maxReasmSegments :: int where "maxReasmSegments = 8"

record reasmSeg =
  segSeq :: Value
  segN :: int

text \<open>\<open>heldCap\<close> is the capacity of the slice \<open>held\<close>.\<close>

record reassembly =
  held :: "reasmSeg list"
  heldCap :: int

definition reasm_reset :: "reassembly \<Rightarrow> int \<Rightarrow> reassembly" where
  "reasm_reset r maxSegs =
     (if maxSegs \<le> 0 then \<lparr>held = [], heldCap = 0\<rparr>
      else \<lparr>held = [], heldCap = (if heldCap r < maxSegs then maxSegs else heldCap r)\<rparr>)"

definition reasm_clear :: "reassembly \<Rightarrow> reassembly" where
  "reasm_clear r = r\<lparr>held := []\<rparr>"

definition reasm_enabled :: "reassembly \<Rightarrow> bool" where
  "reasm_enabled r \<longleftrightarrow> heldCap r > 0"

definition reasm_buffered :: "reassembly \<Rightarrow> int" where
  "reasm_buffered r = int (length (held r))"

definition bufferedBytes :: "reassembly \<Rightarrow> int" where
  "bufferedBytes r = sum_list (map segN (held r))"

text \<open>
  \<open>store\<close>. The segments before and from the insertion point on are the longest prefix of
  \<open>held\<close> with smaller sequence numbers and the rest. The outer \<open>None\<close> is a panic of
  \<open>PeekWrite\<close>.
\<close>

definition reasm_store ::
    "reassembly \<Rightarrow> ring \<Rightarrow> Value \<Rightarrow> Value \<Rightarrow> bytes \<Rightarrow> (reassembly \<times> ring \<times> bool) option" where
  "reasm_store r rx rcvNxt seq payload =
     (if \<not> reasm_enabled r \<or> payload = [] \<or> int (length (held r)) \<ge> heldCap r
      then Some (r, rx, False)
      else let gap = uint (Sizeof rcvNxt seq) in
        if gap + int (length payload) > ring_Free rx then Some (r, rx, False)
        else
          let end' = Add seq (of_nat (length payload));
              before = takeWhile (\<lambda>h. LessThan (segSeq h) seq) (held r);
              after = dropWhile (\<lambda>h. LessThan (segSeq h) seq) (held r) in
          if before \<noteq> [] \<and>
             LessThan seq (Add (segSeq (last before)) (word_of_int (segN (last before))))
          then Some (r, rx, False)
          else if after \<noteq> [] \<and> segSeq (hd after) = seq then Some (r, rx, True)
          else if after \<noteq> [] \<and> LessThan (segSeq (hd after)) end' then Some (r, rx, False)
          else do {
            (rx, ok) \<leftarrow> ring_PeekWrite rx payload gap;
            if \<not> ok then Some (r, rx, False)
            else Some (r\<lparr>held := before @ [\<lparr>segSeq = seq, segN = int (length payload)\<rparr>] @ after\<rparr>,
                       rx, True)
          })"

text \<open>\<open>reassemble\<close>: the loop returns the segments that stay, the ring and the bytes delivered.\<close>

fun reasm_loop :: "reasmSeg list \<Rightarrow> ring \<Rightarrow> Value \<Rightarrow> Size \<Rightarrow> reasmSeg list \<times> ring \<times> Size" where
  "reasm_loop [] rx nxt delivered = ([], rx, delivered)"
| "reasm_loop (seg # segs) rx nxt delivered =
     (if segSeq seg = nxt then
        (case ring_Commit rx (segN seg) of
           (_, Some _) \<Rightarrow> (seg # segs, rx, delivered)
         | (rx, None) \<Rightarrow> reasm_loop segs rx (Add nxt (word_of_int (segN seg)))
                            (delivered + word_of_int (segN seg)))
      else if LessThan (segSeq seg) nxt then reasm_loop segs rx nxt delivered
      else (seg # segs, rx, delivered))"

definition reassemble :: "reassembly \<Rightarrow> ring \<Rightarrow> Value \<Rightarrow> reassembly \<times> ring \<times> Size" where
  "reassemble r rx nxt =
     (let (segs, rx, delivered) = reasm_loop (held r) rx nxt 0 in (r\<lparr>held := segs\<rparr>, rx, delivered))"

end
