(* ===== verification/Go_Binary.thy ===== *)
theory Go_Binary
  imports Lneto_Prelude
begin

text \<open>
  Fixed-width integers in byte buffers, as the frame types of the stack read and write
  them with \<open>binary.BigEndian\<close>. An access outside the buffer panics, which is \<open>None\<close>.
  The collection \<open>frame_access\<close> evaluates reads of a buffer after writes to it.
\<close>

named_theorems frame_access \<open>reads of a buffer after writes to it\<close>

section \<open>Big-endian integers\<close>

definition be_dec :: "bytes \<Rightarrow> 'a::len word" where
  "be_dec bs = foldl (\<lambda>w b. push_bit 8 w OR ucast b) 0 bs"

primrec be_enc :: "nat \<Rightarrow> 'a::len word \<Rightarrow> bytes" where
  "be_enc 0 w = []"
| "be_enc (Suc n) w = be_enc n (drop_bit 8 w) @ [ucast w]"

definition get_be :: "nat \<Rightarrow> bytes \<Rightarrow> nat \<Rightarrow> 'a::len word option" where
  "get_be n buf i = (if i + n \<le> length buf then Some (be_dec (take n (drop i buf))) else None)"

definition put_be :: "nat \<Rightarrow> bytes \<Rightarrow> nat \<Rightarrow> 'a::len word \<Rightarrow> bytes option" where
  "put_be n buf i w = (if i + n \<le> length buf then Some (patch i (be_enc n w) buf) else None)"

abbreviation get8 :: "bytes \<Rightarrow> nat \<Rightarrow> u8 option" where "get8 \<equiv> get_be 1"
abbreviation get16 :: "bytes \<Rightarrow> nat \<Rightarrow> u16 option" where "get16 \<equiv> get_be 2"
abbreviation get32 :: "bytes \<Rightarrow> nat \<Rightarrow> u32 option" where "get32 \<equiv> get_be 4"
abbreviation get64 :: "bytes \<Rightarrow> nat \<Rightarrow> u64 option" where "get64 \<equiv> get_be 8"
abbreviation put8 :: "bytes \<Rightarrow> nat \<Rightarrow> u8 \<Rightarrow> bytes option" where "put8 \<equiv> put_be 1"
abbreviation put16 :: "bytes \<Rightarrow> nat \<Rightarrow> u16 \<Rightarrow> bytes option" where "put16 \<equiv> put_be 2"
abbreviation put32 :: "bytes \<Rightarrow> nat \<Rightarrow> u32 \<Rightarrow> bytes option" where "put32 \<equiv> put_be 4"
abbreviation put64 :: "bytes \<Rightarrow> nat \<Rightarrow> u64 \<Rightarrow> bytes option" where "put64 \<equiv> put_be 8"

text \<open>A run of bytes: \<open>buf[i:i+n]\<close>, and \<open>copy\<close> to it of exactly as many bytes.\<close>

definition get_bytes :: "nat \<Rightarrow> bytes \<Rightarrow> nat \<Rightarrow> bytes option" where
  "get_bytes n buf i = (if i + n \<le> length buf then Some (take n (drop i buf)) else None)"

definition put_bytes :: "bytes \<Rightarrow> nat \<Rightarrow> bytes \<Rightarrow> bytes option" where
  "put_bytes buf i bs = (if i + length bs \<le> length buf then Some (patch i bs buf) else None)"

lemma length_be_enc [simp]: "length (be_enc n w) = n"
  by (induction n arbitrary: w) simp_all

lemma be_dec_simps [simp]:
  "be_dec [] = 0" "be_dec (bs @ [b]) = push_bit 8 (be_dec bs) OR ucast b"
  by (simp_all add: be_dec_def)

lemma bit_u8: "bit (b :: u8) k \<Longrightarrow> k < 8"
  using bit_imp_le_length [of b k] by simp

lemma bit_be_dec: "bit (be_dec bs :: 'a::len word) k \<Longrightarrow> k < 8 * length bs"
proof (induction bs arbitrary: k rule: rev_induct)
  case (snoc b bs)
  then consider "8 \<le> k" "bit (be_dec bs :: 'a word) (k - 8)" | "bit b k"
    by (auto simp: bit_simps)
  then show ?case using snoc.IH [of "k - 8"] bit_u8 [of b k] by cases auto
qed simp

lemma snoc_octet:
  fixes x :: "'a::len word" and b :: u8
  assumes "\<And>k. bit x k \<Longrightarrow> k + 8 < LENGTH('a)" "8 \<le> LENGTH('a)"
  shows "drop_bit 8 (push_bit 8 x OR ucast b) = x" "ucast (push_bit 8 x OR ucast b) = b"
proof -
  show "drop_bit 8 (push_bit 8 x OR ucast b) = x"
  proof (rule bit_word_eqI)
    fix n assume "n < LENGTH('a)"
    then show "bit (drop_bit 8 (push_bit 8 x OR ucast b)) n \<longleftrightarrow> bit x n"
      using assms(1) [of n] bit_u8 [of b "8 + n"] by (auto simp: bit_simps)
  qed
  show "ucast (push_bit 8 x OR ucast b) = b"
  proof (rule bit_word_eqI)
    fix n assume "n < LENGTH(8)"
    then show "bit (ucast (push_bit 8 x OR ucast b) :: u8) n \<longleftrightarrow> bit b n"
      using assms(2) by (auto simp: bit_simps)
  qed
qed

lemma be_enc_dec:
  assumes "8 * length bs \<le> LENGTH('a::len)"
  shows "be_enc (length bs) (be_dec bs :: 'a word) = bs"
  using assms
proof (induction bs rule: rev_induct)
  case (snoc b bs)
  have "k + 8 < LENGTH('a)" if "bit (be_dec bs :: 'a word) k" for k
    using bit_be_dec [OF that] snoc.prems by simp
  then show ?case using snoc_octet [of "be_dec bs :: 'a word" b] snoc by simp
qed simp

lemma be_dec_enc: "be_dec (be_enc n w) = (take_bit (8 * n) w :: 'a::len word)"
proof (induction n arbitrary: w)
  case (Suc n)
  show ?case
    by (rule bit_word_eqI) (auto simp: Suc bit_simps)
qed simp

lemma be_dec_enc_full:
  assumes "8 * n = LENGTH('a::len)"
  shows "be_dec (be_enc n w) = (w :: 'a word)"
  using assms by (simp add: be_dec_enc)

section \<open>Reads after writes\<close>

lemma put_be_Some [frame_access]:
  "i + n \<le> length buf \<Longrightarrow> put_be n buf i w = Some (patch i (be_enc n w) buf)"
  by (simp add: put_be_def)

lemma put_bytes_Some [frame_access]:
  "i + length bs \<le> length buf \<Longrightarrow> put_bytes buf i bs = Some (patch i bs buf)"
  by (simp add: put_bytes_def)

lemma drop_patch_inside:
  "i + length b \<le> length xs \<Longrightarrow> take (length b) (drop i (patch i b xs)) = b"
  by (simp add: patch_def)

lemma take_drop_patch_other:
  assumes "i + n \<le> j \<or> j + length b \<le> i" "j + length b \<le> length xs"
  shows "take n (drop i (patch j b xs)) = take n (drop i xs)"
proof (rule nth_equalityI)
  fix k assume "k < length (take n (drop i (patch j b xs)))"
  then have "k < n" "i + k < length xs" using assms(2) by auto
  then show "take n (drop i (patch j b xs)) ! k = take n (drop i xs) ! k"
    using assms by (auto simp: nth_patch)
qed (use assms in simp)

lemma get_be_patch_same:
  assumes "8 * n = LENGTH('a::len)" "i + n \<le> length buf"
  shows "get_be n (patch i (be_enc n w) buf) i = Some (w :: 'a word)"
  using assms drop_patch_inside [of i "be_enc n w" buf] be_dec_enc_full [OF assms(1), of w]
  by (simp add: get_be_def)

lemma get_be_patch_same_widths [frame_access]:
  "i + 1 \<le> length buf \<Longrightarrow> get8 (patch i (be_enc 1 a) buf) i = Some a"
  "i + 2 \<le> length buf \<Longrightarrow> get16 (patch i (be_enc 2 b) buf) i = Some b"
  "i + 4 \<le> length buf \<Longrightarrow> get32 (patch i (be_enc 4 c) buf) i = Some c"
  "i + 8 \<le> length buf \<Longrightarrow> get64 (patch i (be_enc 8 d) buf) i = Some d"
  using get_be_patch_same [of 1 i buf a] get_be_patch_same [of 2 i buf b]
    get_be_patch_same [of 4 i buf c] get_be_patch_same [of 8 i buf d] by simp_all

lemma get_be_patch_other [frame_access]:
  "\<lbrakk>i + n \<le> j \<or> j + length b \<le> i; j + length b \<le> length buf\<rbrakk> \<Longrightarrow>
   get_be n (patch j b buf) i = get_be n buf i"
  by (simp add: get_be_def take_drop_patch_other)

lemma get_bytes_patch_same [frame_access]:
  "i + length b \<le> length buf \<Longrightarrow> n = length b \<Longrightarrow> get_bytes n (patch i b buf) i = Some b"
  by (simp add: get_bytes_def drop_patch_inside)

lemma get_bytes_patch_other [frame_access]:
  "\<lbrakk>i + n \<le> j \<or> j + length b \<le> i; j + length b \<le> length buf\<rbrakk> \<Longrightarrow>
   get_bytes n (patch j b buf) i = get_bytes n buf i"
  by (simp add: get_bytes_def take_drop_patch_other)

lemma get_be_Some: "i + n \<le> length buf \<Longrightarrow> \<exists>w. get_be n buf i = Some w"
  by (simp add: get_be_def)

lemma get_be_None_iff [simp]: "get_be n buf i = None \<longleftrightarrow> length buf < i + n"
  by (simp add: get_be_def)

lemma put_be_length: "put_be n buf i w = Some buf' \<Longrightarrow> length buf' = length buf"
  by (auto simp: put_be_def split: if_splits)

text \<open>Writing back what is there changes nothing.\<close>

lemma put_get_be:
  assumes "8 * n = LENGTH('a::len)" "get_be n buf i = Some (w :: 'a word)"
  shows "put_be n buf i w = Some buf"
proof -
  have i: "i + n \<le> length buf" and w: "w = be_dec (take n (drop i buf))"
    using assms(2) by (auto simp: get_be_def split: if_splits)
  have "be_enc n w = take n (drop i buf)"
    using be_enc_dec [of "take n (drop i buf)", where 'a = 'a] i assms(1) by (simp add: w)
  moreover have "patch i (take n (drop i buf)) buf = buf"
    using i by (simp add: patch_def) (metis append_take_drop_id drop_drop add.commute)
  ultimately show ?thesis using i by (simp add: put_be_def)
qed

lemma get8_nth: "get8 xs i = (if i < length xs then Some (xs ! i) else None)"
proof -
  have "be_dec [b] = b" for b :: u8 by (simp add: be_dec_def)
  then show ?thesis by (simp add: get_be_def take_Suc_conv_app_nth hd_drop_conv_nth Suc_le_eq)
qed

end
