(* ===== verification/Validation.thy ===== *)
theory Validation
  imports Lneto_Prelude
begin

text \<open>
  \<open>validation.go\<close>: the \<open>Validator\<close> that collects what is wrong with a frame.
\<close>

definition validateReserved :: u64 where "validateReserved = 1"
definition ValidateEvilBit :: u64 where "ValidateEvilBit = 2"
definition validateAllowMultiErrors :: u64 where "validateAllowMultiErrors = 4"

definition vf_has :: "u64 \<Rightarrow> u64 \<Rightarrow> bool" where
  "vf_has vf v \<longleftrightarrow> vf AND v = v"

text \<open>
  The entries of \<open>accumBitpos\<close> are the \<open>BitPosErr\<close> values \<open>accum\<close> points to.
\<close>

record Validator =
  accum :: "goerror list"
  accumBitpos :: "goerror list"
  vldFlags :: u64

definition vld_ResetErr :: "Validator \<Rightarrow> Validator" where
  "vld_ResetErr v = v\<lparr>accum := [], accumBitpos := []\<rparr>"

definition vld_HasError :: "Validator \<Rightarrow> bool option" where
  "vld_HasError v = (if vf_has (vldFlags v) validateReserved then None else Some (accum v \<noteq> []))"

definition vld_ErrPop :: "Validator \<Rightarrow> Validator \<times> goerror option" where
  "vld_ErrPop v =
     (case accum v of
        [] \<Rightarrow> (v, None)
      | [e] \<Rightarrow> (vld_ResetErr v, Some e)
      | es \<Rightarrow> (vld_ResetErr v, Some (Joined es)))"

definition vld_gotErr :: "goerror \<Rightarrow> Validator \<Rightarrow> Validator" where
  "vld_gotErr err v = v\<lparr>accum := accum v @ [err]\<rparr>"

text \<open>A nil argument to \<open>AddError\<close> or \<open>AddBitPosErr\<close> panics; the model's is never nil.\<close>

definition vld_AddError :: "goerror \<Rightarrow> Validator \<Rightarrow> Validator" where
  "vld_AddError err v =
     (if accum v \<noteq> [] \<and> \<not> vf_has (vldFlags v) validateAllowMultiErrors then v
      else v\<lparr>accum := accum v @ [err]\<rparr>)"

definition vld_AddBitPosErr :: "int \<Rightarrow> int \<Rightarrow> goerror \<Rightarrow> Validator \<Rightarrow> Validator option" where
  "vld_AddBitPosErr bitStart bitLen err v =
     (if bitLen \<le> 0 then None
      else Some (v\<lparr>accumBitpos := accumBitpos v @ [BitPosErr bitStart bitLen err],
                   accum := accum v @ [BitPosErr bitStart bitLen err]\<rparr>))"

text \<open>
  An error added to a validator stays until it is popped, the first one is never lost, and
  a pop reports an error exactly if one was added since the last.
\<close>

definition vld_clean :: "Validator \<Rightarrow> bool" where
  "vld_clean v \<longleftrightarrow> accum v = []"

lemma AddError_not_clean [simp]: "\<not> vld_clean (vld_AddError e v)"
  by (simp add: vld_AddError_def vld_clean_def)

lemma ErrPop_None_iff: "snd (vld_ErrPop v) = None \<longleftrightarrow> vld_clean v"
  by (auto simp: vld_ErrPop_def vld_clean_def split: list.splits)

lemma ErrPop_clean: "vld_clean (fst (vld_ErrPop v))"
  by (auto simp: vld_ErrPop_def vld_clean_def vld_ResetErr_def split: list.splits)

lemma AddError_keeps_first: "accum v \<noteq> [] \<Longrightarrow> hd (accum (vld_AddError e v)) = hd (accum v)"
  by (simp add: vld_AddError_def)

lemma vld_flags_kept [simp]:
  "vldFlags (vld_AddError e v) = vldFlags v" "vldFlags (fst (vld_ErrPop v)) = vldFlags v"
  by (auto simp: vld_AddError_def vld_ErrPop_def vld_ResetErr_def split: list.splits)

end
