(* ===== verification/Tcp_Frame.thy ===== *)
theory Tcp_Frame
  imports Go_Binary Validation Tcp_Seq
begin

text \<open>
  \<open>tcp/frame.go\<close>: the TCP header as a view of a byte buffer. A frame is its buffer; a setter
  returns the changed buffer. \<open>None\<close> is a panic: an access outside the buffer or one of the
  explicit panics of \<open>Segment\<close> and \<open>SetSegment\<close>.
\<close>

section \<open>Model\<close>

definition sizeHeaderTCP :: int where "sizeHeaderTCP = 20"

definition tcp_NewFrame :: "bytes \<Rightarrow> bytes \<times> goerror option" where
  "tcp_NewFrame buf =
     (if int (length buf) < sizeHeaderTCP then ([], Some (Generic ErrTruncatedFrame)) else (buf, None))"

definition tcp_SourcePort :: "bytes \<Rightarrow> u16 option" where
  "tcp_SourcePort frm = get16 frm 0"

definition tcp_SetSourcePort :: "bytes \<Rightarrow> u16 \<Rightarrow> bytes option" where
  "tcp_SetSourcePort frm src = put16 frm 0 src"

definition tcp_DestinationPort :: "bytes \<Rightarrow> u16 option" where
  "tcp_DestinationPort frm = get16 frm 2"

definition tcp_SetDestinationPort :: "bytes \<Rightarrow> u16 \<Rightarrow> bytes option" where
  "tcp_SetDestinationPort frm dst = put16 frm 2 dst"

definition tcp_Seq :: "bytes \<Rightarrow> Value option" where
  "tcp_Seq frm = get32 frm 4"

definition tcp_SetSeq :: "bytes \<Rightarrow> Value \<Rightarrow> bytes option" where
  "tcp_SetSeq frm v = put32 frm 4 v"

definition tcp_Ack :: "bytes \<Rightarrow> Value option" where
  "tcp_Ack frm = get32 frm 8"

definition tcp_SetAck :: "bytes \<Rightarrow> Value \<Rightarrow> bytes option" where
  "tcp_SetAck frm v = put32 frm 8 v"

definition tcp_OffsetAndFlags :: "bytes \<Rightarrow> (u8 \<times> Flags) option" where
  "tcp_OffsetAndFlags frm = do {
     v \<leftarrow> get16 frm 12;
     Some (ucast (drop_bit 12 v), Mask v)
   }"

definition tcp_SetOffsetAndFlags :: "bytes \<Rightarrow> u8 \<Rightarrow> Flags \<Rightarrow> bytes option" where
  "tcp_SetOffsetAndFlags frm offset flags =
     put16 frm 12 (push_bit 12 (ucast offset) OR Mask flags)"

definition tcp_HeaderLength :: "bytes \<Rightarrow> int option" where
  "tcp_HeaderLength frm = do { (offset, _) \<leftarrow> tcp_OffsetAndFlags frm; Some (4 * uint offset) }"

definition tcp_WindowSize :: "bytes \<Rightarrow> u16 option" where
  "tcp_WindowSize frm = get16 frm 14"

definition tcp_SetWindowSize :: "bytes \<Rightarrow> u16 \<Rightarrow> bytes option" where
  "tcp_SetWindowSize frm v = put16 frm 14 v"

definition tcp_CRC :: "bytes \<Rightarrow> u16 option" where
  "tcp_CRC frm = get16 frm 16"

definition tcp_SetCRC :: "bytes \<Rightarrow> u16 \<Rightarrow> bytes option" where
  "tcp_SetCRC frm checksum = put16 frm 16 checksum"

definition tcp_UrgentPtr :: "bytes \<Rightarrow> u16 option" where
  "tcp_UrgentPtr frm = get16 frm 18"

definition tcp_SetUrgentPtr :: "bytes \<Rightarrow> u16 \<Rightarrow> bytes option" where
  "tcp_SetUrgentPtr frm up = put16 frm 18 up"

definition tcp_Payload :: "bytes \<Rightarrow> bytes option" where
  "tcp_Payload frm = do { hl \<leftarrow> tcp_HeaderLength frm; go_slice frm hl (int (length frm)) }"

definition tcp_Segment :: "bytes \<Rightarrow> int \<Rightarrow> Segment option" where
  "tcp_Segment frm payloadSize =
     (if payloadSize > 2147483647 then None
      else do {
        seq \<leftarrow> tcp_Seq frm;
        ack \<leftarrow> tcp_Ack frm;
        wnd \<leftarrow> tcp_WindowSize frm;
        fl \<leftarrow> get16 frm 12;
        Some \<lparr>SEQ = seq, ACK = ack, DATALEN = word_of_int payloadSize, WND = ucast wnd,
              SegFlags = Mask fl\<rparr>
      })"

definition tcp_SetSegment :: "bytes \<Rightarrow> Segment \<Rightarrow> u8 \<Rightarrow> bytes option" where
  "tcp_SetSegment frm seg offset =
     (if offset \<ge> 16 then None
      else if WND seg > 0xffff then None
      else do {
        frm \<leftarrow> tcp_SetSeq frm (SEQ seg);
        frm \<leftarrow> tcp_SetAck frm (ACK seg);
        frm \<leftarrow> tcp_SetOffsetAndFlags frm offset (SegFlags seg);
        tcp_SetWindowSize frm (ucast (WND seg))
      })"

definition tcp_Options :: "bytes \<Rightarrow> bytes option" where
  "tcp_Options frm = do { hl \<leftarrow> tcp_HeaderLength frm; go_slice frm sizeHeaderTCP hl }"

definition tcp_ClearHeader :: "bytes \<Rightarrow> bytes option" where
  "tcp_ClearHeader frm = put_bytes frm 0 (replicate 20 0)"

definition tcp_ValidateSize :: "bytes \<Rightarrow> Validator \<Rightarrow> Validator option" where
  "tcp_ValidateSize frm v = do {
     off \<leftarrow> tcp_HeaderLength frm;
     let v = (if off < sizeHeaderTCP then vld_AddError (Generic ErrInvalidLengthField) v else v);
     let v = (if off > int (length frm) then vld_AddError (Generic ErrTruncatedFrame) v else v);
     Some v
   }"

definition tcp_ValidateExceptCRC :: "bytes \<Rightarrow> Validator \<Rightarrow> Validator option" where
  "tcp_ValidateExceptCRC frm v = do {
     v \<leftarrow> tcp_ValidateSize frm v;
     dst \<leftarrow> tcp_DestinationPort frm;
     let v = (if dst = 0 then vld_AddError (Generic ErrZeroDestination) v else v);
     src \<leftarrow> tcp_SourcePort frm;
     let v = (if src = 0 then vld_AddError (Generic ErrZeroSource) v else v);
     Some v
   }"

lemmas tcp_field_defs = tcp_SourcePort_def tcp_SetSourcePort_def tcp_DestinationPort_def
  tcp_SetDestinationPort_def tcp_Seq_def tcp_SetSeq_def tcp_Ack_def tcp_SetAck_def
  tcp_OffsetAndFlags_def tcp_SetOffsetAndFlags_def tcp_WindowSize_def tcp_SetWindowSize_def
  tcp_CRC_def tcp_SetCRC_def tcp_UrgentPtr_def tcp_SetUrgentPtr_def

section \<open>Round trips\<close>

lemma offset_flags_parts:
  assumes "(offset :: u8) < 16"
  shows "ucast (drop_bit 12 (push_bit 12 (ucast offset) OR Mask f :: u16)) = offset"
    and "Mask (push_bit 12 (ucast offset) OR Mask f) = Mask f"
proof -
  have o4: "bit offset k \<Longrightarrow> k < 4" for k
    using bit_less_exp [of offset k 4] assms by (simp add: word_less_nat_alt)
  have m: "bit (flagMask) k \<longleftrightarrow> k < 9" for k
  proof -
    have "flagMask = mask 9" by (simp add: flagMask_def mask_eq_exp_minus_1)
    then have "bit flagMask k \<longleftrightarrow> bit (mask 9 :: u16) k" by (rule arg_cong)
    also have "\<dots> \<longleftrightarrow> k < 9" by (auto simp: bit_mask_iff)
    finally show ?thesis .
  qed
  show "ucast (drop_bit 12 (push_bit 12 (ucast offset) OR Mask f :: u16)) = offset"
    by (rule bit_word_eqI) (use o4 in \<open>auto simp: bit_simps Mask_def m\<close>)
  show "Mask (push_bit 12 (ucast offset) OR Mask f) = Mask f"
    by (rule bit_word_eqI) (auto simp: bit_simps Mask_def m)
qed

lemma SetSegment_reads:
  assumes "20 \<le> length buf" "offset < 16" "WND seg \<le> 0xffff" "int n \<le> 2147483647"
    and "SegFlags seg = Mask (SegFlags seg)"
  shows "\<exists>frm. tcp_SetSegment buf seg offset = Some frm \<and>
    tcp_Segment frm (int n) = Some (seg\<lparr>DATALEN := of_nat n\<rparr>) \<and>
    tcp_HeaderLength frm = Some (4 * uint offset) \<and> length frm = length buf \<and>
    tcp_SourcePort frm = tcp_SourcePort buf \<and> tcp_DestinationPort frm = tcp_DestinationPort buf \<and>
    drop 16 frm = drop 16 buf"
proof -
  let ?v = "push_bit 12 (ucast offset) OR Mask (SegFlags seg)"
  let ?f1 = "patch 4 (be_enc 4 (SEQ seg)) buf"
  let ?f2 = "patch 8 (be_enc 4 (ACK seg)) ?f1"
  let ?f3 = "patch 12 (be_enc 2 ?v) ?f2"
  let ?f4 = "patch 14 (be_enc 2 (ucast (WND seg) :: u16)) ?f3"
  have set: "tcp_SetSegment buf seg offset = Some ?f4"
    using assms(1-3)
    by (simp add: tcp_SetSegment_def tcp_field_defs frame_access linorder_not_le linorder_not_less)
  have reads: "get32 ?f4 4 = Some (SEQ seg)" "get32 ?f4 8 = Some (ACK seg)" "get16 ?f4 12 = Some ?v"
    "get16 ?f4 14 = Some (ucast (WND seg))" "get16 ?f4 0 = get16 buf 0" "get16 ?f4 2 = get16 buf 2"
    using assms(1) by (simp_all add: frame_access)
  have wnd: "ucast (ucast (WND seg) :: u16) = WND seg"
    using assms(3) by (intro ucast_ucast_small) (simp add: word_le_nat_alt)
  have rest: "drop 16 ?f4 = drop 16 buf" using assms(1) by (simp add: drop_patch_after)
  show ?thesis
  proof (intro exI conjI)
    show "tcp_SetSegment buf seg offset = Some ?f4" by (rule set)
    show "tcp_Segment ?f4 (int n) = Some (seg\<lparr>DATALEN := of_nat n\<rparr>)"
      using reads(1-4) wnd assms(4) offset_flags_parts(2) [OF assms(2), of "SegFlags seg"] assms(5) [symmetric]
      by (cases seg) (simp add: tcp_Segment_def tcp_field_defs)
    show "tcp_HeaderLength ?f4 = Some (4 * uint offset)"
      using reads(3) offset_flags_parts(1) [OF assms(2)]
      by (simp add: tcp_HeaderLength_def tcp_OffsetAndFlags_def)
  qed (use reads assms(1) rest in \<open>simp_all add: tcp_field_defs\<close>)
qed

text \<open>
  C20. What \<open>SetSegment\<close> writes into a header \<open>Segment\<close> reads back: sequence and
  acknowledgment number, window and the nine flags, with the data length the caller gives;
  the header length is the one that was set and the rest of the buffer, ports included, is
  untouched.
\<close>

theorem tcp_segment_roundtrip:
  assumes "20 \<le> length buf" "offset < 16" "WND seg \<le> 0xffff" "int n \<le> 2147483647"
    and "SegFlags seg = Mask (SegFlags seg)"
  shows "\<exists>frm. tcp_SetSegment buf seg offset = Some frm \<and>
    tcp_Segment frm (int n) = Some (seg\<lparr>DATALEN := of_nat n\<rparr>) \<and>
    tcp_HeaderLength frm = Some (4 * uint offset) \<and> length frm = length buf \<and>
    tcp_SourcePort frm = tcp_SourcePort buf \<and> tcp_DestinationPort frm = tcp_DestinationPort buf \<and>
    drop 16 frm = drop 16 buf"
  by (rule SetSegment_reads [OF assms])

definition demoHeader :: bytes where
  "demoHeader = [0x1f, 0x90, 0, 80] @ replicate 16 7"

definition demoSeg :: Segment where
  "demoSeg = \<lparr>SEQ = 0xdeadbeef, ACK = 0x01020304, DATALEN = 9, WND = 4096, SegFlags = pshack\<rparr>"

theorem tcp_segment_roundtrip_witness:
  "\<exists>frm. tcp_SetSegment demoHeader demoSeg 6 = Some frm \<and>
    tcp_Segment frm 9 = Some demoSeg \<and> tcp_HeaderLength frm = Some 24 \<and> tcp_SourcePort frm = Some 8080"
proof -
  have "20 \<le> length demoHeader" "tcp_SourcePort demoHeader = Some 8080" "WND demoSeg \<le> 0xffff"
    "SegFlags demoSeg = Mask (SegFlags demoSeg)" "demoSeg\<lparr>DATALEN := of_nat 9\<rparr> = demoSeg"
    by code_simp+
  then show ?thesis using tcp_segment_roundtrip [of demoHeader 6 demoSeg 9] by auto
qed

section \<open>Validated frames\<close>

lemma validated_header:
  assumes "tcp_ValidateSize frm v = Some v'" "vld_clean v'"
  shows "\<exists>hl. tcp_HeaderLength frm = Some (int hl) \<and> 20 \<le> hl \<and> hl \<le> length frm"
proof -
  obtain off where off: "tcp_HeaderLength frm = Some off"
    using assms(1) by (auto simp: tcp_ValidateSize_def split: bind_splits)
  then have "20 \<le> off" "off \<le> int (length frm)"
    using assms by (auto simp: tcp_ValidateSize_def sizeHeaderTCP_def Let_def split: if_splits)
  then show ?thesis using off by (intro exI [of _ "nat off"]) auto
qed

text \<open>
  C21. On a frame that passes \<open>ValidateSize\<close> neither \<open>Options\<close> nor \<open>Payload\<close> panics, and
  header, options and payload are consecutive and make up the whole buffer.
\<close>

theorem tcp_validated_parts:
  assumes "tcp_ValidateSize frm v = Some v'" "vld_clean v'"
  shows "\<exists>opts payload. tcp_Options frm = Some opts \<and> tcp_Payload frm = Some payload \<and>
    frm = take 20 frm @ opts @ payload"
proof -
  obtain hl where hl: "tcp_HeaderLength frm = Some (int hl)" "20 \<le> hl" "hl \<le> length frm"
    using validated_header [OF assms] by blast
  have "tcp_Options frm = Some (take (hl - 20) (drop 20 frm))"
    using hl go_slice_int [of frm 20 hl] by (simp add: tcp_Options_def sizeHeaderTCP_def)
  moreover have "tcp_Payload frm = Some (drop hl frm)"
    using hl by (simp add: tcp_Payload_def)
  moreover have "frm = take 20 frm @ take (hl - 20) (drop 20 frm) @ drop hl frm"
    using hl(2) by (metis append_take_drop_id drop_drop le_add_diff_inverse2)
  ultimately show ?thesis by blast
qed

theorem tcp_validated_parts_witness:
  "\<exists>opts payload. tcp_Options (demoHeader [12 := 0x60] @ [2, 4, 5, 180, 65, 66]) = Some opts \<and>
    tcp_Payload (demoHeader [12 := 0x60] @ [2, 4, 5, 180, 65, 66]) = Some payload \<and>
    demoHeader [12 := 0x60] @ [2, 4, 5, 180, 65, 66] =
      take 20 (demoHeader [12 := 0x60] @ [2, 4, 5, 180, 65, 66]) @ opts @ payload"
proof -
  have "tcp_ValidateSize (demoHeader [12 := 0x60] @ [2, 4, 5, 180, 65, 66])
      \<lparr>accum = [], accumBitpos = [], vldFlags = 0\<rparr> =
    Some \<lparr>accum = [], accumBitpos = [], vldFlags = 0\<rparr>"
    by code_simp
  from tcp_validated_parts [OF this] show ?thesis by (simp add: vld_clean_def)
qed

end
