(* ===== verification/Tcp_Options.thy ===== *)
theory Tcp_Options
  imports Go_Binary
begin

text \<open>
  \<open>tcp/options.go\<close>: the option list of a TCP header, its encoder and its parser.
\<close>

section \<open>Model\<close>

type_synonym OptionKind = u8

definition OptEnd :: OptionKind where "OptEnd = 0"
definition OptNop :: OptionKind where "OptNop = 1"
definition OptMaxSegmentSize :: OptionKind where "OptMaxSegmentSize = 2"
definition OptWindowScale :: OptionKind where "OptWindowScale = 3"
definition OptSACKPermitted :: OptionKind where "OptSACKPermitted = 4"
definition OptTimestamps :: OptionKind where "OptTimestamps = 8"
definition OptUserTimeout :: OptionKind where "OptUserTimeout = 28"

lemmas opt_kinds = OptEnd_def OptNop_def OptMaxSegmentSize_def OptWindowScale_def
  OptSACKPermitted_def OptTimestamps_def OptUserTimeout_def

definition opt_IsDefined :: "OptionKind \<Rightarrow> bool" where
  "opt_IsDefined kind \<longleftrightarrow> kind \<le> 30 \<or> kind = 34 \<or> kind = 69 \<or> kind = 172 \<or> kind = 174"

text \<open>The kinds whose name ends in \<open>(obsolete)\<close>.\<close>

definition opt_IsObsolete :: "OptionKind \<Rightarrow> bool" where
  "opt_IsObsolete kind \<longleftrightarrow> opt_IsDefined kind \<and> kind \<in> {6, 7, 9, 10, 11, 12, 13, 14, 15, 19}"

type_synonym OptionFlags = u8

definition OptFlagSkipSizeValidation :: OptionFlags where "OptFlagSkipSizeValidation = 1"
definition OptFlagSkipObsolete :: OptionFlags where "OptFlagSkipObsolete = 2"

definition opt_HasAny :: "OptionFlags \<Rightarrow> OptionFlags \<Rightarrow> bool" where
  "opt_HasAny flags m \<longleftrightarrow> flags AND m \<noteq> 0"

text \<open>\<open>PutOption\<close> returns the destination with the option written at its front, and its size.\<close>

definition opt_PutOption ::
    "bytes \<Rightarrow> OptionKind \<Rightarrow> bytes \<Rightarrow> bytes \<times> int \<times> goerror option" where
  "opt_PutOption dst kind data =
     (let putSize = 2 + length data in
      if length dst < putSize then (dst, -1, Some (Generic ErrShortBuffer))
      else if putSize > 255 then (dst, -1, Some (Generic ErrInvalidLengthField))
      else if kind = OptNop \<or> kind = OptEnd then (dst, -1, Some (Generic ErrInvalidField))
      else (patch 0 (kind # of_nat putSize # data) dst, int putSize, None))"

definition opt_PutOption16 :: "bytes \<Rightarrow> OptionKind \<Rightarrow> u16 \<Rightarrow> bytes \<times> int \<times> goerror option" where
  "opt_PutOption16 dst kind v = opt_PutOption dst kind [ucast (drop_bit 8 v), ucast v]"

definition opt_PutOption32 :: "bytes \<Rightarrow> OptionKind \<Rightarrow> u32 \<Rightarrow> bytes \<times> int \<times> goerror option" where
  "opt_PutOption32 dst kind v =
     opt_PutOption dst kind [ucast (drop_bit 24 v), ucast (drop_bit 16 v), ucast (drop_bit 8 v), ucast v]"

definition opt_expectSize :: "OptionKind \<Rightarrow> nat" where
  "opt_expectSize kind =
     (if kind = OptTimestamps then 10
      else if kind = OptMaxSegmentSize \<or> kind = OptUserTimeout then 4
      else if kind = OptWindowScale then 3
      else if kind = OptSACKPermitted then 2
      else 0)"

text \<open>\<open>Next\<close>: kind, data, remaining options and error; a nil slice is the empty list.\<close>

function opt_Next :: "OptionFlags \<Rightarrow> bytes \<Rightarrow> OptionKind \<times> bytes \<times> bytes \<times> goerror option" where
  "opt_Next fl opts =
     (if opts = [] \<or> hd opts = 0 then (OptEnd, [], [], None)
      else let kind = hd opts in
      if kind = OptNop then (kind, [], tl opts, None)
      else if length opts = 1 then (kind, [], [], Some (Generic ErrTruncatedFrame))
      else let size = unat (opts ! 1) in
      if size > length opts then (kind, [], [], Some (Generic ErrTruncatedFrame))
      else if size < 2 then (kind, [], [], Some (Generic ErrInvalidLengthField))
      else
        let optData = take (size - 2) (drop 2 opts); remainingOpts = drop size opts in
        if opt_HasAny fl OptFlagSkipObsolete \<and> opt_IsObsolete kind then opt_Next fl remainingOpts
        else
          (kind, optData, remainingOpts,
           if \<not> opt_HasAny fl OptFlagSkipSizeValidation \<and>
              opt_expectSize kind \<noteq> 0 \<and> size \<noteq> opt_expectSize kind
           then Some (Generic ErrInvalidLengthField) else None))"
  by pat_completeness auto
termination
  by (relation "measure (\<lambda>(fl, opts). length opts)") auto

declare opt_Next.simps [simp del]

text \<open>
  \<open>ForEachOption\<close>: the callback is a state transformer that may stop the walk with an error.
\<close>

lemma opt_Next_shrinks:
  assumes "opt_Next fl opts = (kind, data, rest, err)" "kind \<noteq> 0"
  shows "length rest < length opts"
  using assms
proof (induction fl opts rule: opt_Next.induct)
  case (1 fl opts)
  show ?case
  proof (cases "opts = [] \<or> hd opts = 0 \<or> hd opts = OptNop \<or> length opts = 1 \<or>
      unat (opts ! 1) > length opts \<or> unat (opts ! 1) < 2")
    case True
    then show ?thesis
      using 1(2,3) by (subst (asm) opt_Next.simps) (auto simp: OptEnd_def Let_def split: if_splits)
  next
    case False
    then have s: "length (drop (unat (opts ! 1)) opts) < length opts" by (cases opts) auto
    show ?thesis
    proof (cases "opt_HasAny fl OptFlagSkipObsolete \<and> opt_IsObsolete (hd opts)")
      case True
      then have "opt_Next fl (drop (unat (opts ! 1)) opts) = (kind, data, rest, err)"
        using 1(2) False by (subst (asm) opt_Next.simps) (simp add: Let_def)
      from 1(1) [OF _ refl _ _ refl _ _ refl refl _ this 1(3)] False True s show ?thesis by auto
    next
      case keep: False
      then show ?thesis
        using 1(2) False s by (subst (asm) opt_Next.simps) (auto simp: Let_def)
    qed
  qed
qed

function opt_ForEach ::
    "OptionFlags \<Rightarrow> (OptionKind \<Rightarrow> bytes \<Rightarrow> 's \<Rightarrow> 's \<times> goerror option) \<Rightarrow> bytes \<Rightarrow> 's \<Rightarrow>
     's \<times> goerror option" where
  "opt_ForEach fl fn opts s =
     (case opt_Next fl opts of (kind, data, rest, err) \<Rightarrow>
        if err \<noteq> None then (s, err)
        else if kind = 0 then (s, None)
        else if kind \<le> OptNop then opt_ForEach fl fn rest s
        else (case fn kind data s of (s, err) \<Rightarrow>
                if err \<noteq> None then (s, err) else opt_ForEach fl fn rest s))"
  by pat_completeness auto
termination
  by (relation "measure (\<lambda>(fl, fn, opts, s). length opts)") (auto dest: opt_Next_shrinks [OF sym])

declare opt_ForEach.simps [simp del]

section \<open>Round trip\<close>

text \<open>An option as the encoder lays it out, and the ones the parser gives back unchanged.\<close>

definition opt_bytes :: "OptionKind \<times> bytes \<Rightarrow> bytes" where
  "opt_bytes kd = fst kd # of_nat (2 + length (snd kd)) # snd kd"

definition opt_plain :: "OptionFlags \<Rightarrow> OptionKind \<times> bytes \<Rightarrow> bool" where
  "opt_plain fl kd \<longleftrightarrow> fst kd \<noteq> OptEnd \<and> fst kd \<noteq> OptNop \<and> length (snd kd) \<le> 253 \<and>
     \<not> (opt_HasAny fl OptFlagSkipObsolete \<and> opt_IsObsolete (fst kd)) \<and>
     (opt_HasAny fl OptFlagSkipSizeValidation \<or> opt_expectSize (fst kd) \<in> {0, 2 + length (snd kd)})"

text \<open>Options written one after the other, the way the handler fills a SYN segment.\<close>

fun opt_PutAll :: "bytes \<Rightarrow> nat \<Rightarrow> (OptionKind \<times> bytes) list \<Rightarrow> bytes \<times> goerror option" where
  "opt_PutAll buf off [] = (buf, None)"
| "opt_PutAll buf off (kd # os) =
     (case opt_PutOption (drop off buf) (fst kd) (snd kd) of
        (b, n, None) \<Rightarrow> opt_PutAll (take off buf @ b) (off + nat n) os
      | (_, _, Some e) \<Rightarrow> (buf, Some e))"

lemma length_opt_bytes [simp]: "length (opt_bytes kd) = 2 + length (snd kd)"
  by (simp add: opt_bytes_def)

lemma opt_PutOption_ok:
  assumes "opt_plain fl kd" "length (opt_bytes kd) \<le> length dst"
  shows "opt_PutOption dst (fst kd) (snd kd) =
    (opt_bytes kd @ drop (length (opt_bytes kd)) dst, int (length (opt_bytes kd)), None)"
  using assms by (auto simp: opt_PutOption_def opt_plain_def opt_bytes_def patch_def Let_def)

lemma opt_PutAll_ok:
  assumes "\<forall>kd \<in> set os. opt_plain fl kd" "off + length (concat (map opt_bytes os)) \<le> length buf"
  shows "opt_PutAll buf off os =
    (take off buf @ concat (map opt_bytes os) @ drop (off + length (concat (map opt_bytes os))) buf, None)"
  using assms
proof (induction os arbitrary: buf off)
  case (Cons kd os)
  let ?n = "length (opt_bytes kd)"
  let ?buf = "take off buf @ opt_bytes kd @ drop (off + ?n) buf"
  have "opt_PutOption (drop off buf) (fst kd) (snd kd) =
      (opt_bytes kd @ drop (off + ?n) buf, int ?n, None)"
    using opt_PutOption_ok [of fl kd "drop off buf"] Cons.prems by (simp add: add.commute)
  then have "opt_PutAll buf off (kd # os) = opt_PutAll ?buf (off + ?n) os"
    by (simp del: length_opt_bytes)
  moreover have "take (off + ?n) ?buf = take off buf @ opt_bytes kd"
    "drop (off + ?n + m) ?buf = drop (off + ?n + m) buf" for m
    using Cons.prems by (simp_all add: min_def ac_simps)
  ultimately show ?case using Cons.IH [where buf = ?buf and off = "off + ?n"] Cons.prems by (simp add: add.assoc)
qed simp

lemma opt_Next_bytes:
  assumes "opt_plain fl kd"
  shows "opt_Next fl (opt_bytes kd @ rest) = (fst kd, snd kd, rest, None)"
proof -
  have "unat (of_nat (2 + length (snd kd)) :: u8) = 2 + length (snd kd)"
    using assms by (simp only: unat_of_nat) (simp add: opt_plain_def)
  then show ?thesis
    using assms by (subst opt_Next.simps) (auto simp: opt_bytes_def opt_plain_def opt_kinds Let_def)
qed

lemma opt_ForEach_bytes:
  assumes "\<forall>kd \<in> set os. opt_plain fl kd" "rest = [] \<or> hd rest = 0"
  shows "opt_ForEach fl (\<lambda>k d s. (s @ [(k, d)], None)) (concat (map opt_bytes os) @ rest) acc = (acc @ os, None)"
  using assms
proof (induction os arbitrary: acc)
  case Nil
  then show ?case by (subst opt_ForEach.simps, subst opt_Next.simps) (auto simp: OptEnd_def)
next
  case (Cons kd os)
  have p: "opt_plain fl kd" using Cons.prems by simp
  then have "\<not> fst kd \<le> OptNop" "fst kd \<noteq> 0"
    by (auto simp: opt_plain_def opt_kinds word_le_nat_alt le_Suc_eq word_unat_eq_iff)
  then show ?case
    using Cons opt_Next_bytes [OF p, of "concat (map opt_bytes os) @ rest"]
    by (subst opt_ForEach.simps) simp
qed

text \<open>
  C22. Options written with \<open>PutOption\<close> into a zeroed option area that has room for them are
  what \<open>ForEachOption\<close> then visits, in order, with kind and data unchanged, the padding
  being read as the end of the list; kinds with a size of their own must have it, unless
  size validation is off.
\<close>

theorem tcp_options_roundtrip:
  assumes "\<forall>kd \<in> set os. opt_plain fl kd" "length (concat (map opt_bytes os)) \<le> n"
  shows "\<exists>buf. opt_PutAll (replicate n 0) 0 os = (buf, None) \<and> length buf = n \<and>
    opt_ForEach fl (\<lambda>k d s. (s @ [(k, d)], None)) buf [] = (os, None)"
proof -
  let ?e = "concat (map opt_bytes os)"
  have "opt_PutAll (replicate n 0) 0 os = (?e @ replicate (n - length ?e) 0, None)"
    using opt_PutAll_ok [OF assms(1), of 0 "replicate n 0"] assms(2) by simp
  moreover have "replicate (n - length ?e) 0 = [] \<or> hd (replicate (n - length ?e) (0 :: u8)) = 0"
    by (cases "n - length ?e") auto
  ultimately show ?thesis
    using opt_ForEach_bytes [OF assms(1), of "replicate (n - length ?e) 0" "[]"] assms(2) by auto
qed

theorem tcp_options_roundtrip_witness:
  "\<exists>buf. opt_PutAll (replicate 8 0) 0 [(OptMaxSegmentSize, [5, 180]), (OptWindowScale, [7])] = (buf, None) \<and>
    opt_ForEach 0 (\<lambda>k d s. (s @ [(k, d)], None)) buf [] =
      ([(OptMaxSegmentSize, [5, 180]), (OptWindowScale, [7])], None)"
proof -
  have "\<forall>kd \<in> set [(OptMaxSegmentSize, [5, 180]), (OptWindowScale, [7])]. opt_plain 0 kd" by code_simp
  moreover have "length (concat (map opt_bytes [(OptMaxSegmentSize, [5, 180]), (OptWindowScale, [7])])) \<le> 8"
    by code_simp
  ultimately show ?thesis using tcp_options_roundtrip by blast
qed

section \<open>What the parser hands out\<close>

lemma opt_Next_inside:
  assumes "opt_Next fl opts = (kind, data, rest, None)" "kind \<noteq> 0"
  shows "\<exists>pre. opts = pre @ (if kind = OptNop then [kind] else opt_bytes (kind, data)) @ rest"
  using assms
proof (induction fl opts rule: opt_Next.induct)
  case (1 fl opts)
  have ne: "opts \<noteq> []" "hd opts \<noteq> 0"
    using 1(2,3) by (subst (asm) opt_Next.simps, auto simp: OptEnd_def split: if_splits)+
  show ?case
  proof (cases "hd opts = OptNop")
    case True
    then have "kind = OptNop" "rest = tl opts"
      using 1(2) ne by (subst (asm) opt_Next.simps, simp add: Let_def)+
    then show ?thesis using ne True by (intro exI [of _ "[]"]) (cases opts; simp)
  next
    case False
    define size where "size = unat (opts ! 1)"
    have sz: "length opts \<noteq> 1" "size \<le> length opts" "2 \<le> size"
      using 1(2) ne False
      by (subst (asm) opt_Next.simps, auto simp: Let_def size_def split: if_splits)+
    then obtain k z tl2 where o: "opts = k # z # tl2"
      using ne by (cases opts; cases "tl opts") auto
    then have z: "of_nat size = z" "size - 2 \<le> length tl2" "size = Suc (Suc (size - 2))"
      using sz by (simp_all add: size_def)
    have split: "opts = opt_bytes (k, take (size - 2) tl2) @ drop size opts"
      using z(1-2) z(3) [symmetric] drop_Suc_Cons [of "Suc (size - 2)" k "z # tl2"]
      by (simp add: o opt_bytes_def)
    show ?thesis
    proof (cases "opt_HasAny fl OptFlagSkipObsolete \<and> opt_IsObsolete (hd opts)")
      case True
      then have "opt_Next fl (drop size opts) = (kind, data, rest, None)"
        using 1(2) ne False sz by (subst (asm) opt_Next.simps) (simp add: Let_def size_def)
      then obtain pre where "drop size opts = pre @ (if kind = OptNop then [kind] else opt_bytes (kind, data)) @ rest"
        using 1(1) [OF _ refl _ _ refl _ _ refl refl _ _ 1(3)] ne False True sz by (auto simp: size_def)
      then show ?thesis using split by (metis append.assoc)
    next
      case keep: False
      then have "kind = k" "data = take (size - 2) tl2" "rest = drop size opts"
        using 1(2) ne False sz o by (subst (asm) opt_Next.simps, auto simp: Let_def size_def)+
      then show ?thesis using split False o by (intro exI [of _ "[]"]) auto
    qed
  qed
qed

lemma opt_ForEach_inside:
  "\<exists>vis. fst (opt_ForEach fl (\<lambda>k d s. (s @ [(k, d)], None)) opts acc) = acc @ vis \<and>
    (\<forall>kd \<in> set vis. fst kd \<noteq> OptEnd \<and> fst kd \<noteq> OptNop \<and> (\<exists>pre post. opts = pre @ opt_bytes kd @ post))"
proof (induction opts arbitrary: acc rule: length_induct)
  case (1 opts)
  let ?fn = "\<lambda>k d (s :: (OptionKind \<times> bytes) list). (s @ [(k, d)], None :: goerror option)"
  obtain kind data rest err where nx: "opt_Next fl opts = (kind, data, rest, err)"
    by (cases "opt_Next fl opts") auto
  show ?case
  proof (cases "err \<noteq> None \<or> kind = 0")
    case True
    then show ?thesis using nx by (subst opt_ForEach.simps) auto
  next
    case False
    then have len: "length rest < length opts" using opt_Next_shrinks [OF nx] by simp
    obtain pre where pre: "opts = pre @ (if kind = OptNop then [kind] else opt_bytes (kind, data)) @ rest"
      using opt_Next_inside [of fl opts kind data rest] nx False by auto
    define acc' where "acc' = (if kind \<le> OptNop then acc else acc @ [(kind, data)])"
    have step: "opt_ForEach fl ?fn opts acc = opt_ForEach fl ?fn rest acc'"
      using nx False by (subst opt_ForEach.simps) (simp add: acc'_def)
    obtain vis where vis: "fst (opt_ForEach fl ?fn rest acc') = acc' @ vis"
      "\<forall>kd \<in> set vis. fst kd \<noteq> OptEnd \<and> fst kd \<noteq> OptNop \<and> (\<exists>pre post. rest = pre @ opt_bytes kd @ post)"
      using 1 len by blast
    have up: "\<exists>pre post. opts = pre @ opt_bytes kd @ post" if "\<exists>pre post. rest = pre @ opt_bytes kd @ post" for kd
      using that pre by (metis append.assoc)
    show ?thesis
    proof (cases "kind \<le> OptNop")
      case True
      then show ?thesis using step vis up by (auto simp: acc'_def)
    next
      case gt: False
      then have "kind \<noteq> OptEnd" "kind \<noteq> OptNop" by (auto simp: opt_kinds)
      then show ?thesis
        using step vis up gt pre by (intro exI [of _ "(kind, data) # vis"]) (auto simp: acc'_def)
    qed
  qed
qed

text \<open>
  C23. Whatever bytes the peer sends, the walk over the options of a header ends, and an
  option it hands to the callback lies inside the option area: there it stands, kind, size
  and data, the kind neither end nor no-operation.
\<close>

theorem tcp_options_inside:
  assumes "kd \<in> set (fst (opt_ForEach fl (\<lambda>k d s. (s @ [(k, d)], None)) opts []))"
  shows "fst kd \<noteq> OptEnd \<and> fst kd \<noteq> OptNop \<and> (\<exists>pre post. opts = pre @ opt_bytes kd @ post)"
  using assms opt_ForEach_inside [of fl opts "[]"] by auto

theorem tcp_options_inside_witness:
  "\<exists>pre post. [1, 1, 6, 2, 3, 3, 9, 2, 4, 5, 180 :: u8] = pre @ opt_bytes (3, [9]) @ post"
proof -
  have "(3, [9]) \<in> set (fst (opt_ForEach 0 (\<lambda>k d s. (s @ [(k, d)], None)) [1, 1, 6, 2, 3, 3, 9, 2, 4, 5, 180] []))"
    by code_simp
  from tcp_options_inside [OF this] show ?thesis by blast
qed

end
