(* ===== verification/Tcp_Handler.thy ===== *)
theory Tcp_Handler
  imports Tcp_Control Tx_Queue Reassembly Tcp_Frame Tcp_Options
begin

text \<open>
  \<open>tcp/handler.go\<close> and \<open>tcp/policy.go\<close>: the \<open>Handler\<close> that joins the control block, the
  transmit and receive buffers, the reassembly queue and the frame codec into a connection.

  A \<open>Policy\<close> is supplied by the user of the package; it is a record of functions on a state
  of any type, so that the model covers every policy. A policy sees the handler and may
  write to the frame it is given; it does not modify the handler. Logging is not modelled.
\<close>

section \<open>State\<close>

record Handler =
  connid :: u64
  scb :: ControlBlock
  bufTx :: ringTx
  bufRx :: ring
  validator :: Validator
  localPort :: u16
  remotePort :: u16
  optcodec :: OptionFlags
  wndShiftLocal :: u8
  wndShiftPeer :: u8
  peerOfferedWS :: bool
  reasm :: reassembly
  closing :: bool
  shutdownRx :: bool
  requeueControl :: bool

text \<open>
  The hooks of a policy: \<open>PreTx\<close> returns the frame with the options it wrote, the limit on
  new data, and where to retransmit from; \<open>PostTx\<close> returns the frame.
\<close>

record 'p Policy =
  PolReset :: "'p \<Rightarrow> 'p"
  PolPreTx :: "'p \<Rightarrow> Handler \<Rightarrow> bytes \<Rightarrow> 'p \<times> bytes \<times> Size \<times> Value \<times> bool"
  PolPostTx :: "'p \<Rightarrow> Handler \<Rightarrow> bytes \<Rightarrow> 'p \<times> bytes"
  PolPreRx :: "'p \<Rightarrow> Handler \<Rightarrow> bytes \<Rightarrow> 'p \<times> bool"
  PolPostRx :: "'p \<Rightarrow> Handler \<Rightarrow> State \<Rightarrow> bytes \<Rightarrow> 'p"

definition TransmitUnlimited :: Size where "TransmitUnlimited = NOT 0"

text \<open>The handler with its policy, \<open>None\<close> when there is none.\<close>

record 'p HandlerP = Handler +
  policy :: "('p Policy \<times> 'p) option"

abbreviation errBufferTooSmall :: goerror where "errBufferTooSmall \<equiv> Generic ErrShortBuffer"

section \<open>Queries\<close>

definition h_State :: "'a Handler_scheme \<Rightarrow> State" where
  "h_State h = tcbState (scb h)"

definition AwaitingSynResponse :: "'a Handler_scheme \<Rightarrow> bool" where
  "AwaitingSynResponse h \<longleftrightarrow> remotePort h \<noteq> 0 \<and> h_State h = StateSynSent"

definition IsAwaitingControl :: "'a Handler_scheme \<Rightarrow> bool" where
  "IsAwaitingControl h \<longleftrightarrow> AwaitingSynResponse h \<or> h_State h = StateSynRcvd"

definition RequeueControl :: "'a Handler_scheme \<Rightarrow> 'a Handler_scheme" where
  "RequeueControl h = (if IsAwaitingControl h then h\<lparr>requeueControl := True\<rparr> else h)"

definition AwaitingSynAck :: "'a Handler_scheme \<Rightarrow> bool" where
  "AwaitingSynAck h \<longleftrightarrow> remotePort h = 0 \<and> h_State h = StateListen"

definition AwaitingSynSend :: "'a Handler_scheme \<Rightarrow> bool" where
  "AwaitingSynSend h \<longleftrightarrow> remotePort h \<noteq> 0 \<and> h_State h = StateClosed"

definition IsTxOver :: "'a Handler_scheme \<Rightarrow> bool" where
  "IsTxOver h \<longleftrightarrow> h_State h = StateClosed \<and> \<not> AwaitingSynSend h \<or>
     h_State h = StateTimeWait \<and> \<not> HasPending (scb h)"

definition recvWindow :: "'a Handler_scheme \<Rightarrow> Size" where
  "recvWindow h =
     (let free = word_of_int (ring_Free (bufRx h)) in
      if \<not> reasm_enabled (reasm h) then free
      else let ooo = word_of_int (bufferedBytes (reasm h)) in if ooo < free then free - ooo else 0)"

text \<open>\<open>wndShiftFor\<close>: the loop, from shift \<open>s\<close> on.\<close>

function wndShiftFrom :: "nat \<Rightarrow> int \<Rightarrow> nat" where
  "wndShiftFrom s bufSize =
     (if s < maxWndShift \<and> drop_bit s bufSize > 0xFFFF then wndShiftFrom (Suc s) bufSize else s)"
  by pat_completeness auto
termination
  by (relation "measure (\<lambda>(s, _). maxWndShift - s)") auto

declare wndShiftFrom.simps [simp del]

definition wndShiftFor :: "int \<Rightarrow> u8" where
  "wndShiftFor bufSize = of_nat (wndShiftFrom 0 bufSize)"

definition wireWnd :: "'a Handler_scheme \<Rightarrow> Segment \<Rightarrow> Size" where
  "wireWnd h seg =
     (let wnd = WND seg;
          wnd = (if peerOfferedWS h \<and> \<not> HasAny (SegFlags seg) FlagSYN
                 then drop_bit (unat (wndShiftLocal h)) wnd else wnd)
      in if wnd > 0xFFFF then 0xFFFF else wnd)"

definition nextSegmentIsRetransmit :: "'a Handler_scheme \<Rightarrow> bool" where
  "nextSegmentIsRetransmit h =
     (let (endSeq, hasSent) = sentEndSeq (bufTx h) in hasSent \<and> LessThan (sNXT (sndS (scb h))) endSeq)"

definition NextSegmentSYN :: "'a Handler_scheme \<Rightarrow> bool \<times> bool" where
  "NextSegmentSYN h =
     (if AwaitingSynSend h \<or> requeueControl h \<and> h_State h = StateSynSent then (True, False)
      else if requeueControl h \<and> h_State h = StateSynRcvd then (True, True)
      else (HasAny (pending0 (scb h)) FlagSYN, HasAny (pending0 (scb h)) FlagACK))"

section \<open>Opening, closing and resetting\<close>

definition h_reset :: "'p HandlerP \<Rightarrow> u16 \<Rightarrow> u16 \<Rightarrow> Value \<Rightarrow> 'p HandlerP" where
  "h_reset h lport rport iss =
     \<lparr>connid = connid h + 1, scb = scb h, bufTx = fst (tx_ResetOrReuse (bufTx h) None 0 iss),
      bufRx = ring_Reset (bufRx h), validator = validator h, localPort = lport, remotePort = rport,
      optcodec = 0, wndShiftLocal = wndShiftLocal h, wndShiftPeer = 0, peerOfferedWS = False,
      reasm = reasm_clear (reasm h), closing = False, shutdownRx = False, requeueControl = False,
      policy = map_option (\<lambda>(pol, p). (pol, PolReset pol p)) (policy h)\<rparr>"

text \<open>A nil slice argument is \<open>None\<close>; the nil buffer of a new handler is the empty one.\<close>

definition h_SetBuffers ::
    "'p HandlerP \<Rightarrow> bytes option \<Rightarrow> bytes option \<Rightarrow> int \<Rightarrow> 'p HandlerP \<times> goerror option" where
  "h_SetBuffers h txbuf rxbuf packets =
     (let len = (\<lambda>b. case b of None \<Rightarrow> 0 | Some xs \<Rightarrow> int (length xs)) in
      if Buf (bufRx h) = [] \<and> (len rxbuf < minBufferSize \<or> len txbuf < minBufferSize)
      then (h, Some (Generic ErrShortBuffer))
      else if \<not> IsClosed (h_State h) then (h, Some (Generic ErrInvalidConfig))
      else
        let rx = (case rxbuf of None \<Rightarrow> bufRx h | Some b \<Rightarrow> (bufRx h)\<lparr>Buf := b\<rparr>);
            size = int (length (Buf rx));
            (tx, err) = tx_ResetOrReuse (bufTx h) txbuf packets 0 in
        (h\<lparr>scb := SetRecvWindow (scb h) (word_of_int size), wndShiftLocal := wndShiftFor size,
           bufRx := ring_Reset rx, reasm := reasm_reset (reasm h) maxReasmSegments, bufTx := tx\<rparr>, err))"

definition h_OpenActive :: "'p HandlerP \<Rightarrow> u16 \<Rightarrow> u16 \<Rightarrow> Value \<Rightarrow> 'p HandlerP \<times> goerror option" where
  "h_OpenActive h lport rport iss =
     (if rport = 0 then (h, Some (Generic ErrZeroDestination))
      else if int (length (Buf (bufRx h))) < minBufferSize \<or> tx_Size (bufTx h) < minBufferSize
      then (h, Some errBufferTooSmall)
      else if h_State h \<noteq> StateClosed \<and> h_State h \<noteq> StateTimeWait
      then (h, Some (TcpErr errNeedClosedTCBToOpen))
      else
        let h = h_reset (h\<lparr>scb := tcb_reset (scb h)\<rparr>) lport rport iss in
        (h\<lparr>scb := SetRecvWindow (scb h) (word_of_int (int (length (Buf (bufRx h)))))\<rparr>, None))"

definition h_OpenListen :: "'p HandlerP \<Rightarrow> u16 \<Rightarrow> Value \<Rightarrow> 'p HandlerP \<times> goerror option" where
  "h_OpenListen h lport iss =
     (if lport = 0 then (h, Some (Generic ErrZeroSource))
      else if int (length (Buf (bufRx h))) < minBufferSize \<or> tx_Size (bufTx h) < minBufferSize
      then (h, Some errBufferTooSmall)
      else case tcb_Open (scb h) iss (word_of_int (int (length (Buf (bufRx h))))) of
        (t, Some err) \<Rightarrow> (h\<lparr>scb := t\<rparr>, Some err)
      | (t, None) \<Rightarrow> (h_reset (h\<lparr>scb := t\<rparr>) lport 0 iss, None))"

definition h_Abort :: "'p HandlerP \<Rightarrow> 'p HandlerP" where
  "h_Abort h = h_reset (h\<lparr>scb := tcb_Abort (scb h)\<rparr>) 0 0 0"

definition h_ShutdownRead :: "'a Handler_scheme \<Rightarrow> 'a Handler_scheme" where
  "h_ShutdownRead h = h\<lparr>shutdownRx := True\<rparr>"

definition h_Close :: "'a Handler_scheme \<Rightarrow> 'a Handler_scheme \<times> goerror option" where
  "h_Close h =
     (if closing h then (h, Some (TcpErr errConnectionClosing))
      else if IsClosed (h_State h) then (h, Some NetClosed)
      else (h\<lparr>closing := True\<rparr>, None))"

section \<open>Receiving\<close>

definition queueAck :: "'a Handler_scheme \<Rightarrow> 'a Handler_scheme" where
  "queueAck h = h\<lparr>scb := (scb h)\<lparr>pending0 := pending0 (scb h) OR FlagACK\<rparr>\<rparr>"

definition handleOutOfOrder ::
    "'a Handler_scheme \<Rightarrow> Segment \<Rightarrow> bytes \<Rightarrow> ('a Handler_scheme \<times> bool) option" where
  "handleOutOfOrder h seg payload =
     (if shutdownRx h then Some (h, False)
      else if DATALEN seg = 0 \<or> HasAny (SegFlags seg) flagctl then Some (h, False)
      else
        let rcvNxt = rNXT (rcvS (scb h)); rcvWnd = rWND (rcvS (scb h)) in
        if SEQ seg = rcvNxt then Some (h, False)
        else if \<not> InWindow (SEQ seg) rcvNxt rcvWnd \<or> \<not> InWindow (Last seg) rcvNxt rcvWnd
        then Some (h, False)
        else do {
          (R, rx, ok) \<leftarrow> reasm_store (reasm h) (bufRx h) rcvNxt (SEQ seg) payload;
          let h = h\<lparr>reasm := R, bufRx := rx\<rparr>;
          Some (if ok then (queueAck h, True) else (h, False))
        })"

definition deliverReassembled :: "'a Handler_scheme \<Rightarrow> 'a Handler_scheme" where
  "deliverReassembled h =
     (if reasm_buffered (reasm h) = 0 then h
      else if shutdownRx h then h\<lparr>reasm := reasm_clear (reasm h)\<rparr>
      else
        let (R, rx, delivered) = reassemble (reasm h) (bufRx h) (rNXT (rcvS (scb h)));
            h = h\<lparr>reasm := R, bufRx := rx\<rparr> in
        if delivered > 0
        then queueAck (h\<lparr>scb := (scb h)\<lparr>rcvS :=
               (rcvS (scb h))\<lparr>rNXT := UpdateForward (rNXT (rcvS (scb h))) delivered\<rparr>\<rparr>\<rparr>)
        else h)"

text \<open>The callback \<open>Recv\<close> gives to \<open>ForEachOption\<close> on a SYN.\<close>

definition synOption ::
    "OptionKind \<Rightarrow> bytes \<Rightarrow> 'a Handler_scheme \<Rightarrow> 'a Handler_scheme \<times> goerror option" where
  "synOption kind data h =
     (let h = (if kind = OptMaxSegmentSize \<and> length data = 2 then
                 let mss = push_bit 8 (ucast (data ! 0)) OR ucast (data ! 1) :: u16 in
                 if mss > 0
                 then h\<lparr>scb := (scb h)\<lparr>sndS := (sndS (scb h))\<lparr>sMSS := ucast mss\<rparr>\<rparr>\<rparr> else h
               else h);
          h = (if kind = OptWindowScale \<and> length data = 1
               then h\<lparr>peerOfferedWS := True, wndShiftPeer := min (data ! 0) (of_nat maxWndShift)\<rparr>
               else h)
      in (h, None))"

text \<open>The part of \<open>Recv\<close> after the control block has accepted the segment.\<close>

definition recvAccepted ::
    "'p HandlerP \<Rightarrow> State \<Rightarrow> Value \<Rightarrow> u16 \<Rightarrow> bytes \<Rightarrow> Segment \<Rightarrow> bytes \<Rightarrow> ('p HandlerP \<times> goerror option) option"
  where
  "recvAccepted h prevState prevUNA rport tfrm seg payload = do {
     let h = h\<lparr>policy := map_option (\<lambda>(pol, p). (pol, PolPostRx pol p (Handler.truncate h) prevState tfrm)) (policy h)\<rparr>;
     if DATALEN seg \<noteq> 0 \<and> shutdownRx h \<and> (h_State h = StateFinWait1 \<or> h_State h = StateFinWait2)
     then Some (h\<lparr>scb := QueueRST (scb h) (ACK seg)\<rparr>, None)
     else do {
       (h, err) \<leftarrow> (if DATALEN seg \<noteq> 0 \<and> \<not> shutdownRx h
                   then do { (rx, n, err) \<leftarrow> ring_Write (bufRx h) payload; Some (h\<lparr>bufRx := rx\<rparr>, err) }
                   else Some (h, None));
       if err \<noteq> None then Some (h, err)
       else do {
         let h = (if DATALEN seg \<noteq> 0 then deliverReassembled h else h);
         h \<leftarrow> (if HasAny (SegFlags seg) FlagACK \<and> ACK seg \<noteq> prevUNA
              then do { (tx, _) \<leftarrow> tx_RecvACK (bufTx h) (ACK seg); Some (h\<lparr>bufTx := tx\<rparr>) }
              else Some h);
         if HasAny (SegFlags seg) FlagSYN
         then do {
           opts \<leftarrow> tcp_Options tfrm;
           let h = fst (opt_ForEach (optcodec h) synOption opts h);
           Some (if remotePort h = 0 then h\<lparr>remotePort := rport\<rparr> else h, None)
         }
         else Some (h, None)
       }
     }
   }"

text \<open>The part of \<open>Recv\<close> from the keepalive test on.\<close>

definition recvSegment ::
    "'p HandlerP \<Rightarrow> u16 \<Rightarrow> bytes \<Rightarrow> Segment \<Rightarrow> bytes \<Rightarrow> ('p HandlerP \<times> goerror option) option" where
  "recvSegment h rport tfrm seg payload =
     (if IncomingIsKeepalive (scb h) seg then Some (h, None)
      else
        let (h, keep) = (case policy h of
             None \<Rightarrow> (h, True)
           | Some (pol, p) \<Rightarrow> (case PolPreRx pol p (Handler.truncate h) tfrm of
                (p, keep) \<Rightarrow> (h\<lparr>policy := Some (pol, p)\<rparr>, keep))) in
        if \<not> keep then Some (h, None)
        else do {
          (h, consumed) \<leftarrow> (if reasm_enabled (reasm h) then handleOutOfOrder h seg payload
                           else Some (h, False));
          if consumed then Some (h, None)
          else if \<not> shutdownRx h \<and> int (length payload) > ring_Free (bufRx h)
          then Some (h, Some (Generic ErrBufferFull))
          else do {
            let prevState = h_State h;
            let prevUNA = sUNA (sndS (scb h));
            (t, err) \<leftarrow> tcb_Recv (scb h) seg;
            let h = h\<lparr>scb := t\<rparr>;
            if err \<noteq> None then Some (h, if h_State h = StateClosed then Some NetClosed else err)
            else if h_State h = StateClosed then Some (h, Some NetClosed)
            else recvAccepted h prevState prevUNA rport tfrm seg payload
          }
        })"

definition scaleIn :: "'a Handler_scheme \<Rightarrow> Segment \<Rightarrow> Segment" where
  "scaleIn h seg =
     (if peerOfferedWS h \<and> \<not> HasAny (SegFlags seg) FlagSYN
      then seg\<lparr>WND := push_bit (unat (wndShiftPeer h)) (WND seg)\<rparr> else seg)"

definition h_Recv :: "'p HandlerP \<Rightarrow> bytes \<Rightarrow> ('p HandlerP \<times> goerror option) option" where
  "h_Recv h incomingPacket =
     (if IsTxOver h then Some (h, Some NetClosed)
      else case tcp_NewFrame incomingPacket of
        (_, Some err) \<Rightarrow> Some (h, Some err)
      | (tfrm, None) \<Rightarrow> do {
          v \<leftarrow> tcp_ValidateExceptCRC tfrm (validator h);
          let (v, err) = vld_ErrPop v;
          let h = h\<lparr>validator := v\<rparr>;
          if err \<noteq> None then Some (h, err)
          else do {
            rport \<leftarrow> tcp_SourcePort tfrm;
            if remotePort h \<noteq> 0 \<and> rport \<noteq> remotePort h then Some (h, Some (Generic ErrMismatch))
            else do {
              dst \<leftarrow> tcp_DestinationPort tfrm;
              if localPort h \<noteq> dst then Some (h, Some (Generic ErrMismatch))
              else do {
                payload \<leftarrow> tcp_Payload tfrm;
                seg \<leftarrow> tcp_Segment tfrm (int (length payload));
                recvSegment h rport tfrm (scaleIn h seg) payload
              }
            }
          }
        })"

section \<open>Reading and writing\<close>

definition maybeQueueWindowUpdate :: "'a Handler_scheme \<Rightarrow> 'a Handler_scheme" where
  "maybeQueueWindowUpdate h =
     (let currentFree = recvWindow h; lastAdvertised = rWND (rcvS (scb h)) in
      if currentFree \<le> lastAdvertised then h
      else
        let thresh = word_of_int (int (length (Buf (bufRx h)))) div 2;
            mss = sMSS (sndS (scb h));
            thresh = (if mss > 0 \<and> mss < thresh then mss else thresh) in
        if currentFree - lastAdvertised \<ge> thresh then queueAck h else h)"

definition h_Write :: "'a Handler_scheme \<Rightarrow> bytes \<Rightarrow> ('a Handler_scheme \<times> int \<times> goerror option) option" where
  "h_Write h b =
     (if closing h then Some (h, 0, Some (TcpErr errConnectionClosing))
      else if \<not> TxDataOpen (h_State h) then Some (h, 0, Some NetClosed)
      else do { (tx, n, err) \<leftarrow> tx_Write (bufTx h) b; Some (h\<lparr>bufTx := tx\<rparr>, n, err) })"

text \<open>\<open>Read\<close> into a slice of length \<open>k\<close> returns the bytes read.\<close>

definition h_Read :: "'a Handler_scheme \<Rightarrow> nat \<Rightarrow> ('a Handler_scheme \<times> bytes \<times> goerror option) option" where
  "h_Read h k =
     (if shutdownRx h then Some (h, [], Some IoEOF)
      else do {
        (h, b, err) \<leftarrow> (if ring_Buffered (bufRx h) > 0
                       then do { (rx, b, err) \<leftarrow> ring_Read (bufRx h) k; Some (h\<lparr>bufRx := rx\<rparr>, b, err) }
                       else Some (h, [], None));
        let h = (if b \<noteq> [] then maybeQueueWindowUpdate (deliverReassembled h) else h);
        Some (h, b,
          if b = [] \<and> err = None
          then (if IsClosed (h_State h) then Some NetClosed
                else if \<not> RxDataOpen (h_State h) then Some IoEOF else None)
          else err)
      })"

section \<open>Sending\<close>

text \<open>\<open>putSynOptions\<close> writes at position \<open>off\<close> of the frame and returns the words written.\<close>

definition putSynOptions :: "'a Handler_scheme \<Rightarrow> bytes \<Rightarrow> nat \<Rightarrow> u16 \<Rightarrow> bool \<Rightarrow> (bytes \<times> u8) option" where
  "putSynOptions h frm off mss isSynack =
     (if off > length frm then None
      else
        let b = fst (opt_PutOption16 (drop off frm) OptMaxSegmentSize mss) in
        if (\<not> isSynack \<or> peerOfferedWS h) \<and> length b \<ge> 8 then
          let b = b[4 := OptNop];
              b = take 5 b @ fst (opt_PutOption (drop 5 b) OptWindowScale [wndShiftLocal h])
          in Some (take off frm @ b, 2)
        else Some (take off frm @ b, 1))"

text \<open>
  The consultation of the policy at the start of \<open>Send\<close>: handler, frame, header offset in
  words and limit on new data.
\<close>

definition sendPolicy :: "'p HandlerP \<Rightarrow> bytes \<Rightarrow> ('p HandlerP \<times> bytes \<times> u8 \<times> Size) option" where
  "sendPolicy h b =
     (case policy h of
        None \<Rightarrow> Some (h, b, 5, TransmitUnlimited)
      | Some (pol, p) \<Rightarrow> do {
          b \<leftarrow> tcp_ClearHeader b;
          b \<leftarrow> tcp_SetOffsetAndFlags b 5 0;
          let (p, b, limit, rtxFrom, doRtx) = PolPreTx pol p (Handler.truncate h) b;
          let h = h\<lparr>policy := Some (pol, p)\<rparr>;
          let (t, rewound) = (if doRtx then tcb_RetransmitFrom (scb h) rtxFrom else (scb h, False));
          let h = h\<lparr>scb := t, bufTx := (if rewound then tx_RetransmitFrom (bufTx h) rtxFrom else bufTx h)\<rparr>;
          (o', _) \<leftarrow> tcp_OffsetAndFlags b;
          Some (h, b, if o' > 5 \<and> uint o' * 4 < int (length b) then o' else 5, limit)
        })"

text \<open>
  What \<open>Send\<close> decides to emit: nothing, with an error or without, or a segment with the
  frame its options and data are in and the header offset in words.
\<close>

datatype 'h sendChoice = Nothing 'h bytes "goerror option" | Emit 'h bytes Segment u8

definition sendSegment ::
    "'p HandlerP \<Rightarrow> bytes \<Rightarrow> u8 \<Rightarrow> Size \<Rightarrow> bool \<Rightarrow> bool \<Rightarrow> 'p HandlerP sendChoice option" where
  "sendSegment h b offset txLimit awaitingSyn requeue =
     (let optHead = unat offset * 4; mss = word_of_int (int (length b) - sizeHeaderTCP) in
      if awaitingSyn \<or> requeue \<and> h_State h = StateSynSent then do {
        (b, words) \<leftarrow> putSynOptions h b optHead mss False;
        Some (Emit h b (ClientSynSegment (txIss (bufTx h)) (word_of_int (int (length (Buf (bufRx h))))))
               (offset + words))
      }
      else if requeue \<and> h_State h = StateSynRcvd then do {
        (b, words) \<leftarrow> putSynOptions h b optHead mss True;
        Some (Emit h b \<lparr>SEQ = sUNA (sndS (scb h)), ACK = rNXT (rcvS (scb h)), DATALEN = 0,
                        WND = word_of_int (ring_Free (bufRx h)), SegFlags = synack\<rparr> (offset + words))
      }
      else if requeue then Some (Nothing (h\<lparr>requeueControl := False\<rparr>) b None)
      else do {
        let maxPayload = int (length b) - int optHead;
        let maxPayload = (if txLimit < word_of_int maxPayload \<and> \<not> nextSegmentIsRetransmit h
                          then uint txLimit else maxPayload);
        (seg, ok) \<leftarrow> PendingSegment (scb h) maxPayload;
        let seg = seg\<lparr>WND := recvWindow h\<rparr>;
        if \<not> ok then Some (Nothing h b None)
        else if SegFlags seg = synack then do {
          (b, words) \<leftarrow> putSynOptions h b optHead mss True;
          Some (Emit h b seg (offset + words))
        }
        else if DATALEN seg > 0 then do {
          _ \<leftarrow> go_slice b (int optHead) (int optHead + uint (DATALEN seg));
          (tx, data, err) \<leftarrow> tx_MakePacket (bufTx h) (unat (DATALEN seg)) (SEQ seg);
          let h = h\<lparr>bufTx := tx\<rparr>;
          if err \<noteq> None then Some (Nothing h b err)
          else Some (Emit h (patch optHead data b)
                 (seg\<lparr>DATALEN := of_nat (length data),
                      SegFlags := (if data \<noteq> [] then SegFlags seg OR FlagPSH else SegFlags seg)\<rparr>) offset)
        }
        else Some (Emit h b seg offset)
      })"

text \<open>The end of \<open>Send\<close>: the control block takes note of the segment, the header is written.\<close>

definition sendEmit ::
    "'p HandlerP \<Rightarrow> bytes \<Rightarrow> Segment \<Rightarrow> u8 \<Rightarrow> ('p HandlerP \<times> bytes \<times> int \<times> goerror option) option" where
  "sendEmit h b seg offset =
     (let prevState = h_State h; (t, err) = tcb_Send (scb h) seg; h = h\<lparr>scb := t\<rparr> in
      if err \<noteq> None then Some (h, b, 0, err)
      else do {
        let h = h\<lparr>requeueControl := False\<rparr>;
        b \<leftarrow> tcp_SetSourcePort b (localPort h);
        b \<leftarrow> tcp_SetDestinationPort b (remotePort h);
        let seg = seg\<lparr>WND := wireWnd h seg\<rparr>;
        b \<leftarrow> tcp_SetSegment b seg offset;
        b \<leftarrow> tcp_SetUrgentPtr b 0;
        let datalen = unat offset * 4 + unat (DATALEN seg);
        (h, b) \<leftarrow> (case policy h of
             None \<Rightarrow> Some (h, b)
           | Some (pol, p) \<Rightarrow> do {
               sent \<leftarrow> go_slice b 0 (int datalen);
               let (p, sent) = (if snd (tcp_NewFrame sent) = None
                                then PolPostTx pol p (Handler.truncate h) sent else (p, sent));
               Some (h\<lparr>policy := Some (pol, p)\<rparr>, patch 0 sent b)
             });
        let h = (if prevState = StateTimeWait \<and> HasAny (SegFlags seg) FlagACK then h_reset h 0 0 0
                 else if HasAny (SegFlags seg) FlagRST then h_Abort h else h);
        Some (h, b, int datalen, None)
      })"

text \<open>
  In CLOSE-WAIT with nothing left to send the handler closes on its own; a requested close
  starts once the data is out. The error is that of \<open>ControlBlock.Close\<close>.
\<close>

definition sendAutoClose :: "'a Handler_scheme \<Rightarrow> 'a Handler_scheme" where
  "sendAutoClose h =
     (if h_State h = StateCloseWait \<and> \<not> closing h \<and> BufferedUnsent (bufTx h) = 0 \<and> \<not> HasPending (scb h)
      then h\<lparr>closing := True\<rparr> else h)"

definition sendClose :: "'a Handler_scheme \<Rightarrow> 'a Handler_scheme \<times> goerror option" where
  "sendClose h =
     (if BufferedUnsent (bufTx h) = 0 \<and> closing h \<and> (h_State h \<noteq> StateCloseWait \<or> \<not> HasPending (scb h))
      then (case tcb_Close (scb h) of (t, err) \<Rightarrow> (h\<lparr>closing := False, scb := t\<rparr>, err))
      else (h, None))"

text \<open>\<open>Send\<close> after the policy has been consulted.\<close>

definition sendFrom ::
    "'p HandlerP \<Rightarrow> bytes \<Rightarrow> u8 \<Rightarrow> Size \<Rightarrow> ('p HandlerP \<times> bytes \<times> int \<times> goerror option) option" where
  "sendFrom h b offset txLimit =
     (let awaitingSyn = AwaitingSynSend h; requeue = requeueControl h; h = sendAutoClose h in
      if \<not> awaitingSyn \<and> \<not> requeue \<and> BufferedUnsent (bufTx h) = 0 \<and> \<not> closing h \<and> \<not> HasPending (scb h)
      then Some (h, b, 0, None)
      else case sendClose h of
        (h, Some _) \<Rightarrow> Some (h_Abort h, b, 0, Some IoEOF)
      | (h, None) \<Rightarrow> do {
          c \<leftarrow> sendSegment h b offset txLimit awaitingSyn requeue;
          case c of Nothing h b err \<Rightarrow> Some (h, b, 0, err) | Emit h b seg offset \<Rightarrow> sendEmit h b seg offset
        })"

definition h_Send :: "'p HandlerP \<Rightarrow> bytes \<Rightarrow> ('p HandlerP \<times> bytes \<times> int \<times> goerror option) option" where
  "h_Send h b =
     (if IsTxOver h then Some (h, b, 0, Some NetClosed)
      else case tcp_NewFrame b of
        (_, Some err) \<Rightarrow> Some (h, b, 0, Some err)
      | (_, None) \<Rightarrow> do {
          (h, b, offset, txLimit) \<leftarrow> sendPolicy h b;
          sendFrom h b offset txLimit
        })"

end
