(* ===== verification/Tcp_Control_Props.thy ===== *)
theory Tcp_Control_Props
  imports Tcp_Control
begin

text \<open>
  Properties of the control block of \<open>Tcp_Control\<close>: what a reception accepts and changes,
  the connection state diagram, and the bounds of its counters in every reachable block.
\<close>

section \<open>What a reception accepts and changes\<close>

text \<open>A concrete established block and segments for it, at which the theorems are evaluated.\<close>

definition demoTCB :: ControlBlock where
  "demoTCB = zeroTCB\<lparr>tcbState := StateEstablished, rcvS := \<lparr>rIRS = 0, rNXT = 100, rWND = 1000\<rparr>,
     sndS := zeroSnd\<lparr>sISS := 49, sUNA := 50, sNXT := 60, sWND := 500\<rparr>\<rparr>"

definition demoData :: "Value \<Rightarrow> Segment" where
  "demoData s = \<lparr>SEQ = s, ACK = 55, DATALEN = 10, WND = 400, SegFlags = FlagACK\<rparr>"

definition demoSynSent :: ControlBlock where
  "demoSynSent = zeroTCB\<lparr>tcbState := StateSynSent, rcvS := zeroRcv\<lparr>rWND := 1000\<rparr>,
     sndS := zeroSnd\<lparr>sISS := 49, sUNA := 49, sNXT := 50, sWND := 1\<rparr>\<rparr>"

definition demoSynAck :: Segment where
  "demoSynAck = \<lparr>SEQ = 7, ACK = 50, DATALEN = 0, WND = 400, SegFlags = synack\<rparr>"

lemma processAck_fields [simp]:
  "rcvS (processAck t seg) = rcvS t" "tcbState (processAck t seg) = tcbState t"
  "pending0 (processAck t seg) = pending0 t" "challengeAcks (processAck t seg) = challengeAcks t"
  "sNXT (sndS (processAck t seg)) = sNXT (sndS t)" "sWND (sndS (processAck t seg)) = sWND (sndS t)"
  "sISS (sndS (processAck t seg)) = sISS (sndS t)" "sMSS (sndS (processAck t seg)) = sMSS (sndS t)"
  by (simp_all add: processAck_def)

lemma updateSendWindow_fields [simp]:
  "rcvS (updateSendWindow t seg) = rcvS t" "tcbState (updateSendWindow t seg) = tcbState t"
  "pending0 (updateSendWindow t seg) = pending0 t"
  "challengeAcks (updateSendWindow t seg) = challengeAcks t"
  "sNXT (sndS (updateSendWindow t seg)) = sNXT (sndS t)"
  "sUNA (sndS (updateSendWindow t seg)) = sUNA (sndS t)"
  "sISS (sndS (updateSendWindow t seg)) = sISS (sndS t)"
  "sMSS (sndS (updateSendWindow t seg)) = sMSS (sndS t)"
  "dupack (updateSendWindow t seg) = dupack t" "nRetransmit (updateSendWindow t seg) = nRetransmit t"
  by (simp_all add: updateSendWindow_def Let_def)

lemma recvFinish_fields [simp]:
  "tcbState (recvFinish t p seg) = tcbState t"
  "pending0 (recvFinish t p seg) = pending0 t OR p"
  "rcvS (recvFinish t p seg) = rcvS t\<lparr>rNXT := rNXT (rcvS t) + LEN seg\<rparr>"
  "sNXT (sndS (recvFinish t p seg)) = sNXT (sndS t)"
  "challengeAcks (recvFinish t p seg) = 0"
  by (simp_all add: recvFinish_def triggerChallengeAckSatisfied_def UpdateForward_def Let_def)

lemma tcb_Recv_None_iff:
  "tcb_Recv tcb seg = None \<longleftrightarrow>
     tcbState tcb = StateTimeWait \<and> incomingAcceptErr tcb seg = None \<and>
     \<not> HasAny (SegFlags seg) FlagRST \<and> \<not> HasAny (SegFlags seg) FlagSYN"
proof -
  have closed: "tcbState tcb = StateClosed \<Longrightarrow> incomingAcceptErr tcb seg \<noteq> None"
    by (simp add: incomingAcceptErr_def Let_def)
  obtain t err where v: "validateIncomingSegment tcb seg = (t, err)" by fastforce
  show ?thesis
  proof (cases err)
    case None
    then have t: "t = tcb" "incomingAcceptErr tcb seg = None" "\<not> HasAny (SegFlags seg) FlagRST"
      using v validateIncomingSegment_None by auto
    with v None closed show ?thesis
      by (auto simp: tcb_Recv_def recvDispatch_def Let_def IsPreestablished_def
          split: if_splits State.splits prod.splits)
  next
    case (Some e)
    then show ?thesis
      using v
      by (cases rule: validateIncomingSegment_cases [of tcb seg])
        (auto simp: tcb_Recv_def IsPreestablished_def)
  qed
qed

text \<open>
  C3. A reception panics exactly in TIME-WAIT, on a segment that passes the window checks
  and carries neither SYN nor RST. In every other state, and for every other segment,
  \<open>Recv\<close> returns.
\<close>

theorem tcb_Recv_panics_iff:
  "tcb_Recv tcb seg = None \<longleftrightarrow>
     tcbState tcb = StateTimeWait \<and> incomingAcceptErr tcb seg = None \<and>
     \<not> HasAny (SegFlags seg) FlagRST \<and> \<not> HasAny (SegFlags seg) FlagSYN"
  by (rule tcb_Recv_None_iff)

lemma incomingAcceptErr_None:
  assumes "incomingAcceptErr tcb seg = None"
  shows "WND seg \<le> maxWindow" "tcbState tcb \<noteq> StateClosed"
    "\<lbrakk>\<not> IsPreestablished (tcbState tcb); \<not> HasAny (SegFlags seg) FlagRST\<rbrakk> \<Longrightarrow>
       SEQ seg = rNXT (rcvS tcb) \<and>
       (DATALEN seg > 0 \<longrightarrow> InWindow (Last seg) (rNXT (rcvS tcb)) (rWND (rcvS tcb)))"
  using assms
  by (auto simp: incomingAcceptErr_def Let_def IsPreestablished_def not_less split: if_splits)

lemma recvDispatch_synchronized:
  assumes "recvDispatch tcb seg = Some (t, p, None)" "\<not> IsPreestablished (tcbState tcb)"
    and "tcbState t \<noteq> StateClosed"
  shows "rcvS t = rcvS tcb" "sndS t = sndS tcb" "dupack t = dupack tcb"
    "nRetransmit t = nRetransmit tcb" "pending0 t = pending0 tcb"
  using assms
  by (auto simp: recvDispatch_def IsPreestablished_def rcvEstablished_def rcvFinWait1_def
      rcvFinWait2_def Let_def split: State.splits if_splits)

lemma tcb_Recv_accepted:
  assumes "tcb_Recv tcb seg = Some (tcb', None)"
    and "\<not> IsPreestablished (tcbState tcb)" and "tcbState tcb' \<noteq> StateClosed"
  shows "SEQ seg = rNXT (rcvS tcb) \<and> rNXT (rcvS tcb') = Add (rNXT (rcvS tcb)) (LEN seg)
    \<and> (DATALEN seg > 0 \<longrightarrow> InWindow (Last seg) (rNXT (rcvS tcb)) (rWND (rcvS tcb)))"
proof -
  obtain t pend where *: "incomingAcceptErr tcb seg = None" "\<not> HasAny (SegFlags seg) FlagRST"
    "recvDispatch tcb seg = Some (t, pend, None)" "tcb' = recvFinish t pend seg"
    using assms(1) by (rule tcb_Recv_okE)
  then have "tcbState t \<noteq> StateClosed" using assms(3) by simp
  with * assms(2) show ?thesis
    using incomingAcceptErr_None(3) [OF *(1)] recvDispatch_synchronized(1) [OF *(3)]
    by (simp add: Add_def)
qed



lemma tcb_Recv_refused_keeps:
  assumes "tcb_Recv tcb seg = Some (tcb', Some e)" and "\<not> IsPreestablished (tcbState tcb)"
  shows "tcbState tcb' = StateClosed \<or>
    tcbState tcb' = tcbState tcb \<and> sndS tcb' = sndS tcb \<and> rcvS tcb' = rcvS tcb"
proof -
  obtain t err where v: "validateIncomingSegment tcb seg = (t, err)" by fastforce
  have "tcbState (fst (handleRST tcb (SEQ seg))) = StateClosed \<or>
      tcbState (fst (handleRST tcb (SEQ seg))) = tcbState tcb \<and>
      sndS (fst (handleRST tcb (SEQ seg))) = sndS tcb \<and>
      rcvS (fst (handleRST tcb (SEQ seg))) = rcvS tcb"
    using assms(2) by (simp add: handleRST_def Let_def IsPreestablished_def split: State.splits)
  then have val: "tcbState t = StateClosed \<or>
      tcbState t = tcbState tcb \<and> sndS t = sndS tcb \<and> rcvS t = rcvS tcb"
    using v assms(2) by (cases rule: validateIncomingSegment_cases [of tcb seg]) auto
  show ?thesis
  proof (cases err)
    case (Some x)
    with assms(1) v val show ?thesis by (auto simp: tcb_Recv_def)
  next
    case None
    with v have "t = tcb" using validateIncomingSegment_None by auto
    with assms v None show ?thesis
      by (auto simp: tcb_Recv_def recvDispatch_def rcvEstablished_def rcvFinWait1_def
          rcvFinWait2_def Let_def IsPreestablished_def
          split: if_splits State.splits)
  qed
qed



section \<open>The connection state diagram\<close>

text \<open>
  The diagram of RFC 9293 (Figure 5) as an inductive relation, one rule per arrow, labelled
  with the event. The arrows the code has beyond the figure are listed separately: resets,
  the abort after too many challenge ACKs, and CLOSING left on \<^emph>\<open>sending\<close> an ACK. The event
  \<open>OnAdjust\<close> stands for every operation that is not meant to change the state.
\<close>

datatype tcp_event = OnRecv | OnSend | OnClose | OnOpen | OnAbort | OnAdjust

inductive rfc_edge :: "tcp_event \<Rightarrow> State \<Rightarrow> State \<Rightarrow> bool" where
  passive_open: "rfc_edge OnOpen StateClosed StateListen"
| active_open: "rfc_edge OnSend StateClosed StateSynSent"
| listen_syn: "rfc_edge OnRecv StateListen StateSynRcvd"
| synsent_synack: "rfc_edge OnRecv StateSynSent StateEstablished"
| synsent_syn: "rfc_edge OnRecv StateSynSent StateSynRcvd"
| synrcvd_ack: "rfc_edge OnRecv StateSynRcvd StateEstablished"
| synrcvd_fin_out: "rfc_edge OnSend StateSynRcvd StateFinWait1"
| established_fin_out: "rfc_edge OnSend StateEstablished StateFinWait1"
| established_fin_in: "rfc_edge OnRecv StateEstablished StateCloseWait"
| finwait1_ack: "rfc_edge OnRecv StateFinWait1 StateFinWait2"
| finwait1_fin: "rfc_edge OnRecv StateFinWait1 StateClosing"
| finwait1_finack: "rfc_edge OnRecv StateFinWait1 StateTimeWait"
| finwait2_fin: "rfc_edge OnRecv StateFinWait2 StateTimeWait"
| closing_ack: "rfc_edge OnRecv StateClosing StateTimeWait"
| closewait_fin_out: "rfc_edge OnSend StateCloseWait StateLastAck"
| closewait_close: "rfc_edge OnClose StateCloseWait StateLastAck"
| lastack_ack: "rfc_edge OnRecv StateLastAck StateClosed"
| close_before_syn: "s \<in> {StateListen, StateSynSent} \<Longrightarrow> rfc_edge OnClose s StateClosed"

inductive code_edge :: "tcp_event \<Rightarrow> State \<Rightarrow> State \<Rightarrow> bool" where
  rfc: "rfc_edge e s s' \<Longrightarrow> code_edge e s s'"
| torn_down: "s \<notin> {StateClosed, StateListen} \<Longrightarrow> code_edge OnRecv s StateClosed"
| synrcvd_rst: "code_edge OnRecv StateSynRcvd StateListen"
| closing_ack_out: "code_edge OnSend StateClosing StateTimeWait"
| reopen: "code_edge OnOpen StateTimeWait StateListen"
| abort: "code_edge OnAbort s StateClosed"

inductive_simps rfc_edge_iff: "rfc_edge e s s'"
inductive_simps code_edge_iff: "code_edge e s s'"

lemmas edge_iffs = rfc_edge_iff code_edge_iff

inductive_cases rfc_edge_EstablishedE: "rfc_edge e s StateEstablished"
inductive_cases code_edge_EstablishedE: "code_edge e s StateEstablished"

lemma recvDispatch_edge:
  assumes "recvDispatch tcb seg = Some (t, p, err)"
  shows "tcbState t = tcbState tcb \<or> code_edge OnRecv (tcbState tcb) (tcbState t)"
  using assms
  by (auto simp: recvDispatch_def rcvListen_def rcvSynSent_def rcvSynRcvd_def rcvEstablished_def
      rcvFinWait1_def rcvFinWait2_def Let_def edge_iffs
      split: State.splits if_splits)

lemma handleRST_edge:
  "tcbState tcb \<noteq> StateClosed \<Longrightarrow> tcbState (fst (handleRST tcb s)) = tcbState tcb \<or>
   code_edge OnRecv (tcbState tcb) (tcbState (fst (handleRST tcb s)))"
  by (cases "tcbState tcb") (simp_all add: handleRST_def Let_def edge_iffs)

lemma validateIncoming_edge:
  "tcbState (fst (validateIncomingSegment tcb seg)) = tcbState tcb \<or>
   code_edge OnRecv (tcbState tcb) (tcbState (fst (validateIncomingSegment tcb seg)))"
  using handleRST_edge [of tcb "SEQ seg"] incomingAcceptErr_None(2) [of tcb seg]
  by (cases rule: validateIncomingSegment_cases [of tcb seg])
    (auto simp: edge_iffs)

lemma tcb_Recv_edge:
  assumes "tcb_Recv tcb seg = Some (tcb', err)"
  shows "tcbState tcb' = tcbState tcb \<or> code_edge OnRecv (tcbState tcb) (tcbState tcb')"
proof -
  obtain t e where v: "validateIncomingSegment tcb seg = (t, e)" by fastforce
  show ?thesis
  proof (cases e)
    case (Some x)
    with assms v have "tcb' = t" by (auto simp: tcb_Recv_def)
    then show ?thesis using validateIncoming_edge [of tcb seg] v by simp
  next
    case None
    with v have "t = tcb" using validateIncomingSegment_None by auto
    with assms v None show ?thesis
      using recvDispatch_edge [of tcb seg]
      by (auto simp: tcb_Recv_def Let_def split: if_splits option.splits bind_splits)
  qed
qed

lemma tcbState_advancePending [simp]: "tcbState (advancePending t seg) = tcbState t"
  by (simp add: advancePending_def Let_def)

lemma tcb_Send_state:
  assumes "tcb_Send tcb seg = (tcb', None)"
  shows "tcbState tcb' = tcbState (sendDispatch tcb seg)"
  using assms by (auto simp: tcb_Send_def Let_def split: option.splits)

lemma tcb_Send_refused: "tcb_Send tcb seg = (tcb', Some e) \<Longrightarrow> tcb' = tcb"
  by (auto simp: tcb_Send_def Let_def split: option.splits)

lemma sendDispatch_edge:
  "tcbState (sendDispatch tcb seg) = tcbState tcb \<or>
   code_edge OnSend (tcbState tcb) (tcbState (sendDispatch tcb seg))"
  by (cases "tcbState tcb")
    (simp_all add: sendDispatch_def prepareToHandshake_def Let_def edge_iffs)

lemma tcb_Send_edge:
  assumes "tcb_Send tcb seg = (tcb', err)"
  shows "tcbState tcb' = tcbState tcb \<or> code_edge OnSend (tcbState tcb) (tcbState tcb')"
proof (cases err)
  case (Some e)
  then show ?thesis using assms tcb_Send_refused by auto
next
  case None
  then have "tcbState tcb' = tcbState (sendDispatch tcb seg)"
    using assms tcb_Send_state by simp
  then show ?thesis using sendDispatch_edge by simp
qed

lemma tcb_Close_edge:
  "tcb_Close tcb = (tcb', err) \<Longrightarrow>
   tcbState tcb' = tcbState tcb \<or> code_edge OnClose (tcbState tcb) (tcbState tcb')"
  by (auto simp: tcb_Close_def edge_iffs split: State.splits)

lemma tcb_Open_edge:
  "tcb_Open tcb iss wnd = (tcb', err) \<Longrightarrow>
   tcbState tcb' = tcbState tcb \<or> code_edge OnOpen (tcbState tcb) (tcbState tcb')"
  by (auto simp: tcb_Open_def prepareToHandshake_def Let_def edge_iffs split: if_splits)

section \<open>Every operation on a control block\<close>

text \<open>
  One rule per way the package changes a control block: its exported methods, and the writes
  \<open>Handler\<close> makes directly to \<open>snd.MSS\<close>, \<open>pending[0]\<close> and \<open>rcv.NXT\<close>.
\<close>

inductive tcb_step :: "tcp_event \<Rightarrow> ControlBlock \<Rightarrow> ControlBlock \<Rightarrow> bool" where
  step_Recv: "tcb_Recv t seg = Some (t', err) \<Longrightarrow> tcb_step OnRecv t t'"
| step_Send: "tcb_Send t seg = (t', err) \<Longrightarrow> tcb_step OnSend t t'"
| step_Close: "tcb_Close t = (t', err) \<Longrightarrow> tcb_step OnClose t t'"
| step_Open: "tcb_Open t iss wnd = (t', err) \<Longrightarrow> tcb_step OnOpen t t'"
| step_Abort: "tcb_step OnAbort t (tcb_Abort t)"
| step_SetRecvWindow: "tcb_step OnAdjust t (SetRecvWindow t wnd)"
| step_QueueRST: "tcb_step OnAdjust t (QueueRST t s)"
| step_RetransmitFrom: "tcb_RetransmitFrom t s = (t', ok) \<Longrightarrow> tcb_step OnAdjust t t'"
| step_MSS: "tcb_step OnAdjust t (t\<lparr>sndS := sndS t\<lparr>sMSS := m\<rparr>\<rparr>)"
| step_queueACK: "tcb_step OnAdjust t (t\<lparr>pending0 := pending0 t OR FlagACK\<rparr>)"
| step_delivered: "tcb_step OnAdjust t (t\<lparr>rcvS := rcvS t\<lparr>rNXT := UpdateForward (rNXT (rcvS t)) n\<rparr>\<rparr>)"

text \<open>
  C6. Every operation either keeps the connection state or follows an arrow of the diagram:
  the arrows of RFC 9293, or one of the listed extra ones.
\<close>

theorem tcb_follows_diagram:
  assumes "tcb_step ev t t'"
  shows "tcbState t' = tcbState t \<or> code_edge ev (tcbState t) (tcbState t')"
  using assms
proof cases
  case step_RetransmitFrom
  then show ?thesis by (auto simp: tcb_RetransmitFrom_def split: if_splits)
qed (auto simp: SetRecvWindow_def QueueRST_def dest: tcb_Recv_edge tcb_Send_edge tcb_Close_edge
    tcb_Open_edge intro: code_edge.abort)

theorem tcb_follows_diagram_witness:
  "\<exists>t'. tcb_step OnRecv demoSynSent t' \<and> code_edge OnRecv (tcbState demoSynSent) (tcbState t')"
proof -
  define t' where "t' = fst (the (tcb_Recv demoSynSent demoSynAck))"
  have r: "tcb_Recv demoSynSent demoSynAck = Some (t', None)" unfolding t'_def by code_simp
  have "tcbState t' \<noteq> tcbState demoSynSent" unfolding t'_def by code_simp
  then show ?thesis
    using tcb_follows_diagram [OF step_Recv [OF r]] step_Recv [OF r] by blast
qed

lemma tcb_Recv_refused_not_established:
  assumes "tcb_Recv t seg = Some (t', Some e)" "tcbState t' = StateEstablished"
  shows "tcbState t = StateEstablished"
proof -
  obtain u err where v: "validateIncomingSegment t seg = (u, err)" by fastforce
  have rst: "tcbState (fst (handleRST t (SEQ seg))) = StateEstablished \<Longrightarrow> ?thesis"
    by (simp add: handleRST_def Let_def split: State.splits if_splits)
  show ?thesis
  proof (cases err)
    case (Some x)
    with v assms have "tcbState u = StateEstablished" by (simp add: tcb_Recv_def)
    with v rst show ?thesis
      by (cases rule: validateIncomingSegment_cases [of t seg]) auto
  next
    case None
    with v have "u = t" using validateIncomingSegment_None by auto
    with v None assms show ?thesis
      by (auto simp: tcb_Recv_def recvDispatch_def rcvListen_def rcvSynSent_def rcvSynRcvd_def
          rcvEstablished_def rcvFinWait1_def rcvFinWait2_def Let_def
          split: if_splits State.splits)
  qed
qed

lemma recvDispatch_to_established:
  assumes "recvDispatch t seg = Some (u, p, None)" "tcbState u = StateEstablished"
    and "tcbState t \<noteq> StateEstablished"
  shows "tcbState t \<in> {StateSynSent, StateSynRcvd}" "HasAny (SegFlags seg) FlagACK"
    "ACK seg = sUNA (sndS t) + 1" "sndS u = sndS t"
  using assms
  by (auto simp: recvDispatch_def rcvListen_def rcvSynSent_def rcvSynRcvd_def rcvEstablished_def
      rcvFinWait1_def rcvFinWait2_def Let_def HasAll_def HasAny_def flag_defs
      split: State.splits if_splits)

lemma code_edge_to_established:
  "code_edge e s StateEstablished \<Longrightarrow> e = OnRecv"
  by (auto simp: edge_iffs)

lemma LessThan_Suc [simp]: "LessThan v (v + 1)"
  by (simp add: LessThan_iff)

lemma preestablished_ack_bounds:
  assumes "validateIncomingSegment t seg = (t, None)" "IsPreestablished (tcbState t)"
    and "HasAny (SegFlags seg) FlagACK"
  shows "LessThanEq (ACK seg) (sNXT (sndS t))"
proof -
  have "HasAll (SegFlags seg) FlagACK" using assms(3) by (simp add: flag_bits)
  moreover have "tcbState t \<noteq> StateEstablished" using assms(2) by (auto simp: IsPreestablished_def)
  ultimately show ?thesis
    using validateIncomingSegment_None [OF assms(1)] assms(1,2)
    by (auto simp: validateIncomingSegment_def Let_def split: if_splits)
qed



section \<open>Bounds of a reachable control block\<close>

inductive tcb_reachable :: "ControlBlock \<Rightarrow> bool" where
  reach_zero: "tcb_reachable zeroTCB"
| reach_step: "tcb_reachable t \<Longrightarrow> tcb_step ev t t' \<Longrightarrow> tcb_reachable t'"

text \<open>
  The send window never exceeds what the window-scale option permits, and the two
  retransmission counters stay in step and below the point where their \<open>uint8\<close> arithmetic
  would wrap.
\<close>

definition counters_ok :: "ControlBlock \<Rightarrow> bool" where
  "counters_ok t \<longleftrightarrow> nRetransmit t \<le> 250 \<and> unat (dupack t) \<le> unat (nRetransmit t) + 4"

definition tcb_inv :: "ControlBlock \<Rightarrow> bool" where
  "tcb_inv t \<longleftrightarrow> sWND (sndS t) \<le> maxWindow \<and> counters_ok t"

lemma maxWindow_eq: "maxWindow = 1073725440"
  by (simp add: maxWindow_def maxWndShift_def push_bit_eq_mult)

lemma tcb_inv_zero: "tcb_inv zeroTCB"
  by (simp add: tcb_inv_def counters_ok_def zeroTCB_def zeroSnd_def)

lemma tcb_inv_Abort [simp]: "tcb_inv (tcb_Abort t)"
  by (simp add: tcb_Abort_def tcb_reset_def tcb_inv_zero)

lemma counters_ok_cong:
  "\<lbrakk>counters_ok t; dupack t' = dupack t; nRetransmit t' = nRetransmit t\<rbrakk> \<Longrightarrow> counters_ok t'"
  by (simp add: counters_ok_def)

lemma tcb_inv_resetSnd: "tcb_inv t \<Longrightarrow> w \<le> maxWindow \<Longrightarrow> tcb_inv (resetSnd t i w)"
  by (simp add: tcb_inv_def counters_ok_def resetSnd_def)

lemma tcb_inv_updates [simp]:
  "tcb_inv (t\<lparr>pending0 := f\<rparr>) = tcb_inv t" "tcb_inv (t\<lparr>pending1 := f\<rparr>) = tcb_inv t"
  "tcb_inv (t\<lparr>rcvS := r\<rparr>) = tcb_inv t" "tcb_inv (t\<lparr>tcbState := s\<rparr>) = tcb_inv t"
  "tcb_inv (t\<lparr>rstPtr := v\<rparr>) = tcb_inv t" "tcb_inv (t\<lparr>challengeAcks := c\<rparr>) = tcb_inv t"
  "tcb_inv (resetRcv t w v) = tcb_inv t"
  by (simp_all add: tcb_inv_def counters_ok_def resetRcv_def)

lemma tcb_inv_challenge [simp]:
  "tcb_inv (triggerChallengeAckEmit t) = tcb_inv t"
  "tcb_inv (triggerChallengeAckSent t) = tcb_inv t"
  "tcb_inv (triggerChallengeAckSatisfied t) = tcb_inv t"
  by (simp_all add: triggerChallengeAckEmit_def triggerChallengeAckSent_def
      triggerChallengeAckSatisfied_def)

lemma tcb_inv_handleRST: "tcb_inv t \<Longrightarrow> tcb_inv (fst (handleRST t s))"
  by (simp add: handleRST_def Let_def tcb_inv_resetSnd tcb_inv_def [of t] split: State.splits)

lemma tcb_inv_validate:
  assumes "tcb_inv t"
  shows "tcb_inv (fst (validateIncomingSegment t seg))"
  using assms tcb_inv_handleRST [OF assms, of "SEQ seg"] incomingAcceptErr_None(1) [of t seg]
  by (cases rule: validateIncomingSegment_cases [of t seg]) (simp_all add: tcb_inv_resetSnd)

lemma tcb_inv_recvDispatch:
  assumes "recvDispatch t seg = Some (u, p, err)" "tcb_inv t" "WND seg \<le> maxWindow"
  shows "tcb_inv u"
  using assms
  by (auto simp: recvDispatch_def rcvListen_def rcvSynSent_def rcvSynRcvd_def rcvEstablished_def
      rcvFinWait1_def rcvFinWait2_def Let_def tcb_inv_resetSnd
      split: State.splits if_splits)

lemma tcb_inv_updateSendWindow:
  "tcb_inv t \<Longrightarrow> WND seg \<le> maxWindow \<Longrightarrow> tcb_inv (updateSendWindow t seg)"
  by (simp add: tcb_inv_def counters_ok_def) (simp add: updateSendWindow_def Let_def)

lemma tcb_inv_processAck: "tcb_inv t \<Longrightarrow> tcb_inv (processAck t seg)"
proof -
  assume inv: "tcb_inv t"
  have "unat (dupack t + 1) \<le> unat (nRetransmit t) + 4"
    if "dupack t < nRetransmit t + retransmitMaxQueued + retransmitMaxQueued"
  proof -
    have "unat (nRetransmit t) \<le> 250"
      using inv by (simp add: tcb_inv_def counters_ok_def word_le_nat_alt)
    then have "unat (nRetransmit t + 4) = unat (nRetransmit t) + 4"
      by (subst unat_add_lem [THEN iffD1]) simp_all
    moreover have "dupack t < nRetransmit t + 4"
      using that by (simp add: retransmitMaxQueued_def add.assoc)
    ultimately have "unat (dupack t) < unat (nRetransmit t) + 4"
      by (simp add: word_less_nat_alt)
    moreover have "unat (dupack t + 1) \<le> unat (dupack t) + 1"
      by (simp add: unat_word_ariths mod_less_eq_dividend)
    ultimately show ?thesis by simp
  qed
  with inv show ?thesis
    by (auto simp: processAck_def tcb_inv_def counters_ok_def)
qed

lemma tcb_inv_Recv:
  assumes "tcb_Recv t seg = Some (t', err)" "tcb_inv t"
  shows "tcb_inv t'"
proof -
  obtain u e where v: "validateIncomingSegment t seg = (u, e)" by fastforce
  show ?thesis
  proof (cases e)
    case (Some x)
    with v assms tcb_inv_validate [OF assms(2), of seg] show ?thesis by (auto simp: tcb_Recv_def)
  next
    case None
    with v have "u = t" "WND seg \<le> maxWindow"
      using validateIncomingSegment_None [of t seg u] incomingAcceptErr_None(1) by auto
    have fin: "tcb_inv (recvFinish w p seg)" if "tcb_inv w" for w p
      unfolding recvFinish_def Let_def
      using that \<open>WND seg \<le> maxWindow\<close>
      by (simp add: tcb_inv_processAck tcb_inv_updateSendWindow)
    show ?thesis
    proof (cases "recvDispatch t seg")
      case (Some r)
      obtain w p e' where r: "r = (w, p, e')" by (cases r)
      then have "tcb_inv w"
        using Some assms(2) \<open>WND seg \<le> maxWindow\<close> tcb_inv_recvDispatch by blast
      with Some r v None assms \<open>u = t\<close> show ?thesis
        by (auto simp: tcb_Recv_def Let_def fin split: if_splits)
    qed (use v None assms \<open>u = t\<close> in \<open>auto simp: tcb_Recv_def Let_def split: if_splits\<close>)
  qed
qed

lemma tcb_inv_sendDispatch: "tcb_inv t \<Longrightarrow> tcb_inv (sendDispatch t seg)"
  by (simp add: sendDispatch_def prepareToHandshake_def Let_def tcb_inv_resetSnd tcb_reset_def
      tcb_inv_zero maxWindow_eq split: State.splits)

lemma tcb_inv_retransmitted:
  assumes "tcb_inv t" "n = nRetransmit t" "n < 255 - retransmitMaxQueued - retransmitAfterDupacks"
  shows "tcb_inv (t\<lparr>nRetransmit := n + 1\<rparr>)"
proof -
  have n: "unat (nRetransmit t) < 250"
    using assms(2,3) by (simp add: retransmitMaxQueued_def retransmitAfterDupacks_def word_less_nat_alt)
  then have "unat (nRetransmit t + 1) = unat (nRetransmit t) + 1"
    by (subst unat_add_lem [THEN iffD1]) simp_all
  with n assms(1,2) show ?thesis
    by (simp add: tcb_inv_def counters_ok_def word_le_nat_alt)
qed

lemma tcb_inv_Send:
  assumes "tcb_Send t seg = (t', err)" "tcb_inv t"
  shows "tcb_inv t'"
proof -
  have 1: "tcb_inv (advancePending (sendDispatch t seg) seg)"
    using tcb_inv_sendDispatch [OF assms(2)] by (simp add: advancePending_def Let_def)
  have 2: "tcb_inv (u\<lparr>sndS := s\<lparr>sNXT := n\<rparr>\<rparr>)" if "tcb_inv u" "s = sndS u" for u s n
    using that by (simp add: tcb_inv_def counters_ok_def)
  show ?thesis
    using assms 1
    by (auto simp: tcb_Send_def Let_def 2 tcb_inv_retransmitted split: option.splits if_splits)
qed

text \<open>
  C8. In every control block that any sequence of operations can produce, the send window is
  at most the largest window of RFC 7323 and the retransmission counters are bounded and in
  step, so their 8-bit additions never wrap.
\<close>

theorem tcb_reachable_bounds:
  assumes "tcb_reachable t"
  shows "sWND (sndS t) \<le> maxWindow \<and> nRetransmit t \<le> 250 \<and>
    unat (dupack t) \<le> unat (nRetransmit t) + 4"
proof -
  have "tcb_inv t"
    using assms
  proof induction
    case reach_zero
    show ?case by (rule tcb_inv_zero)
  next
    case (reach_step t ev t')
    from reach_step(2,3) show ?case
    proof cases
      case step_Recv
      then show ?thesis using reach_step(3) tcb_inv_Recv by blast
    next
      case step_Send
      then show ?thesis using reach_step(3) tcb_inv_Send by blast
    next
      case step_Close
      then show ?thesis
        using reach_step(3) by (auto simp: tcb_Close_def split: State.splits)
    next
      case step_Open
      then show ?thesis
        using reach_step(3) by (auto simp: tcb_Open_def prepareToHandshake_def Let_def tcb_reset_def
            tcb_inv_zero maxWindow_eq intro!: tcb_inv_resetSnd split: if_splits)
    next
      case step_Abort
      then show ?thesis by simp
    qed (use reach_step(3) in \<open>auto simp: SetRecvWindow_def QueueRST_def tcb_RetransmitFrom_def
           tcb_inv_def counters_ok_def split: if_splits\<close>)
  qed
  then show ?thesis by (simp add: tcb_inv_def counters_ok_def)
qed

theorem tcb_reachable_bounds_witness:
  "sWND (sndS (fst (tcb_Open zeroTCB 7 1000))) \<le> maxWindow"
  using tcb_reachable_bounds [OF reach_step [OF reach_zero step_Open [OF prod.collapse [symmetric]]]]
  by blast

end
