(* ===== verification/Tcp_Pending.thy ===== *)
theory Tcp_Pending
  imports Tcp_Control_Props
begin

text \<open>
  The segments a control block proposes: \<open>PendingSegment\<close> respects the windows, what it
  proposes passes the checks of \<open>Send\<close>, and what one side sends in order the other side
  accepts.
\<close>

section \<open>The segments a control block proposes\<close>

lemma maxSend_le: "maxSend s \<le> sWND s"
  by (simp add: maxSend_def Let_def word_sub_le)

lemma unat_maxSend: "unat (maxSend s) = unat (sWND s) - unat (inFlight s)"
  by (auto simp: maxSend_def Let_def word_le_nat_alt unat_sub)



lemma LEN_bits:
  "LEN seg = DATALEN seg + of_bool (bit (SegFlags seg) 0) + of_bool (bit (SegFlags seg) 1)"
  using and_exp_if [of "ucast (SegFlags seg) :: u32" 0]
    and_exp_if [of "ucast (drop_bit 1 (SegFlags seg)) :: u32" 0]
  by (simp add: LEN_def Let_def bit_simps of_bool_def del: bit_0)

lemma validateOutgoing_in_window:
  assumes "tcbState tcb \<noteq> StateClosed" "WND seg \<le> maxWindow"
    and "HasAny (SegFlags seg) FlagACK \<Longrightarrow> ACK seg = rNXT (rcvS tcb)"
    and "DATALEN seg > 0 \<Longrightarrow> tcbState tcb \<noteq> StateFinWait2"
    and "HasAny (SegFlags seg) FlagRST \<or> SEQ seg = sNXT (sndS tcb) \<and>
      (DATALEN seg > 0 \<longrightarrow> sWND (sndS tcb) > 0) \<and>
      (sWND (sndS tcb) > 0 \<longrightarrow> unat (LEN seg) \<le> unat (sWND (sndS tcb)))"
  shows "validateOutgoingSegment tcb seg = None"
proof -
  have last: "InWindow (Last seg) (SEQ seg) w" if w: "unat (LEN seg) \<le> unat w" "w > 0" for w
  proof (cases "LEN seg = 0")
    case True
    with w show ?thesis by (simp add: InWindow_iff Last_def Add_def word_less_nat_alt)
  next
    case False
    then have "unat (LEN seg - 1) = unat (LEN seg) - 1" "unat (LEN seg) > 0"
      by (simp_all add: unat_minus_one unat_gt_0)
    with False w show ?thesis by (simp add: InWindow_iff Last_def Add_def Let_def)
  qed
  have first: "sWND (sndS tcb) > 0 \<Longrightarrow> InWindow (sNXT (sndS tcb)) (sNXT (sndS tcb)) (sWND (sndS tcb))"
    by (simp add: InWindow_iff word_less_nat_alt)
  show ?thesis
    using assms last [of "sWND (sndS tcb)"] first
    by (cases "HasAny (SegFlags seg) FlagRST"; cases "sWND (sndS tcb) = 0")
      (auto simp: validateOutgoingSegment_def Let_def word_gt_0 not_less)
qed

text \<open>The flags of a proposed segment: ACK is added in every state that may send data.\<close>

definition pendingFlags :: "ControlBlock \<Rightarrow> Flags" where
  "pendingFlags tcb =
     (if txQueuedDataOpen (tcbState tcb) then pending0 tcb OR FlagACK else pending0 tcb)"

lemma PendingSegment_cases:
  assumes "PendingSegment tcb n = Some (seg, True)" "0 \<le> n" "\<not> HasPendingRetransmit tcb"
  obtains
    (challenge) "pendingChallengeAck tcb" "seg = MakeChallengeACK tcb"
  | (proposed) k where "seg =
        \<lparr>SEQ = if HasAny (pendingFlags tcb) FlagRST then rstPtr tcb else sNXT (sndS tcb),
         ACK = if HasAny (pendingFlags tcb) FlagACK then rNXT (rcvS tcb) else 0,
         DATALEN = word_of_int k, WND = rWND (rcvS tcb), SegFlags = pendingFlags tcb\<rparr>"
      "0 \<le> k" "k \<le> n" "k \<le> uint (maxSend (sndS tcb))" "0 < k \<Longrightarrow> txQueuedDataOpen (tcbState tcb)"
proof -
  have "seg = MakeChallengeACK tcb \<and> pendingChallengeAck tcb \<or> (\<exists>k. seg =
        \<lparr>SEQ = if HasAny (pendingFlags tcb) FlagRST then rstPtr tcb else sNXT (sndS tcb),
         ACK = if HasAny (pendingFlags tcb) FlagACK then rNXT (rcvS tcb) else 0,
         DATALEN = word_of_int k, WND = rWND (rcvS tcb), SegFlags = pendingFlags tcb\<rparr>
      \<and> 0 \<le> k \<and> k \<le> n \<and> k \<le> uint (maxSend (sndS tcb)) \<and>
      (0 < k \<longrightarrow> txQueuedDataOpen (tcbState tcb)))"
  proof (cases "pendingChallengeAck tcb")
    case True
    with assms(1) show ?thesis by (simp add: PendingSegment_def)
  next
    case False
    define k0 where "k0 = (if \<not> txQueuedDataOpen (tcbState tcb) then 0 else n)"
    define k1 where "k1 = (if k0 > uint (maxSend (sndS tcb)) then uint (maxSend (sndS tcb)) else k0)"
    define k2 where "k2 = (if sMSS (sndS tcb) > 0 \<and> k1 > uint (sMSS (sndS tcb))
                              then uint (sMSS (sndS tcb)) else k1)"
    define k where "k = (if txQueuedDataOpen (tcbState tcb) then k2 else 0)"
    have "seg = \<lparr>SEQ = if HasAny (pendingFlags tcb) FlagRST then rstPtr tcb else sNXT (sndS tcb),
         ACK = if HasAny (pendingFlags tcb) FlagACK then rNXT (rcvS tcb) else 0,
         DATALEN = word_of_int k, WND = rWND (rcvS tcb), SegFlags = pendingFlags tcb\<rparr>"
      using assms(1,3) False
      unfolding PendingSegment_def Let_def k0_def [symmetric] k1_def [symmetric] k2_def [symmetric]
        k_def [symmetric] pendingFlags_def [symmetric]
      by (simp split: if_splits)
    moreover have "0 \<le> k \<and> k \<le> n \<and> k \<le> uint (maxSend (sndS tcb)) \<and>
        (0 < k \<longrightarrow> txQueuedDataOpen (tcbState tcb))"
      using assms(2) by (auto simp: k_def k2_def k1_def k0_def)
    ultimately show ?thesis by blast
  qed
  then show thesis using challenge proposed by blast
qed

lemma proposed_validates:
  assumes "PendingSegment tcb n = Some (seg, True)" "0 \<le> n" "n < 2 ^ 32"
    and "tcbState tcb \<noteq> StateClosed" "w \<le> maxWindow" "psh \<in> {0, FlagPSH}"
    and "\<not> HasPendingRetransmit tcb"
    and "\<not> (HasAny (pending0 tcb) FlagSYN \<and> HasAny (pending0 tcb) FlagFIN)"
    and "HasAny (pending0 tcb) FlagSYN \<or> HasAny (pending0 tcb) FlagFIN \<longrightarrow> n = 0"
  shows "validateOutgoingSegment tcb (seg\<lparr>WND := w, SegFlags := SegFlags seg OR psh\<rparr>) = None"
    and "LEN (seg\<lparr>WND := w, SegFlags := SegFlags seg OR psh\<rparr>) = LEN seg"
proof -
  define seg' where "seg' = seg\<lparr>WND := w, SegFlags := SegFlags seg OR psh\<rparr>"
  have psh: "\<not> bit psh 0" "\<not> bit psh 1" "\<not> bit psh 2" "\<not> bit psh 4"
    using assms(6) by (auto simp: flag_bits)
  have rst: "HasAny (pendingFlags tcb) FlagRST = HasAny (pending0 tcb) FlagRST"
    by (simp add: pendingFlags_def flag_bits bit_simps)
  have len: "LEN seg' = LEN seg"
    using psh by (simp add: seg'_def LEN_bits bit_or_iff)
  have ok: "validateOutgoingSegment tcb seg' = None"
  proof (cases rule: PendingSegment_cases [OF assms(1,2,7)])
    case 1
    then show ?thesis
      using assms(4,5) psh
      by (intro validateOutgoing_in_window)
        (simp_all add: seg'_def MakeChallengeACK_def LEN_bits bit_or_iff flag_bits)
  next
    case (2 k)
    have "uint (maxSend (sndS tcb)) < 2 ^ 32"
      using uint_lt2p [of "maxSend (sndS tcb)"] by simp
    with 2(2,4) have "uint (word_of_int k :: u32) = k"
      by (simp add: uint_word_of_int take_bit_int_eq_self)
    then have k1: "unat (word_of_int k :: u32) = nat k" by (metis nat_uint_eq)
    have k2: "nat k \<le> unat (sWND (sndS tcb))"
      using 2(4) maxSend_le [of "sndS tcb"] by (simp add: nat_le_iff word_le_def)
    note k = k1 k2
    have flags: "bit (pendingFlags tcb) 0 = HasAny (pending0 tcb) FlagFIN"
        "bit (pendingFlags tcb) 1 = HasAny (pending0 tcb) FlagSYN"
      by (simp_all add: pendingFlags_def flag_bits bit_simps)
    have kn: "k = 0 \<or> \<not> HasAny (pending0 tcb) FlagSYN \<and> \<not> HasAny (pending0 tcb) FlagFIN"
      using assms(9) 2(2,3) by auto
    have len_le: "unat (LEN seg) \<le> unat (sWND (sndS tcb))" if "sWND (sndS tcb) > 0"
    proof -
      have "1 \<le> unat (sWND (sndS tcb))" using that by (simp add: word_less_nat_alt)
      then show ?thesis
        using kn k assms(8) by (auto simp: LEN_bits 2(1) flags simp del: One_nat_def)
    qed
    show ?thesis
    proof (rule validateOutgoing_in_window)
      show "tcbState tcb \<noteq> StateClosed" by fact
      show "WND seg' \<le> maxWindow" using assms(5) by (simp add: seg'_def)
      show "ACK seg' = rNXT (rcvS tcb)" if "HasAny (SegFlags seg') FlagACK"
        using that psh by (simp add: seg'_def 2(1) flag_bits bit_or_iff)
      show "tcbState tcb \<noteq> StateFinWait2" if "DATALEN seg' > 0"
      proof -
        have "k \<noteq> 0" using that by (auto simp: seg'_def 2(1))
        then show ?thesis using 2(2,5) by (auto simp: state_preds)
      qed
      show "HasAny (SegFlags seg') FlagRST \<or> SEQ seg' = sNXT (sndS tcb) \<and>
          (DATALEN seg' > 0 \<longrightarrow> sWND (sndS tcb) > 0) \<and>
          (sWND (sndS tcb) > 0 \<longrightarrow> unat (LEN seg') \<le> unat (sWND (sndS tcb)))"
      proof (cases "HasAny (pendingFlags tcb) FlagRST")
        case True
        then show ?thesis by (simp add: seg'_def 2(1) flag_bits bit_or_iff)
      next
        case False
        moreover have "DATALEN seg' > 0 \<longrightarrow> sWND (sndS tcb) > 0"
          using k by (auto simp: seg'_def 2(1) word_less_nat_alt)
        ultimately show ?thesis
          using len_le unfolding len by (simp add: seg'_def 2(1))
      qed
    qed
  qed
  show "validateOutgoingSegment tcb (seg\<lparr>WND := w, SegFlags := SegFlags seg OR psh\<rparr>) = None" using ok by (simp add: seg'_def)
  show "LEN (seg\<lparr>WND := w, SegFlags := SegFlags seg OR psh\<rparr>) = LEN seg" using len by (simp add: seg'_def)
qed



end
