(* ===== verification/Rx_Stream.thy ===== *)
theory Rx_Stream
  imports Reassembly
begin

text \<open>
  The receive path of a connection, the receive ring and the reassembly queue together: the
  bytes handed to the application are the bytes of the stream the peer sent, in order and
  without holes, whatever the order in which its segments arrive.
\<close>

section \<open>Staged segments\<close>

text \<open>
  The stream is \<open>W\<close>. The storage \<open>v\<close> of the ring, read from the oldest unread byte on,
  starts at position \<open>rd\<close> of the stream. A held segment is its position and its length.
\<close>

definition agree :: "bytes \<Rightarrow> nat \<Rightarrow> bytes \<Rightarrow> nat \<Rightarrow> nat \<Rightarrow> bool" where
  "agree W rd v a b \<longleftrightarrow> (\<forall>i. a \<le> i \<and> i < b \<longrightarrow> v ! (i - rd) = W ! i)"

definition seg_of :: "Value \<Rightarrow> nat \<times> nat \<Rightarrow> reasmSeg" where
  "seg_of irs p = \<lparr>segSeq = irs + of_nat (fst p), segN = int (snd p)\<rparr>"

definition apart :: "(nat \<times> nat) list \<Rightarrow> bool" where
  "apart os \<longleftrightarrow> sorted_wrt (\<lambda>p q. fst p + snd p \<le> fst q) os \<and> (\<forall>p \<in> set os. 0 < snd p)"

definition staged :: "bytes \<Rightarrow> nat \<Rightarrow> bytes \<Rightarrow> nat \<times> nat \<Rightarrow> bool" where
  "staged W rd v p \<longleftrightarrow> rd \<le> fst p \<and> fst p - rd + snd p \<le> length v \<and>
     fst p + snd p \<le> length W \<and> agree W rd v (fst p) (fst p + snd p)"

definition rx_buf :: "bytes \<Rightarrow> nat \<Rightarrow> nat \<Rightarrow> ring \<Rightarrow> (nat \<times> nat) list \<Rightarrow> bytes \<Rightarrow> bool" where
  "rx_buf W rd r rx os v \<longleftrightarrow> ring_is rx v (r - rd) \<and> rd \<le> r \<and> r \<le> length W \<and>
     agree W rd v rd r \<and> length v < 2147483648 \<and> (\<forall>p \<in> set os. staged W rd v p) \<and> apart os"

lemma agree_code [code]: "agree W rd v a b \<longleftrightarrow> (\<forall>i \<in> set [a..<b]. v ! (i - rd) = W ! i)"
  by (auto simp: agree_def)

lemma seg_of_sel [simp]:
  "segSeq (seg_of irs p) = irs + of_nat (fst p)" "segN (seg_of irs p) = int (snd p)"
  by (simp_all add: seg_of_def)

lemma rx_bufD:
  assumes "rx_buf W rd r rx os v"
  shows "ring_is rx v (r - rd)" "rd \<le> r" "r \<le> length W" "agree W rd v rd r"
    "length v < 2147483648" "\<And>p. p \<in> set os \<Longrightarrow> staged W rd v p" "apart os" "r \<le> rd + length v"
  using assms ring_isD(5) [of rx v "r - rd"] by (auto simp: rx_buf_def)

lemma agree_patch:
  assumes "agree W rd v a b" "rd \<le> a" "b \<le> rd + length v" "rd \<le> o'" "o' - rd + length p \<le> length v"
    "p = take n (drop o' W)"
  shows "agree W rd (patch (o' - rd) p v) a b"
  unfolding agree_def
proof (intro allI impI)
  fix i assume i: "a \<le> i \<and> i < b"
  have p: "p ! j = W ! (o' + j)" if "j < length p" for j using that assms(6) by auto
  have "i - rd < length v" using assms(2,3) i by linarith
  then show "patch (o' - rd) p v ! (i - rd) = W ! i"
    using assms(1-5) i p [of "i - o'"] by (auto simp: nth_patch agree_def)
qed

lemma agree_patched:
  assumes "rd \<le> o'" "o' - rd + length p \<le> length v" "p = take n (drop o' W)"
  shows "agree W rd (patch (o' - rd) p v) o' (o' + length p)"
  using assms by (auto simp: agree_def nth_patch)

lemma agree_append: "agree W rd v a b \<Longrightarrow> agree W rd v b c \<Longrightarrow> agree W rd v a c"
  by (auto simp: agree_def) (meson not_le_imp_less)

lemma apart_Cons:
  "apart (p # os) \<longleftrightarrow> 0 < snd p \<and> (\<forall>q \<in> set os. fst p + snd p \<le> fst q) \<and> apart os"
  by (auto simp: apart_def)

lemma rx_buf_tail: "rx_buf W rd r rx (p # os) v \<Longrightarrow> rx_buf W rd r rx os v"
  by (auto simp: rx_buf_def apart_Cons)

section \<open>Delivery\<close>

text \<open>
  \<open>run_to\<close>: from position \<open>r\<close> on the held segments cover exactly the bytes up to \<open>r'\<close>.
\<close>

definition run_to :: "(nat \<times> nat) list \<Rightarrow> nat \<Rightarrow> nat \<Rightarrow> bool" where
  "run_to os r r' \<longleftrightarrow>
     (\<forall>i. r \<le> i \<and> i < r' \<longrightarrow> (\<exists>p \<in> set os. fst p \<le> i \<and> i < fst p + snd p)) \<and>
     (\<forall>p \<in> set os. \<not> (fst p \<le> r' \<and> r' < fst p + snd p))"

lemma run_to_Cons:
  assumes "run_to os (r + n) r'" "r + n \<le> r'"
  shows "run_to ((r, n) # os) r r'"
  using assms by (auto simp: run_to_def) (metis leI)

lemma reasm_loop_delivers:
  assumes "rx_buf W rd r rx os v"
  shows "\<exists>r' rx' os'. reasm_loop (map (seg_of irs) os) rx (irs + of_nat r) d =
      (map (seg_of irs) os', rx', d + of_nat (r' - r)) \<and> r \<le> r' \<and> rx_buf W rd r' rx' os' v \<and>
      (\<forall>p \<in> set os'. r' < fst p) \<and> ((\<forall>p \<in> set os. r \<le> fst p) \<longrightarrow> run_to os r r')"
  using assms
proof (induction os arbitrary: r rx d)
  case Nil
  then show ?case by (intro exI [of _ r] exI [of _ rx] exI [of _ "[]"]) (simp add: run_to_def)
next
  case (Cons p os)
  note b = rx_bufD [OF Cons.prems]
  have st: "rd \<le> fst p" "fst p - rd + snd p \<le> length v" "fst p + snd p \<le> length W"
      "agree W rd v (fst p) (fst p + snd p)" "0 < snd p"
    using b(6) [of p] b(7) by (auto simp: staged_def apart_Cons)
  have close: "irs + of_nat (fst p) = irs + of_nat r \<longleftrightarrow> fst p = r"
      "LessThan (irs + of_nat (fst p)) (irs + of_nat r) \<longleftrightarrow> fst p < r"
    using seq_eq_close [of "fst p" r irs] LessThan_close [of "fst p" r irs] st b(2,5,8) by auto
  consider "fst p = r" | "fst p < r" | "r < fst p" by linarith
  then show ?case
  proof cases
    case 1
    let ?r = "r + snd p"
    obtain rx1 where rx1: "ring_Commit rx (int (snd p)) = (rx1, None)" "ring_is rx1 v (r - rd + snd p)"
      using ring_Commit_is [OF b(1) st(5)] st(1,2) 1 by auto
    have "rx_buf W rd ?r rx1 os v"
      using rx1(2) b st 1 agree_append [of W rd v rd r ?r] rx_buf_tail [OF Cons.prems]
      by (auto simp: rx_buf_def)
    from Cons.IH [OF this, of "d + of_nat (snd p)"] obtain r' rx' os' where r':
      "reasm_loop (map (seg_of irs) os) rx1 (irs + of_nat ?r) (d + of_nat (snd p)) =
         (map (seg_of irs) os', rx', d + of_nat (snd p) + of_nat (r' - ?r))" "?r \<le> r'"
      "rx_buf W rd r' rx' os' v" "\<forall>p \<in> set os'. r' < fst p"
      "(\<forall>p \<in> set os. ?r \<le> fst p) \<longrightarrow> run_to os ?r r'"
      by blast
    have "\<forall>p \<in> set os. ?r \<le> fst p" using b(7) 1 by (auto simp: apart_Cons)
    then have "run_to (p # os) r r'" using run_to_Cons [of os r "snd p" r'] r' 1 by (cases p) auto
    moreover have "r' - r = snd p + (r' - ?r)" using r'(2) by simp
    then have "of_nat (snd p) + of_nat (r' - ?r) = (of_nat (r' - r) :: Size)"
      by (simp only: of_nat_add)
    ultimately show ?thesis
      using r' rx1(1) close 1
      by (intro exI [of _ r'] exI [of _ rx'] exI [of _ os']) (auto simp: Add_def add.assoc)
  next
    case 2
    from Cons.IH [OF rx_buf_tail [OF Cons.prems], of d] obtain r' rx' os' where r':
      "reasm_loop (map (seg_of irs) os) rx (irs + of_nat r) d =
         (map (seg_of irs) os', rx', d + of_nat (r' - r))" "r \<le> r'"
      "rx_buf W rd r' rx' os' v" "\<forall>p \<in> set os'. r' < fst p"
      by blast
    then show ?thesis
      using close 2 by (intro exI [of _ r'] exI [of _ rx'] exI [of _ os']) auto
  next
    case 3
    then have "\<forall>q \<in> set (p # os). r < fst q" using b(7) by (fastforce simp: apart_Cons)
    then show ?thesis
      using close 3 Cons.prems by (intro exI [of _ r] exI [of _ rx] exI [of _ "p # os"]) (auto simp: run_to_def)
  qed
qed

section \<open>Storing ahead of the gap\<close>

lemma apart_insert:
  assumes "apart os" "0 < n" "before = takeWhile (\<lambda>p. fst p < o') os" "after = dropWhile (\<lambda>p. fst p < o') os"
    and "before \<noteq> [] \<Longrightarrow> fst (last before) + snd (last before) \<le> o'"
    and "after \<noteq> [] \<Longrightarrow> o' + n \<le> fst (hd after)"
  shows "apart (before @ (o', n) # after)"
proof -
  have os: "os = before @ after" using assms(3,4) by simp
  have s: "sorted_wrt (\<lambda>p q. fst p + snd p \<le> fst q) before" "sorted_wrt (\<lambda>p q. fst p + snd p \<le> fst q) after"
      "\<forall>p \<in> set before. \<forall>q \<in> set after. fst p + snd p \<le> fst q" "\<forall>p \<in> set os. 0 < snd p"
    using assms(1) unfolding os apart_def by (auto simp: sorted_wrt_append)
  have b: "fst p + snd p \<le> o'" if m: "p \<in> set before" for p
  proof -
    obtain bs l where l: "before = bs @ [l]" using m by (cases before rule: rev_cases) auto
    then show ?thesis using s(1) m assms(5) by (auto simp: sorted_wrt_append)
  qed
  have a: "o' + n \<le> fst q" if m: "q \<in> set after" for q
  proof -
    obtain h as where h: "after = h # as" using m by (cases after) auto
    then show ?thesis using s(2) m assms(6) by auto
  qed
  show ?thesis
    using s a b assms(2) unfolding apart_def os by (auto simp: sorted_wrt_append)
qed

text \<open>The state a \<open>store\<close> leaves: what is held is staged ahead of \<open>rcv.NXT\<close>.\<close>

definition rx_rest :: "bytes \<Rightarrow> Value \<Rightarrow> nat \<Rightarrow> nat \<Rightarrow> ring \<Rightarrow> reassembly \<Rightarrow> bool" where
  "rx_rest W irs rd r rx R \<longleftrightarrow> (\<exists>os v. rx_buf W rd r rx os v \<and> held R = map (seg_of irs) os \<and>
     (\<forall>p \<in> set os. r < fst p))"

lemma rx_restI:
  "rx_buf W rd r rx os v \<Longrightarrow> held R = map (seg_of irs) os \<Longrightarrow> \<forall>p \<in> set os. r < fst p \<Longrightarrow>
   rx_rest W irs rd r rx R"
  by (auto simp: rx_rest_def)

lemma rx_buf_insert:
  assumes b: "rx_buf W rd r rx os v" and p: "p = take n (drop o' W)" "p \<noteq> []"
    and o': "r < o'" "o' - rd + length p \<le> length v"
    and rx': "ring_is rx' (patch (o' - rd) p v) (r - rd)"
    and ap: "apart (before @ (o', length p) # after)" and os: "os = before @ after"
  shows "rx_buf W rd r rx' (before @ (o', length p) # after) (patch (o' - rd) p v)"
proof -
  note d = rx_bufD [OF b]
  have rd: "rd \<le> o'" using d(2) o'(1) by simp
  have "o' + length p \<le> length W" using p by auto
  then have "staged W rd (patch (o' - rd) p v) (o', length p)"
    using agree_patched [OF rd o'(2) p(1)] rd o'(2) by (simp add: staged_def)
  moreover have "staged W rd (patch (o' - rd) p v) q" if "q \<in> set os" for q
    using d(6) [OF that] agree_patch [OF _ _ _ rd o'(2) p(1)] o'(2) by (auto simp: staged_def)
  ultimately show ?thesis
    using d ap o'(2) rx' agree_patch [OF d(4) _ d(8) rd o'(2) p(1)] os by (auto simp: rx_buf_def)
qed

text \<open>\<open>store\<close> on a segment that fits, with the sequence numbers read as positions.\<close>

lemma reasm_store_at:
  assumes b: "rx_buf W rd r rx os v" and held: "held R = map (seg_of irs) os"
    and o': "r < o'" "o' - rd + length p \<le> length v" and p: "p \<noteq> []"
    and R: "reasm_enabled R" "int (length (held R)) < heldCap R"
  defines "before \<equiv> takeWhile (\<lambda>q. fst q < o') os" and "after \<equiv> dropWhile (\<lambda>q. fst q < o') os"
  shows "reasm_store R rx (irs + of_nat r) (irs + of_nat o') p =
    (if before \<noteq> [] \<and> o' < fst (last before) + snd (last before) then Some (R, rx, False)
     else if after \<noteq> [] \<and> fst (hd after) = o' then Some (R, rx, True)
     else if after \<noteq> [] \<and> fst (hd after) < o' + length p then Some (R, rx, False)
     else map_option (\<lambda>(rx, ok). (if ok then R\<lparr>held := map (seg_of irs) (before @ (o', length p) # after)\<rparr> else R, rx, ok))
       (ring_PeekWrite rx p (int (o' - r))))"
proof -
  note d = rx_bufD [OF b]
  have "unat (Sizeof (irs + of_nat r) (irs + of_nat o')) = o' - r"
    unfolding Sizeof_def using o' d(2,5) by (intro unat_diff_close) auto
  then have gap: "uint (Sizeof (irs + of_nat r) (irs + of_nat o')) = int (o' - r)" by (metis uint_nat)
  have free: "int (o' - r) + int (length p) \<le> ring_Free rx"
    using ring_isD(6) [OF d(1)] o' d(2,8) by auto
  have bnd: "fst q + snd q \<le> rd + length v" "rd \<le> fst q" if "q \<in> set os" for q
    using d(6) [OF that] by (auto simp: staged_def)
  have lt: "LessThan (irs + of_nat (fst q)) (irs + of_nat o') \<longleftrightarrow> fst q < o'"
    and lo: "LessThan (irs + of_nat o') (irs + of_nat (fst q) + of_nat (snd q)) \<longleftrightarrow> o' < fst q + snd q"
    and hi: "LessThan (irs + of_nat (fst q)) (irs + of_nat o' + of_nat (length p)) \<longleftrightarrow> fst q < o' + length p"
    and eq: "irs + of_nat (fst q) = irs + of_nat o' \<longleftrightarrow> fst q = o'" if "q \<in> set os" for q
    using bnd [OF that] o' d(2,5) LessThan_close [of "fst q" o' irs] seq_eq_close [of "fst q" o' irs]
      LessThan_close [of o' "fst q + snd q" irs] LessThan_close [of "fst q" "o' + length p" irs]
    by (simp_all add: add.assoc)
  let ?lt = "\<lambda>h. LessThan (segSeq h) (irs + of_nat o')"
  have os: "os = before @ after" by (simp add: before_def after_def)
  have split: "takeWhile ?lt (held R) = map (seg_of irs) before" "dropWhile ?lt (held R) = map (seg_of irs) after"
    unfolding before_def after_def held takeWhile_map dropWhile_map
    using lt by (auto intro!: arg_cong [of _ _ "map (seg_of irs)"] takeWhile_cong dropWhile_cong simp: o_def)
  have ends: "before \<noteq> [] \<Longrightarrow> last before \<in> set os" "after \<noteq> [] \<Longrightarrow> hd after \<in> set os"
    unfolding os by simp_all
  show ?thesis
    using R p gap free lo [OF ends(1)] hi [OF ends(2)] eq [OF ends(2)]
    by (auto simp: reasm_store_def split Let_def Add_def last_map hd_map seg_of_def
        split: bind_splits)
qed

lemma reasm_store_fitting:
  assumes b: "rx_buf W rd r rx os v" and held: "held R = map (seg_of irs) os" and ahead: "\<forall>q \<in> set os. r < fst q"
    and p: "p = take n (drop o' W)" "p \<noteq> []"
    and o': "r < o'" "o' - rd + length p \<le> length v"
    and R: "reasm_enabled R" "int (length (held R)) < heldCap R"
  shows "\<exists>R' rx' ok. reasm_store R rx (irs + of_nat r) (irs + of_nat o') p = Some (R', rx', ok) \<and>
    rx_rest W irs rd r rx' R'"
proof -
  define before after where "before = takeWhile (\<lambda>q. fst q < o') os" and "after = dropWhile (\<lambda>q. fst q < o') os"
  note at = reasm_store_at [OF b held o' p(2) R, folded before_def after_def]
  note d = rx_bufD [OF b]
  have rest: "rx_rest W irs rd r rx R" using b held ahead by (rule rx_restI)
  have os: "os = before @ after" by (simp add: before_def after_def)
  show ?thesis
  proof (cases "before \<noteq> [] \<and> o' < fst (last before) + snd (last before) \<or>
      after \<noteq> [] \<and> fst (hd after) < o' + length p")
    case True
    then show ?thesis using rest at by (auto simp del: ex_simps)
  next
    case False
    obtain rx' where rx': "ring_PeekWrite rx p (int (o' - r)) = Some (rx', True)"
        "ring_is rx' (patch (o' - rd) p v) (r - rd)"
      using ring_PeekWrite_is [OF d(1), of "o' - r" p] o' d(2) by auto
    have "apart (before @ (o', length p) # after)"
      using False p(2) by (intro apart_insert [OF d(7) _ before_def after_def]) auto
    then have "rx_buf W rd r rx' (before @ (o', length p) # after) (patch (o' - rd) p v)"
      by (rule rx_buf_insert [OF b p o' rx'(2) _ os])
    then have "rx_rest W irs rd r rx' (R\<lparr>held := map (seg_of irs) (before @ (o', length p) # after)\<rparr>)"
      using ahead o'(1) unfolding os by (intro rx_restI) auto
    moreover have "after \<noteq> [] \<Longrightarrow> fst (hd after) \<noteq> o'" using False p(2) by auto
    ultimately show ?thesis using False rx'(1) at by auto
  qed
qed

lemma reasm_store_stages:
  assumes rest: "rx_rest W irs rd r rx R"
    and p: "p = take n (drop o' W)" and near: "r < o' + 2147483648" "o' < r + 2147483648" "o' \<noteq> r"
  shows "\<exists>R' rx' ok. reasm_store R rx (irs + of_nat r) (irs + of_nat o') p = Some (R', rx', ok) \<and>
    rx_rest W irs rd r rx' R'"
proof -
  obtain os v where b: "rx_buf W rd r rx os v" and held: "held R = map (seg_of irs) os"
    and ahead: "\<forall>p \<in> set os. r < fst p"
    using rest by (auto simp: rx_rest_def)
  note d = rx_bufD [OF b]
  let ?gap = "uint (Sizeof (irs + of_nat r) (irs + of_nat o'))"
  show ?thesis
  proof (cases "\<not> reasm_enabled R \<or> p = [] \<or> int (length (held R)) \<ge> heldCap R \<or>
      ?gap + int (length p) > ring_Free rx")
    case True
    then have "reasm_store R rx (irs + of_nat r) (irs + of_nat o') p = Some (R, rx, False)"
      by (auto simp: reasm_store_def)
    then show ?thesis using rest by blast
  next
    case False
    then have fit: "?gap + int (length p) \<le> int (length v - (r - rd))"
      using ring_isD(6) [OF d(1)] by auto
    have ahead': "r < o'"
    proof (rule ccontr)
      assume "\<not> r < o'"
      then have "unat (Sizeof (irs + of_nat r) (irs + of_nat o')) = 4294967296 - (r - o')"
        unfolding Sizeof_def using near by (intro unat_diff_behind) auto
      then have "?gap = int (4294967296 - (r - o'))" by (metis uint_nat)
      then show False using fit near(1) d(5) by linarith
    qed
    then have "unat (Sizeof (irs + of_nat r) (irs + of_nat o')) = o' - r"
      unfolding Sizeof_def using near by (intro unat_diff_close) auto
    then have "?gap = int (o' - r)" by (metis uint_nat)
    then have "o' - rd + length p \<le> length v" using fit ahead' d(2,8) by auto
    with False ahead' show ?thesis by (intro reasm_store_fitting [OF b held ahead p]) auto
  qed
qed

section \<open>In-order arrival and reading\<close>

lemma in_order_delivers:
  assumes rest: "rx_rest W irs rd r rx R"
    and p: "p = take n (drop r W)" "p \<noteq> []" and fit: "int (length p) \<le> ring_Free rx"
  shows "\<exists>rx1 R' rx' d r'. ring_Write rx p = Some (rx1, int (length p), None) \<and>
    reassemble R rx1 (irs + of_nat (r + length p)) = (R', rx', d) \<and> r + length p \<le> r' \<and>
    d = of_nat (r' - (r + length p)) \<and> rx_rest W irs rd r' rx' R'"
proof -
  obtain os v where b: "rx_buf W rd r rx os v" and held: "held R = map (seg_of irs) os"
    using rest by (auto simp: rx_rest_def)
  note d = rx_bufD [OF b]
  have len: "r - rd + length p \<le> length v" using fit ring_isD(5,6) [OF d(1)] by simp
  obtain rx1 where rx1: "ring_Write rx p = Some (rx1, int (length p), None)"
      "ring_is rx1 (patch (r - rd) p v) (r - rd + length p)"
    using ring_Write_is [OF d(1) p(2) len] by blast
  have pa: "agree W rd (patch (r - rd) p v) a e" if "agree W rd v a e" "rd \<le> a" "e \<le> rd + length v" for a e
    using that d(2) len p(1) by (rule agree_patch)
  have "agree W rd (patch (r - rd) p v) rd (r + length p)"
    using pa [OF d(4) _ d(8)] agree_patched [OF d(2) len p(1)] agree_append by blast
  moreover have "staged W rd (patch (r - rd) p v) q" if "q \<in> set os" for q
    using d(6) [OF that] pa len by (auto simp: staged_def)
  moreover have "r + length p \<le> length W" using p by auto
  ultimately have "rx_buf W rd (r + length p) rx1 os (patch (r - rd) p v)"
    using d(2,5,7) rx1(2) len by (simp add: rx_buf_def)
  from reasm_loop_delivers [OF this, of irs 0] obtain r' rx' os' where r':
    "reasm_loop (map (seg_of irs) os) rx1 (irs + of_nat (r + length p)) 0 =
       (map (seg_of irs) os', rx', 0 + of_nat (r' - (r + length p)))" "r + length p \<le> r'"
    "rx_buf W rd r' rx' os' (patch (r - rd) p v)" "\<forall>p \<in> set os'. r' < fst p"
    by blast
  then have "reassemble R rx1 (irs + of_nat (r + length p)) =
      (R\<lparr>held := map (seg_of irs) os'\<rparr>, rx', of_nat (r' - (r + length p)))"
    by (simp add: reassemble_def held)
  moreover have "rx_rest W irs rd r' rx' (R\<lparr>held := map (seg_of irs) os'\<rparr>)"
    using r'(3,4) by (intro rx_restI) auto
  ultimately show ?thesis using rx1(1) r'(2) by blast
qed

lemma agree_rot:
  assumes "agree W rd v a b" "rd + k \<le> a" "b \<le> rd + length v"
  shows "agree W (rd + k) (rot k v) a b"
  unfolding agree_def
proof (intro allI impI)
  fix i assume i: "a \<le> i \<and> i < b"
  then have "i - (rd + k) < length (drop k v)" "k + (i - (rd + k)) = i - rd" using assms by auto
  then show "rot k v ! (i - (rd + k)) = W ! i"
    using assms i by (auto simp: rot_def nth_append agree_def)
qed

lemma rx_read:
  assumes rest: "rx_rest W irs rd r rx R" and k: "0 < k" "rd < r"
  shows "\<exists>rx' b. ring_Read rx k = Some (rx', b, None) \<and> b = take k (drop rd (take r W)) \<and> b \<noteq> [] \<and>
    rx_rest W irs (rd + length b) r rx' R"
proof -
  obtain os v where b: "rx_buf W rd r rx os v" and held: "held R = map (seg_of irs) os"
    and ahead: "\<forall>p \<in> set os. r < fst p"
    using rest by (auto simp: rx_rest_def)
  note d = rx_bufD [OF b]
  define m where "m = min k (r - rd)"
  have m: "0 < m" "rd + m \<le> r" using k by (auto simp: m_def)
  obtain rx' where rx': "ring_Read rx k = Some (rx', take m v, None)" "ring_is rx' (rot m v) (r - rd - m)"
    using ring_Read_is [OF d(1) k(1)] k(2) by (auto simp: m_def)
  have bytes: "take m v = take k (drop rd (take r W))"
    using d(3,4,8) by (auto simp: list_eq_iff_nth_eq m_def agree_def)
      (metis add.commute add_diff_cancel_left' le_add2 less_diff_conv)
  have "agree W (rd + m) (rot m v) (rd + m) r"
    using d(4,8) m by (intro agree_rot) (auto simp: agree_def)
  moreover have "staged W (rd + m) (rot m v) q" if "q \<in> set os" for q
    using d(6) [OF that] ahead that m agree_rot [of W rd v "fst q" "fst q + snd q" m]
    by (fastforce simp: staged_def)
  ultimately have "rx_buf W (rd + m) r rx' os (rot m v)"
    using d rx'(2) m by (simp add: rx_buf_def)
  then have "rx_rest W irs (rd + m) r rx' R" using held ahead by (rule rx_restI)
  moreover have "length (take m v) = m" using d(8) m by simp
  ultimately show ?thesis using rx'(1) bytes m by (metis list.size(3) nat_less_le)
qed

section \<open>The receive path\<close>

text \<open>
  The data path of \<open>Handler.Recv\<close> and \<open>Handler.Read\<close>: in-order data is written to the ring
  and followed by what it makes contiguous, other data is offered to \<open>store\<close>, a read is
  followed by another attempt to deliver. \<open>rxOut\<close> collects what the application has read.
\<close>

record receiver =
  rxRing :: ring
  rxReasm :: reassembly
  rxNxt :: Value
  rxOut :: bytes

definition rx_deliver :: "receiver \<Rightarrow> receiver" where
  "rx_deliver s = (let (R, rx, d) = reassemble (rxReasm s) (rxRing s) (rxNxt s)
     in s\<lparr>rxRing := rx, rxReasm := R, rxNxt := UpdateForward (rxNxt s) d\<rparr>)"

definition rx_arrive :: "receiver \<Rightarrow> Value \<Rightarrow> bytes \<Rightarrow> receiver option" where
  "rx_arrive s seq payload =
     (if payload = [] then Some s
      else if seq = rxNxt s then
        (if int (length payload) > ring_Free (rxRing s) then Some s
         else do {
           (rx, n, err) \<leftarrow> ring_Write (rxRing s) payload;
           if err \<noteq> None then Some s
           else Some (rx_deliver (s\<lparr>rxRing := rx,
                  rxNxt := UpdateForward (rxNxt s) (of_nat (length payload))\<rparr>))
         })
      else do {
        (R, rx, ok) \<leftarrow> reasm_store (rxReasm s) (rxRing s) (rxNxt s) seq payload;
        Some (s\<lparr>rxRing := rx, rxReasm := R\<rparr>)
      })"

definition rx_read_op :: "receiver \<Rightarrow> nat \<Rightarrow> receiver option" where
  "rx_read_op s k = do {
     (rx, b, err) \<leftarrow> ring_Read (rxRing s) k;
     if b = [] then Some s
     else Some (rx_deliver (s\<lparr>rxRing := rx, rxOut := rxOut s @ b\<rparr>))
   }"

text \<open>
  The network delivers any part of the stream at any time, again and overlapping, as long
  as it is less than \<open>2^31\<close> bytes away from \<open>rcv.NXT\<close> (sequence numbers repeat: an older
  copy cannot be told from new data, which the maximum segment lifetime excludes).
\<close>

datatype rx_op = Arrive nat nat | Take nat

definition rx_pos :: "receiver \<Rightarrow> nat" where
  "rx_pos s = length (rxOut s) + length (ring_contents (rxRing s))"

fun rx_step :: "bytes \<Rightarrow> Value \<Rightarrow> receiver \<Rightarrow> rx_op \<Rightarrow> receiver option" where
  "rx_step W irs s (Arrive o' n) =
     (if \<bar>int o' - int (rx_pos s)\<bar> < 2147483648
      then rx_arrive s (irs + of_nat o') (take n (drop o' W)) else Some s)"
| "rx_step W irs s (Take k) = rx_read_op s k"

fun rx_run :: "bytes \<Rightarrow> Value \<Rightarrow> receiver \<Rightarrow> rx_op list \<Rightarrow> receiver option" where
  "rx_run W irs s [] = Some s"
| "rx_run W irs s (op # ops) = do { s \<leftarrow> rx_step W irs s op; rx_run W irs s ops }"

definition rx_ok :: "bytes \<Rightarrow> Value \<Rightarrow> receiver \<Rightarrow> bool" where
  "rx_ok W irs s \<longleftrightarrow> rx_rest W irs (length (rxOut s)) (rx_pos s) (rxRing s) (rxReasm s) \<and>
     rxNxt s = irs + of_nat (rx_pos s) \<and> rxOut s @ ring_contents (rxRing s) = take (rx_pos s) W"

lemma rx_rest_contents:
  assumes "rx_rest W irs rd r rx R"
  shows "ring_contents rx = take (r - rd) (drop rd W)" "length (ring_contents rx) = r - rd" "rd \<le> r" "r \<le> length W"
proof -
  obtain os v where b: "rx_buf W rd r rx os v" using assms by (auto simp: rx_rest_def)
  note d = rx_bufD [OF b]
  have c: "ring_contents rx = take (r - rd) v" using d(1) by (rule ring_is_contents)
  then show "length (ring_contents rx) = r - rd" using d(8) by auto
  show "ring_contents rx = take (r - rd) (drop rd W)"
    unfolding c using d(2,3,4,8) by (auto simp: list_eq_iff_nth_eq agree_def)
      (metis add.commute add_diff_cancel_left' le_add2 less_diff_conv)
qed (use assms in \<open>auto simp: rx_rest_def rx_buf_def\<close>)

lemma rx_okI:
  assumes "rx_rest W irs (length (rxOut s)) r (rxRing s) (rxReasm s)" "rxNxt s = irs + of_nat r"
    "rxOut s = take (length (rxOut s)) W"
  shows "rx_ok W irs s \<and> rx_pos s = r"
proof -
  note c = rx_rest_contents [OF assms(1)]
  have "rx_pos s = r" using c(2,3) by (simp add: rx_pos_def)
  moreover have "rxOut s @ ring_contents (rxRing s) = take r W"
    using c(1,3) assms(3) take_add [of "length (rxOut s)" "r - length (rxOut s)" W] by simp
  ultimately show ?thesis using assms by (simp add: rx_ok_def)
qed

lemma rx_okD:
  assumes "rx_ok W irs s"
  shows "rx_rest W irs (length (rxOut s)) (rx_pos s) (rxRing s) (rxReasm s)"
    "rxNxt s = irs + of_nat (rx_pos s)" "rxOut s @ ring_contents (rxRing s) = take (rx_pos s) W"
    "rxOut s = take (length (rxOut s)) W" "length (rxOut s) \<le> rx_pos s" "rx_pos s \<le> length W"
proof -
  show "rxOut s = take (length (rxOut s)) W"
    using assms by (simp add: rx_ok_def) (metis append_eq_conv_conj min.absorb1 rx_pos_def le_add1 take_take)
qed (use assms rx_rest_contents(4) in \<open>auto simp: rx_ok_def rx_pos_def\<close>)

lemma rx_arrive_ok:
  assumes "rx_ok W irs s" "rx_pos s < o' + 2147483648" "o' < rx_pos s + 2147483648"
  shows "\<exists>s'. rx_arrive s (irs + of_nat o') (take n (drop o' W)) = Some s' \<and> rx_ok W irs s'"
proof -
  note k = rx_okD [OF assms(1)]
  define p r where "p = take n (drop o' W)" and "r = rx_pos s"
  have eq: "irs + of_nat o' = rxNxt s \<longleftrightarrow> o' = r"
    unfolding k(2) r_def using assms(2,3) by (intro seq_eq_close) auto
  show ?thesis
  proof (cases "o' = r \<and> p \<noteq> [] \<and> int (length p) \<le> ring_Free (rxRing s)")
    case True
    then obtain rx1 R' rx' d r' where a: "ring_Write (rxRing s) p = Some (rx1, int (length p), None)"
      "reassemble (rxReasm s) rx1 (irs + of_nat (r + length p)) = (R', rx', d)" "r + length p \<le> r'"
      "d = of_nat (r' - (r + length p))" "rx_rest W irs (length (rxOut s)) r' rx' R'"
      using in_order_delivers [OF k(1), of p n] p_def r_def by blast
    have n: "irs + of_nat (r + length p) + d = irs + of_nat r'"
      using a(3,4) by (metis add.assoc le_add_diff_inverse of_nat_add)
    let ?s = "s\<lparr>rxRing := rx', rxReasm := R', rxNxt := irs + of_nat r'\<rparr>"
    have "rx_arrive s (irs + of_nat o') p = Some ?s"
      using True a(1,2) eq n k(2)
      by (simp add: rx_arrive_def rx_deliver_def UpdateForward_def add.assoc flip: r_def)
    moreover have "rx_ok W irs ?s" using rx_okI [of W irs ?s r'] a(5) k(4) by simp
    ultimately show ?thesis by (simp add: p_def)
  next
    case False
    show ?thesis
    proof (cases "o' = r \<or> p = []")
      case True
      then have "rx_arrive s (irs + of_nat o') p = Some s" using False eq by (auto simp: rx_arrive_def)
      then show ?thesis using assms(1) by (simp add: p_def)
    next
      case neq: False
      then obtain R' rx' ok where a: "reasm_store (rxReasm s) (rxRing s) (irs + of_nat r) (irs + of_nat o') p =
          Some (R', rx', ok)" "rx_rest W irs (length (rxOut s)) r rx' R'"
        using reasm_store_stages [OF k(1) p_def assms(2,3)] r_def by blast
      have "rx_arrive s (irs + of_nat o') p = Some (s\<lparr>rxRing := rx', rxReasm := R'\<rparr>)"
        using neq eq a(1) k(2) by (auto simp: rx_arrive_def r_def)
      moreover have "rx_ok W irs (s\<lparr>rxRing := rx', rxReasm := R'\<rparr>)"
        using rx_okI [of W irs "s\<lparr>rxRing := rx', rxReasm := R'\<rparr>" r] a(2) k(2,4) r_def by simp
      ultimately show ?thesis by (simp add: p_def)
    qed
  qed
qed

lemma rx_deliver_ok:
  assumes "rx_ok W irs s"
  shows "rx_ok W irs (rx_deliver s)"
proof -
  note k = rx_okD [OF assms]
  obtain os v where b: "rx_buf W (length (rxOut s)) (rx_pos s) (rxRing s) os v"
    and held: "held (rxReasm s) = map (seg_of irs) os"
    using k(1) by (auto simp: rx_rest_def)
  from reasm_loop_delivers [OF b, of irs 0] obtain r' rx' os' where r':
    "reasm_loop (map (seg_of irs) os) (rxRing s) (irs + of_nat (rx_pos s)) 0 =
       (map (seg_of irs) os', rx', 0 + of_nat (r' - rx_pos s))" "rx_pos s \<le> r'"
    "rx_buf W (length (rxOut s)) r' rx' os' v" "\<forall>p \<in> set os'. r' < fst p"
    by blast
  have n: "irs + of_nat (rx_pos s) + of_nat (r' - rx_pos s) = irs + of_nat r'"
    using r'(2) by (metis add.assoc le_add_diff_inverse of_nat_add)
  have "rx_rest W irs (length (rxOut s)) r' rx' (rxReasm s\<lparr>held := map (seg_of irs) os'\<rparr>)"
    using r'(3,4) by (intro rx_restI) auto
  then have "rx_ok W irs (s\<lparr>rxRing := rx', rxReasm := rxReasm s\<lparr>held := map (seg_of irs) os'\<rparr>,
      rxNxt := irs + of_nat r'\<rparr>)" (is "rx_ok W irs ?s")
    using rx_okI [of W irs ?s r'] k(4) by simp
  moreover have "rx_deliver s = ?s"
    using r'(1) n k(2) held by (simp add: rx_deliver_def reassemble_def UpdateForward_def add.assoc)
  ultimately show ?thesis by simp
qed

lemma rx_read_ok:
  assumes "rx_ok W irs s"
  shows "\<exists>s'. rx_read_op s k = Some s' \<and> rx_ok W irs s'"
proof -
  note d = rx_okD [OF assms]
  obtain os v where "rx_buf W (length (rxOut s)) (rx_pos s) (rxRing s) os v"
    using d(1) by (auto simp: rx_rest_def)
  then have is': "ring_is (rxRing s) v (rx_pos s - length (rxOut s))" by (simp add: rx_buf_def)
  show ?thesis
  proof (cases "0 < k \<and> length (rxOut s) < rx_pos s")
    case True
    then obtain rx' b where r: "ring_Read (rxRing s) k = Some (rx', b, None)"
      "b = take k (drop (length (rxOut s)) (take (rx_pos s) W))" "b \<noteq> []"
      "rx_rest W irs (length (rxOut s) + length b) (rx_pos s) rx' (rxReasm s)"
      using rx_read [OF d(1), of k] by blast
    let ?s = "s\<lparr>rxRing := rx', rxOut := rxOut s @ b\<rparr>"
    have "b = take (length b) (drop (length (rxOut s)) W)"
      using r(2) by (simp add: drop_take min_def)
    then have "rxOut ?s = take (length (rxOut ?s)) W"
      using d(4) take_add [of "length (rxOut s)" "length b" W] by simp
    moreover have "rx_rest W irs (length (rxOut ?s)) (rx_pos s) (rxRing ?s) (rxReasm ?s)"
      "rxNxt ?s = irs + of_nat (rx_pos s)"
      using r(4) d(2) by simp_all
    ultimately have "rx_ok W irs ?s" using rx_okI by blast
    then show ?thesis using r(1,3) rx_deliver_ok by (simp add: rx_read_op_def)
  next
    case False
    then show ?thesis
      using ring_Read_nothing [OF is', of k] d(5) assms by (auto simp: rx_read_op_def)
  qed
qed

text \<open>
  C18. However the segments of a byte stream arrive, out of order, duplicated or overlapping,
  and however the application reads, no operation of the ring or the reassembly queue
  panics, and what has been read followed by what is readable is always the prefix of the
  stream up to \<open>rcv.NXT\<close>.
\<close>

theorem rx_stream_in_order:
  assumes "ring_is rx v 0" "length (Buf rx) < 2147483648" "held R = []"
  shows "\<exists>s. rx_run W irs \<lparr>rxRing = rx, rxReasm = R, rxNxt = irs, rxOut = []\<rparr> ops = Some s \<and>
    rxNxt s = irs + of_nat (rx_pos s) \<and> rxOut s @ ring_contents (rxRing s) = take (rx_pos s) W"
proof -
  have run: "\<exists>s'. rx_run W irs s ops = Some s' \<and> rx_ok W irs s'" if "rx_ok W irs s" for s
    using that
  proof (induction ops arbitrary: s)
    case (Cons op ops)
    have "\<exists>s'. rx_step W irs s op = Some s' \<and> rx_ok W irs s'"
      using Cons.prems rx_arrive_ok rx_read_ok by (cases op) (auto simp: abs_less_iff)
    then show ?case using Cons.IH by auto
  qed simp
  let ?s = "\<lparr>rxRing = rx, rxReasm = R, rxNxt = irs, rxOut = []\<rparr>"
  have "rx_buf W 0 0 rx [] v"
    using assms ring_isD(4) [OF assms(1)] by (simp add: rx_buf_def agree_def apart_def)
  then have "rx_rest W irs 0 0 rx R" using assms(3) by (intro rx_restI) auto
  then have "rx_ok W irs ?s" using rx_okI [of W irs ?s 0] by simp
  from run [OF this] show ?thesis using rx_okD(2,3) by blast
qed

definition demoWords :: bytes where
  "demoWords = [1, 2, 3, 4, 5, 6, 7, 8, 9, 10]"

definition demoRx :: ring where
  "demoRx = \<lparr>Buf = [0, 0, 0, 0, 0, 0, 0, 0], Off = 5, End = 0\<rparr>"

lemma demoRx_is: "ring_is demoRx [0, 0, 0, 0, 0, 0, 0, 0] 0"
  by code_simp

theorem rx_stream_in_order_witness:
  "\<exists>s. rx_run demoWords 4294967290 \<lparr>rxRing = demoRx, rxReasm = \<lparr>held = [], heldCap = 8\<rparr>,
       rxNxt = 4294967290, rxOut = []\<rparr>
       [Arrive 6 2, Arrive 2 3, Arrive 0 2, Take 3, Arrive 4 3, Arrive 5 1, Take 1, Arrive 8 2] = Some s \<and>
     rxNxt s = 4 \<and> rxOut s @ ring_contents (rxRing s) = demoWords"
proof -
  let ?s = "\<lparr>rxRing = demoRx, rxReasm = \<lparr>held = [], heldCap = 8\<rparr>, rxNxt = 4294967290, rxOut = []\<rparr>"
  let ?ops = "[Arrive 6 2, Arrive 2 3, Arrive 0 2, Take 3, Arrive 4 3, Arrive 5 1, Take 1, Arrive 8 2]"
  obtain s where s: "rx_run demoWords 4294967290 ?s ?ops = Some s"
    "rxNxt s = 4294967290 + of_nat (rx_pos s)" "rxOut s @ ring_contents (rxRing s) = take (rx_pos s) demoWords"
    using rx_stream_in_order [OF demoRx_is, of "\<lparr>held = [], heldCap = 8\<rparr>" demoWords 4294967290 ?ops]
    by (auto simp: demoRx_def)
  have "map_option rx_pos (rx_run demoWords 4294967290 ?s ?ops) = Some 10" by code_simp
  then show ?thesis using s by (simp add: demoWords_def)
qed

text \<open>
  C19. Delivery stops only at a real gap: when no held segment starts before the next expected
  byte, \<open>reassemble\<close> advances over exactly the chain of held segments that follow on one another
  from there, puts their bytes into the readable part of the ring and keeps the segments that
  start beyond the new position.
\<close>

theorem reassemble_to_the_gap:
  assumes "rx_buf W rd r rx os v" "\<forall>p \<in> set os. r \<le> fst p" "held R = map (seg_of irs) os"
  shows "\<exists>R' rx' r'. reassemble R rx (irs + of_nat r) = (R', rx', of_nat (r' - r)) \<and> r \<le> r' \<and>
    run_to os r r' \<and> rx_rest W irs rd r' rx' R'"
proof -
  from reasm_loop_delivers [OF assms(1), of irs 0] assms(2) obtain r' rx' os' where r':
    "reasm_loop (map (seg_of irs) os) rx (irs + of_nat r) 0 =
       (map (seg_of irs) os', rx', 0 + of_nat (r' - r))" "r \<le> r'"
    "rx_buf W rd r' rx' os' v" "\<forall>p \<in> set os'. r' < fst p" "run_to os r r'"
    by blast
  have "rx_rest W irs rd r' rx' (R\<lparr>held := map (seg_of irs) os'\<rparr>)"
    using r'(3,4) by (intro rx_restI) auto
  moreover have "reassemble R rx (irs + of_nat r) = (R\<lparr>held := map (seg_of irs) os'\<rparr>, rx', of_nat (r' - r))"
    using r'(1) assms(3) by (simp add: reassemble_def)
  ultimately show ?thesis using r'(2,5) by blast
qed

definition demoHeld :: reassembly where
  "demoHeld = \<lparr>held = [\<lparr>segSeq = 1, segN = 2\<rparr>, \<lparr>segSeq = 3, segN = 1\<rparr>, \<lparr>segSeq = 6, segN = 2\<rparr>], heldCap = 8\<rparr>"

definition demoStaged :: ring where
  "demoStaged = \<lparr>Buf = [4, 0, 0, 7, 8, 1, 2, 3], Off = 5, End = 6\<rparr>"

lemma demoStaged_buf:
  "rx_buf demoWords 0 1 demoStaged [(1, 2), (3, 1), (6, 2)] [1, 2, 3, 4, 0, 0, 7, 8]"
proof -
  have "ring_is demoStaged [1, 2, 3, 4, 0, 0, 7, 8] 1" by code_simp
  moreover have "agree demoWords 0 [1, 2, 3, 4, 0, 0, 7, 8] 0 1 \<and>
      (\<forall>p \<in> set [(1, 2), (3, 1), (6, 2)]. staged demoWords 0 [1, 2, 3, 4, 0, 0, 7, 8] p) \<and>
      apart [(1, 2), (3, 1), (6, 2)] \<and> 1 \<le> length demoWords"
    by code_simp
  ultimately show ?thesis by (simp add: rx_buf_def)
qed

theorem reassemble_to_the_gap_witness:
  "\<exists>R' rx'. reassemble demoHeld demoStaged 1 = (R', rx', 3) \<and> rx_rest demoWords 0 0 4 rx' R'"
proof -
  obtain R' rx' r' where r: "reassemble demoHeld demoStaged 1 = (R', rx', of_nat (r' - 1))" "1 \<le> r'"
    "run_to [(1, 2), (3, 1), (6, 2)] 1 r'" "rx_rest demoWords 0 0 r' rx' R'"
    using reassemble_to_the_gap [OF demoStaged_buf, of demoHeld 0] by (auto simp: demoHeld_def seg_of_def)
  have "\<not> 4 < r'" using r(3) unfolding run_to_def by (auto dest!: spec [of _ 4])
  moreover have "\<not> r' < 4" using r(2,3) unfolding run_to_def by auto
  ultimately have "r' = 4" by simp
  then show ?thesis using r by simp
qed

end
