(* ===== verification/Ring_Window.thy ===== *)
theory Ring_Window
  imports Ring
begin

text \<open>
  A second view of the ring buffer, by position: \<open>window xs p u\<close> are the \<open>u\<close> bytes of \<open>xs\<close>
  from position \<open>p\<close> on, positions counting around the buffer. Components that keep several
  regions in one buffer (the transmit queue) are proved with it: regions are intervals of
  positions, and only their distance modulo the buffer length matters.
\<close>

section \<open>Windows of a circular buffer\<close>

definition window :: "'a list \<Rightarrow> nat \<Rightarrow> nat \<Rightarrow> 'a list" where
  "window xs p u = map (\<lambda>i. xs ! ((p + i) mod length xs)) [0..<u]"

lemma length_window [simp]: "length (window xs p u) = u"
  by (simp add: window_def)

lemma window_0 [simp]: "window xs p 0 = []"
  by (simp add: window_def)

lemma window_Nil [simp]: "window xs p u = [] \<longleftrightarrow> u = 0"
  by (simp add: window_def)

lemma window_add: "window xs p (a + b) = window xs p a @ window xs (p + a) b"
  by (rule nth_equalityI) (auto simp: window_def nth_append ac_simps)

lemma window_cong: "p mod length xs = q mod length xs \<Longrightarrow> window xs p u = window xs q u"
  unfolding window_def by (metis (no_types, lifting) mod_add_left_eq)

lemma take_window: "k \<le> u \<Longrightarrow> take k (window xs p u) = window xs p k"
  by (rule nth_equalityI) (auto simp: window_def)

lemma drop_window: "k \<le> u \<Longrightarrow> drop k (window xs p u) = window xs (p + k) (u - k)"
  by (rule nth_equalityI) (auto simp: window_def ac_simps)

lemma nth_rot:
  assumes "p \<le> length xs" "i < length xs"
  shows "rot p xs ! i = xs ! ((p + i) mod length xs)"
proof (cases "p + i < length xs")
  case True
  then show ?thesis by (auto simp: rot_def nth_append)
next
  case False
  then have "(p + i) mod length xs = p + i - length xs"
    using assms by (simp add: mod_if)
  then show ?thesis using False assms by (auto simp: rot_def nth_append ac_simps)
qed

lemma window_rot:
  "p \<le> length xs \<Longrightarrow> u \<le> length xs \<Longrightarrow> window xs p u = take u (rot p xs)"
  by (rule nth_equalityI) (auto simp: window_def nth_rot)

text \<open>Overwriting \<open>b\<close> at distance \<open>u\<close> from \<open>p\<close>: that window becomes \<open>b\<close>, the rest stays.\<close>

lemma window_written:
  assumes "rot p ys = patch u b (rot p xs)" "p \<le> length xs" "length ys = length xs"
    and "u + length b \<le> length xs"
  shows "window ys (p + u) (length b) = b"
    and "k + length b \<le> length xs \<Longrightarrow>
      window ys (p + u + length b) k = window xs (p + u + length b) k"
proof -
  have pt: "ys ! ((p + i) mod length xs) =
      (if u \<le> i \<and> i < u + length b then b ! (i - u) else xs ! ((p + i) mod length xs))"
    if "i < length xs" for i
    using nth_rot [of p ys i] nth_rot [of p xs i] nth_patch [of u b "rot p xs" i] assms that
    by (auto split: if_splits)
  show "window ys (p + u) (length b) = b"
  proof (rule nth_equalityI)
    fix i assume "i < length (window ys (p + u) (length b))"
    then show "window ys (p + u) (length b) ! i = b ! i"
      using pt [of "u + i"] assms(3,4) by (simp add: window_def add.assoc)
  qed simp
  assume k: "k + length b \<le> length xs"
  show "window ys (p + u + length b) k = window xs (p + u + length b) k"
  proof (rule nth_equalityI)
    fix i assume "i < length (window ys (p + u + length b) k)"
    then have i: "i < k" by simp
    define j where "j = (if u + length b + i < length xs then u + length b + i
      else u + length b + i - length xs)"
    have j: "j < length xs" "\<not> (u \<le> j \<and> j < u + length b)"
      using i k assms(4) by (auto simp: j_def)
    have "(p + j) mod length xs = (p + u + length b + i) mod length xs"
    proof (cases "u + length b + i < length xs")
      case True
      then show ?thesis by (simp add: j_def ac_simps)
    next
      case False
      then have "p + u + length b + i = (p + j) + length xs" by (simp add: j_def)
      then show ?thesis by (simp only: mod_add_self2)
    qed
    then show "window ys (p + u + length b) k ! i = window xs (p + u + length b) k ! i"
      using pt [OF j(1)] j(2) i assms(3) by (simp add: window_def)
  qed simp
qed

section \<open>Rings given by offset and fill level\<close>

text \<open>The \<open>End\<close> index of a ring with \<open>u\<close> bytes from \<open>p\<close> on: 0 when empty, else in \<open>1..n\<close>.\<close>

definition end_at :: "nat \<Rightarrow> nat \<Rightarrow> nat \<Rightarrow> nat" where
  "end_at n p u = (if u = 0 then 0 else wrap_end n (p + u))"

definition ring_at :: "bytes \<Rightarrow> nat \<Rightarrow> nat \<Rightarrow> ring" where
  "ring_at xs p u = \<lparr>Buf = xs, Off = int p, End = int (end_at (length xs) p u)\<rparr>"

lemma ring_at_sel [simp]:
  "Buf (ring_at xs p u) = xs" "Off (ring_at xs p u) = int p"
  "End (ring_at xs p u) = int (end_at (length xs) p u)"
  by (simp_all add: ring_at_def)

lemma end_at_0 [simp]: "end_at n p 0 = 0"
  by (simp add: end_at_def)

lemma end_at_eq_0 [simp]: "p \<le> n \<Longrightarrow> end_at n p u = 0 \<longleftrightarrow> u = 0"
  by (auto simp: end_at_def wrap_end_def)

lemma end_at_le: "p \<le> n \<Longrightarrow> u \<le> n \<Longrightarrow> end_at n p u \<le> n"
  by (auto simp: end_at_def wrap_end_def)

lemma end_at_mod: "p \<le> n \<Longrightarrow> u \<le> n \<Longrightarrow> 0 < u \<Longrightarrow> end_at n p u mod n = (p + u) mod n"
  by (auto simp: end_at_def wrap_end_def le_mod_geq)

text \<open>A residue below \<open>2 * n\<close> is one of three numbers; linear arithmetic takes it from there.\<close>

lemma mod_cases:
  assumes "a mod n = b mod n" "a \<le> n" "b \<le> 2 * n" "0 < (n :: nat)"
  shows "a = b \<or> a + n = b \<or> a = b + n \<or> a = 0 \<and> b = 2 * n"
proof -
  consider "b < n" | "n \<le> b" "b < 2 * n" | "b = 2 * n" using assms(3) by linarith
  then show ?thesis
  proof cases
    case 2
    then have "b mod n = b - n" by (simp add: mod_if)
    then show ?thesis using assms 2 by (cases "a = n") auto
  qed (use assms in \<open>cases "a = n"; auto\<close>)+
qed

text \<open>In \<open>1..n\<close> an index is determined by its residue.\<close>

lemma end_unique:
  assumes "0 < a" "a \<le> n" "0 < b" "b \<le> n" "a mod n = b mod n"
  shows "a = (b :: nat)"
proof (cases "a = n \<or> b = n")
  case True
  then show ?thesis using assms by (metis less_le mod_less mod_self not_gr_zero)
next
  case False
  then show ?thesis using assms by simp
qed

lemma end_at_eqI:
  assumes "p \<le> n" "0 < a" "a \<le> n" "p' \<le> n" "0 < b" "b \<le> n" "(p + a) mod n = (p' + b) mod n"
  shows "end_at n p a = end_at n p' b"
proof (rule end_unique [where n = n])
  show "0 < end_at n p a" "0 < end_at n p' b"
    using assms by (simp_all add: neq0_conv [symmetric] del: neq0_conv)
qed (use assms in \<open>simp_all add: end_at_le end_at_mod\<close>)

lemma ring_at_is:
  assumes "p \<le> length xs" "u \<le> length xs"
  shows "ring_is (ring_at xs p u) (rot p xs) u"
  unfolding ring_at_def
  by (rule ring_isI) (use assms in \<open>auto simp: end_at_def wrap_end_def\<close>)

lemma ring_at_contents:
  "p \<le> length xs \<Longrightarrow> u \<le> length xs \<Longrightarrow> ring_contents (ring_at xs p u) = window xs p u"
  using ring_is_contents [OF ring_at_is] by (simp add: window_rot)

lemma ring_Write_at:
  assumes "p \<le> length xs" "b \<noteq> []" "u + length b \<le> length xs"
  obtains ys where "ring_Write (ring_at xs p u) b = Some (ring_at ys p (u + length b), int (length b), None)"
    "length ys = length xs" "window ys (p + u) (length b) = b"
    "\<And>q d k. \<lbrakk>q mod length xs = (p + u + length b + d) mod length xs; d + k + length b \<le> length xs\<rbrakk> \<Longrightarrow>
       window ys q k = window xs q k"
proof -
  have u: "u = (if end_at (length xs) p u = 0 then 0
      else if p < end_at (length xs) p u then end_at (length xs) p u - p
      else length xs - p + end_at (length xs) p u)"
    using assms by (auto simp: end_at_def wrap_end_def)
  obtain ys where ys: "ring_Write (ring_at xs p u) b =
      Some (\<lparr>Buf = ys, Off = int p, End = int (wrap_end (length xs)
        ((if end_at (length xs) p u = 0 then p else end_at (length xs) p u) + length b))\<rparr>,
       int (length b), None)" "length ys = length xs" "rot p ys = patch u b (rot p xs)"
    using ring_Write_nat [OF ring_at_def assms(1) _ assms(2) u assms(3)] assms(1,3) end_at_le
    by (metis add_leD1)
  have "wrap_end (length xs) ((if end_at (length xs) p u = 0 then p else end_at (length xs) p u) + length b)
      = end_at (length xs) p (u + length b)"
    using assms by (cases b) (auto simp: end_at_def wrap_end_def)
  then have "ring_Write (ring_at xs p u) b = Some (ring_at ys p (u + length b), int (length b), None)"
    using ys by (simp add: ring_at_def)
  moreover have "window ys q k = window xs q k"
    if "q mod length xs = (p + u + length b + d) mod length xs" "d + k + length b \<le> length xs" for q d k
  proof -
    have "window ys (p + u + length b + d) k = window xs (p + u + length b + d) k"
      using window_written(2) [OF ys(3) assms(1) ys(2) assms(3), of "d + k"] that(2)
        drop_window [of d "d + k" ys "p + u + length b"] drop_window [of d "d + k" xs "p + u + length b"]
      by simp
    then show ?thesis using that(1) ys(2) window_cong by metis
  qed
  ultimately show thesis
    using that ys(2) window_written(1) [OF ys(3) assms(1) ys(2) assms(3)] by blast
qed

lemma ring_onReadEnd_at:
  assumes "p \<le> length xs" "u \<le> length xs" "0 < m" "m \<le> u"
  obtains r' where "ring_onReadEnd (ring_at xs p u) (int m) = Some r'"
    "m = u \<Longrightarrow> End r' = 0"
    "m < u \<Longrightarrow> \<exists>p'. r' = ring_at xs p' (u - m) \<and> p' \<le> length xs \<and>
       p' mod length xs = (p + m) mod length xs"
proof -
  let ?n = "length xs"
  have no: "ring_addOff (ring_at xs p u) (int p) (int m) = int (wrap_end ?n (p + m))"
    by (auto simp: ring_addOff_def wrap_end_def Let_def)
  have eq: "wrap_end ?n (p + m) = end_at ?n p u \<longleftrightarrow> m = u"
    using assms by (auto simp: end_at_def wrap_end_def)
  show thesis
  proof (cases "m = u")
    case True
    then show thesis
      using that [of "ring_emptied (ring_at xs p u)"] no eq assms(3)
      by (simp add: ring_onReadEnd_def ring_emptied_def Let_def)
  next
    case False
    then have m: "m < u" using assms(4) by simp
    define p' where "p' = (if wrap_end ?n (p + m) = ?n then 0 else wrap_end ?n (p + m))"
    have "end_at ?n p' (u - m) = end_at ?n p u"
      using assms m by (auto simp: p'_def end_at_def wrap_end_def)
    then have "ring_onReadEnd (ring_at xs p u) (int m) = Some (ring_at xs p' (u - m))"
      using no eq False assms(3) by (auto simp: ring_onReadEnd_def p'_def ring_at_def Let_def)
    moreover have "p' \<le> ?n" "p' mod ?n = (p + m) mod ?n"
      using assms m by (auto simp: p'_def wrap_end_def le_mod_geq)
    ultimately show thesis using that m by blast
  qed
qed

lemma ring_Read_at:
  assumes "p \<le> length xs" "u \<le> length xs" "0 < k" "0 < u"
  obtains r' where "ring_Read (ring_at xs p u) k = Some (r', window xs p (min k u), None)"
    "min k u = u \<Longrightarrow> End r' = 0"
    "min k u < u \<Longrightarrow> \<exists>p'. r' = ring_at xs p' (u - min k u) \<and> p' \<le> length xs \<and>
       p' mod length xs = (p + min k u) mod length xs"
proof -
  obtain r' where r': "ring_onReadEnd (ring_at xs p u) (int (min k u)) = Some r'"
    "min k u = u \<Longrightarrow> End r' = 0"
    "min k u < u \<Longrightarrow> \<exists>p'. r' = ring_at xs p' (u - min k u) \<and> p' \<le> length xs \<and>
       p' mod length xs = (p + min k u) mod length xs"
    using ring_onReadEnd_at [OF assms(1,2), of "min k u"] assms(3,4) by (metis min_less_iff_conj min.cobounded2)
  have "ring_Read (ring_at xs p u) k = Some (r', window xs p (min k u), None)"
    using r'(1) assms
    by (simp add: ring_Read_def ring_read_is [OF ring_at_is] window_rot)
  then show thesis using that r'(2,3) by blast
qed

end
