(* ===== verification/Tx_Queue_Props.thy ===== *)
theory Tx_Queue_Props
  imports Tx_Queue Ring_Window
begin

text \<open>
  The transmit ring of \<open>Tx_Queue\<close> implements a byte stream: \<open>tx_is rtx q S U\<close> says that
  \<open>rtx\<close> holds the sent bytes \<open>S\<close>, the first of which has sequence number \<open>q\<close>, followed by the
  unsent bytes \<open>U\<close>; every operation is described by what it does to \<open>S\<close> and \<open>U\<close>.
\<close>

section \<open>Abstraction\<close>

text \<open>Packets lying end to end from position \<open>p\<close> and sequence number \<open>q\<close> on.\<close>

fun chain :: "nat \<Rightarrow> nat \<Rightarrow> Value \<Rightarrow> ringidx list \<Rightarrow> bool" where
  "chain n p q [] \<longleftrightarrow> True"
| "chain n p q (k # ks) \<longleftrightarrow>
     0 < pkSize k \<and> 0 \<le> pkOff k \<and> pkOff k \<le> int n \<and> nat (pkOff k) mod n = p mod n \<and>
     pkSeq k = q \<and> pkEnd k = int (end_at n (nat (pkOff k)) (unat (pkSize k))) \<and>
     chain n (p + unat (pkSize k)) (q + pkSize k) ks"

definition pkt_bytes :: "ringidx list \<Rightarrow> nat" where
  "pkt_bytes ks = sum_list (map (\<lambda>k. unat (pkSize k)) ks)"

lemma pkt_bytes_simps [simp]:
  "pkt_bytes [] = 0" "pkt_bytes (k # ks) = unat (pkSize k) + pkt_bytes ks"
  "pkt_bytes (ks @ ls) = pkt_bytes ks + pkt_bytes ls"
  by (simp_all add: pkt_bytes_def)

text \<open>
  The buffer \<open>xs\<close> holds \<open>s\<close> sent bytes from position \<open>so\<close> on, in the packets \<open>ks\<close>, followed
  by \<open>u\<close> unsent bytes from position \<open>uo\<close> on.
\<close>

definition tx_at :: "ringTx \<Rightarrow> Value \<Rightarrow> bytes \<Rightarrow> nat \<Rightarrow> nat \<Rightarrow> nat \<Rightarrow> nat \<Rightarrow> ringidx list \<Rightarrow> bool" where
  "tx_at rtx q xs so s uo u ks \<longleftrightarrow>
     rawbuf rtx = xs \<and> 2 \<le> length xs \<and> length xs < 2147483648 \<and>
     sentoff rtx = int so \<and> so \<le> length xs \<and> sentend rtx = int (end_at (length xs) so s) \<and>
     unsentoff rtx = int uo \<and> uo \<le> length xs \<and> unsentend rtx = int (end_at (length xs) uo u) \<and>
     s + u \<le> length xs \<and>
     pkts (slist rtx) = ks \<and> chain (length xs) so q ks \<and> pkt_bytes ks = s \<and>
     (ks \<noteq> [] \<longrightarrow> pkOff (hd ks) = int so) \<and> int (length ks) \<le> pktCap (slist rtx) \<and>
     (0 < s \<longrightarrow> uo mod length xs = (so + s) mod length xs \<and>
                (u = 0 \<longrightarrow> uo = end_at (length xs) so s))"

definition tx_is :: "ringTx \<Rightarrow> Value \<Rightarrow> bytes \<Rightarrow> bytes \<Rightarrow> bool" where
  "tx_is rtx q S U \<longleftrightarrow>
     (let xs = rawbuf rtx; so = nat (sentoff rtx); uo = nat (unsentoff rtx) in
      tx_at rtx q xs so (length S) uo (length U) (pkts (slist rtx)) \<and>
      S = window xs so (length S) \<and> U = window xs uo (length U))"

lemma tx_atD:
  assumes "tx_at rtx q xs so s uo u ks"
  shows "rawbuf rtx = xs" "2 \<le> length xs" "length xs < 2147483648"
    "sentoff rtx = int so" "so \<le> length xs" "sentend rtx = int (end_at (length xs) so s)"
    "unsentoff rtx = int uo" "uo \<le> length xs" "unsentend rtx = int (end_at (length xs) uo u)"
    "s + u \<le> length xs"
    "pkts (slist rtx) = ks" "chain (length xs) so q ks" "pkt_bytes ks = s"
    "ks \<noteq> [] \<Longrightarrow> pkOff (hd ks) = int so" "int (length ks) \<le> pktCap (slist rtx)"
    "0 < s \<Longrightarrow> uo mod length xs = (so + s) mod length xs"
    "0 < s \<Longrightarrow> u = 0 \<Longrightarrow> uo = end_at (length xs) so s"
    "unsentRing rtx = (ring_at xs uo u, int so)" "fst (sentRing rtx) = ring_at xs so s"
  using assms by (simp_all add: tx_at_def unsentRing_def sentRing_def tx_ring_def ring_at_def)

lemma tx_is_obtain:
  assumes "tx_is rtx q S U"
  obtains xs so s uo u ks where "tx_at rtx q xs so s uo u ks"
    "S = window xs so s" "U = window xs uo u" "length S = s" "length U = u"
  using assms by (auto simp: tx_is_def Let_def)

lemma tx_isI:
  assumes "tx_at rtx q xs so s uo u ks" "S = window xs so s" "U = window xs uo u"
  shows "tx_is rtx q S U"
  using assms by (auto simp: tx_is_def Let_def tx_at_def)

lemma chain_append:
  "chain n p q (ks @ ls) \<longleftrightarrow>
     chain n p q ks \<and> chain n (p + pkt_bytes ks) (q + of_nat (pkt_bytes ks)) ls"
  by (induction ks arbitrary: p q) (auto simp: ac_simps)

lemma chain_pos: "chain n p q ks \<Longrightarrow> ks \<noteq> [] \<longleftrightarrow> 0 < pkt_bytes ks"
  by (cases ks) (auto simp: word_less_nat_alt)

lemma chain_cong: "chain n p q ks \<Longrightarrow> p mod n = p' mod n \<Longrightarrow> chain n p' q ks"
proof (induction ks arbitrary: p p' q)
  case (Cons k ks)
  then have "(p + unat (pkSize k)) mod n = (p' + unat (pkSize k)) mod n"
    by (metis mod_add_left_eq)
  with Cons show ?case by auto
qed simp

section \<open>Writing\<close>

lemma FreeLimited_at:
  assumes "so \<le> n" "uo \<le> n" "0 < s" "s + u \<le> n" "uo mod n = (so + s) mod n"
    and "u = 0 \<Longrightarrow> uo = end_at n so s" "length xs = n"
  shows "ring_FreeLimited (ring_at xs uo u) (int so) = int (n - s - u)"
proof -
  have uo: "uo = so + s \<or> uo + n = so + s \<or> uo = so + s + n \<or> uo = 0 \<and> so + s = 2 * n"
    using mod_cases [OF assms(5,2)] assms by auto
  show ?thesis
    using uo assms(1-4,6,7)
    by (cases "u = 0"; elim disjE) (auto simp: ring_FreeLimited_def ring_IsFull_def ring_Size_def end_at_def wrap_end_def Let_def)
qed

lemma tx_Write_ok:
  assumes "tx_is rtx q S U" "b \<noteq> []" "length S + length U + length b \<le> length (rawbuf rtx)"
  shows "\<exists>rtx'. tx_Write rtx b = Some (rtx', int (length b), None) \<and> tx_is rtx' q S (U @ b) \<and>
    slist rtx' = slist rtx"
proof -
  obtain xs so s uo u ks where at: "tx_at rtx q xs so s uo u ks"
    and SU: "S = window xs so s" "U = window xs uo u" "length S = s" "length U = u"
    using assms(1) by (rule tx_is_obtain)
  note x = tx_atD [OF at]
  let ?n = "length xs"
  have fit: "s + u + length b \<le> ?n" using assms(3) x SU by simp
  obtain ys where ys: "ring_Write (ring_at xs uo u) b = Some (ring_at ys uo (u + length b), int (length b), None)"
    "length ys = ?n" "window ys (uo + u) (length b) = b"
    "\<And>q d k. \<lbrakk>q mod ?n = (uo + u + length b + d) mod ?n; d + k + length b \<le> ?n\<rbrakk> \<Longrightarrow>
       window ys q k = window xs q k"
    using ring_Write_at [of uo xs b u] x assms(2) fit by auto
  have "(if sentend rtx = 0 then ring_Write (ring_at xs uo u) b
      else ring_WriteLimited (ring_at xs uo u) b (int so)) = ring_Write (ring_at xs uo u) b"
    using FreeLimited_at [of so ?n uo s u xs] x fit by (auto simp: ring_WriteLimited_def)
  then have w: "tx_Write rtx b = Some (rtx\<lparr>rawbuf := ys, unsentend := int (end_at ?n uo (u + length b))\<rparr>,
      int (length b), None)"
    using ys(1,2) by (simp add: tx_Write_def x(18))
  have uo_n: "uo mod ?n = (uo + u + length b + (?n - u - length b)) mod ?n"
    using fit by simp
  have U: "window ys uo (u + length b) = U @ b"
    using ys(3) ys(4) [OF uo_n, of u] SU fit by (simp add: window_add)
  have S: "window ys so s = S"
  proof (cases "s = 0")
    case False
    have "(so + s) mod ?n = (uo + ?n) mod ?n" using False x(16) by simp
    then have "(so + s + (?n - s)) mod ?n = (uo + ?n + (?n - s)) mod ?n"
      by (metis mod_add_left_eq)
    moreover have "so + s + (?n - s) = so + ?n" "uo + ?n + (?n - s) = uo + u + length b + (?n - s - u - length b) + ?n"
      using fit by simp_all
    ultimately have "so mod ?n = (uo + u + length b + (?n - s - u - length b)) mod ?n"
      by (metis mod_add_self2)
    then show ?thesis using ys(4) [of so "?n - s - u - length b" s] SU fit by simp
  qed (use SU in simp)
  have "tx_at (rtx\<lparr>rawbuf := ys, unsentend := int (end_at ?n uo (u + length b))\<rparr>) q ys so s uo
      (u + length b) ks"
    using at ys(2) fit assms(2) by (simp add: tx_at_def)
  then show ?thesis using w tx_isI S U by fastforce
qed

lemma tx_Write_refuses:
  assumes "tx_is rtx q S U" "b = [] \<or> length S + length U + length b > length (rawbuf rtx)"
  shows "\<exists>e. tx_Write rtx b = Some (rtx, 0, Some e)"
proof -
  obtain xs so s uo u ks where at: "tx_at rtx q xs so s uo u ks"
    and SU: "S = window xs so s" "U = window xs uo u" "length S = s" "length U = u"
    using assms(1) by (rule tx_is_obtain)
  note x = tx_atD [OF at]
  have is_r: "ring_is (ring_at xs uo u) (rot uo xs) u"
    using x by (intro ring_at_is) simp_all
  have self: "rtx\<lparr>rawbuf := xs\<rparr> = rtx" using x(1) by simp
  show ?thesis
  proof (cases "b = []")
    case True
    then show ?thesis
      using x FreeLimited_at [of so "length xs" uo s u xs]
      by (auto simp: tx_Write_def ring_Write_empty ring_WriteLimited_def self)
  next
    case False
    then show ?thesis
      using x SU assms(2) FreeLimited_at [of so "length xs" uo s u xs]
        ring_Write_full [OF is_r False]
      by (auto simp: tx_Write_def ring_WriteLimited_def self)
  qed
qed

section \<open>Making packets\<close>

lemma chain_at:
  assumes "chain n p q (ks @ k # ls)" "pkt_bytes (ks @ k # ls) \<le> n" "p \<le> n"
  obtains off where "pkOff k = int off" "off \<le> n" "off mod n = (p + pkt_bytes ks) mod n"
    "pkSeq k = q + of_nat (pkt_bytes ks)" "0 < unat (pkSize k)"
    "pkEnd k = int (end_at n off (unat (pkSize k)))"
    "end_at n off (unat (pkSize k)) = end_at n p (pkt_bytes ks + unat (pkSize k))"
proof -
  have c: "0 < pkSize k" "0 \<le> pkOff k" "pkOff k \<le> int n" "nat (pkOff k) mod n = (p + pkt_bytes ks) mod n"
    "pkSeq k = q + of_nat (pkt_bytes ks)" "pkEnd k = int (end_at n (nat (pkOff k)) (unat (pkSize k)))"
    using assms(1) by (auto simp: chain_append)
  define off m where "off = nat (pkOff k)" and "m = unat (pkSize k)"
  have m: "0 < m" "m \<le> n" "pkt_bytes ks + m \<le> n" "off \<le> n"
    using c(1,3) assms(2) by (auto simp: m_def off_def word_less_nat_alt)
  have "(off + m) mod n = (p + pkt_bytes ks + m) mod n"
    using c(4) unfolding off_def by (metis mod_add_left_eq)
  then have "end_at n off m = end_at n p (pkt_bytes ks + m)"
    using m assms(3) by (intro end_at_eqI) (simp_all add: add.assoc)
  then show thesis
    using that [of off] c m by (simp add: off_def m_def)
qed

lemma tx_newest:
  assumes "tx_at rtx q xs so s uo u ks" "0 < s"
  shows "ks \<noteq> []" "pkEnd (last ks) = int (end_at (length xs) so s)"
    "pkt_endSeq (last ks) = q + of_nat s"
proof -
  note x = tx_atD [OF assms(1)]
  show ne: "ks \<noteq> []" using chain_pos [OF x(12)] x(13) assms(2) by simp
  then obtain ls k where ks: "ks = ls @ [k]" by (metis append_butlast_last_id)
  have "chain (length xs) so q (ls @ k # [])" "pkt_bytes (ls @ k # []) \<le> length xs"
    using x(10,12,13) ks by simp_all
  then obtain off where o: "pkSeq k = q + of_nat (pkt_bytes ls)"
    "pkEnd k = int (end_at (length xs) off (unat (pkSize k)))"
    "end_at (length xs) off (unat (pkSize k)) = end_at (length xs) so (pkt_bytes ls + unat (pkSize k))"
    using x(5) by (rule chain_at)
  then show "pkEnd (last ks) = int (end_at (length xs) so s)" "pkt_endSeq (last ks) = q + of_nat s"
    using x(13) ks by (auto simp: pkt_endSeq_def Add_def add.assoc)
qed

lemma tx_sentEndSeq:
  assumes "tx_at rtx q xs so s uo u ks"
  shows "sentEndSeq rtx = (if s = 0 then (0, False) else (q + of_nat s, True))"
  using tx_newest(1,3) [OF assms] tx_atD(11,12,13) [OF assms] chain_pos [OF tx_atD(12) [OF assms]]
  by (auto simp: sentEndSeq_def sl_Newest_def)

lemma addEnd_at: "0 < m \<Longrightarrow> addEnd (int p) (int m) (int n) = int (end_at n p m)"
  by (auto simp: addEnd_def end_at_def wrap_end_def Let_def)

text \<open>A packet that continues the chain is admitted.\<close>

lemma AddPacket_ok:
  fixes seq :: Value
  assumes at: "tx_at rtx q xs so s uo u ks" and free: "sl_Free (slist rtx) \<noteq> 0"
    and m: "0 < m" "m \<le> u"
  defines "p \<equiv> \<lparr>pkOff = int uo, pkEnd = int (end_at (length xs) uo m), pkSeq = seq,
    pkSize = word_of_int (int m)\<rparr>"
  shows "AddPacket (slist rtx) (int m) (int uo) (int (length xs)) seq =
    Some ((slist rtx)\<lparr>pkts := ks @ [p]\<rparr>, p)"
proof -
  note x = tx_atD [OF at]
  let ?E = "end_at (length xs) so s"
  have E: "uo = ?E \<and> 0 < uo \<or> uo = 0 \<and> ?E = length xs" if "0 < s"
  proof -
    have "0 < ?E" "?E \<le> length xs" "uo mod length xs = ?E mod length xs"
      using that x end_at_le [of so "length xs" s] end_at_mod [of so "length xs" s]
      by (auto simp: neq0_conv [symmetric] simp del: neq0_conv)
    then show ?thesis
      using x(8) end_unique [of uo "length xs" ?E] by (cases "uo = 0") auto
  qed
  have new: "\<not> (case sl_Newest (slist rtx) of None \<Rightarrow> False
      | Some lastPkt \<Rightarrow> (int uo \<noteq> 0 \<and> int uo \<noteq> pkEnd lastPkt) \<or>
          (int uo = 0 \<and> pkEnd lastPkt \<noteq> int (length xs)))"
  proof (cases "s = 0")
    case True
    then have "ks = []" using chain_pos [OF x(12)] x(13) by simp
    then show ?thesis using x(11) by (simp add: sl_Newest_def)
  next
    case False
    then show ?thesis using E tx_newest [OF at] x(11) by (auto simp: sl_Newest_def)
  qed
  show ?thesis
    unfolding AddPacket_def p_def using free new x(11) m(1) by (simp add: addEnd_at Let_def)
qed

lemma MakePacket_new:
  assumes "tx_is rtx q S U" "U \<noteq> []" "0 < k" "sl_Free (slist rtx) \<noteq> 0"
    and "S \<noteq> [] \<Longrightarrow> seq = q + of_nat (length S)"
  shows "\<exists>rtx'. tx_MakePacket rtx k seq = Some (rtx', take k U, None) \<and>
    tx_is rtx' (if S = [] then seq else q) (S @ take k U) (drop k U)"
proof -
  obtain xs so s uo u ks where at: "tx_at rtx q xs so s uo u ks"
    and SU: "S = window xs so s" "U = window xs uo u" "length S = s" "length U = u"
    using assms(1) by (rule tx_is_obtain)
  note x = tx_atD [OF at]
  define n m where "n = length xs" and "m = min k u"
  have m: "0 < m" "m \<le> u" "0 < u" using assms(2,3) SU by (auto simp: m_def)
  obtain r' where r': "ring_Read (ring_at xs uo u) k = Some (r', window xs uo m, None)"
      "m = u \<Longrightarrow> End r' = 0"
      "m < u \<Longrightarrow> \<exists>p'. r' = ring_at xs p' (u - m) \<and> p' \<le> n \<and> p' mod n = (uo + m) mod n"
    using ring_Read_at [of uo xs u k] x m assms(3) unfolding m_def n_def by (metis add_leD2)
  define so' where "so' = (if s = 0 then uo else so)"
  define p where "p = \<lparr>pkOff = int uo, pkEnd = int (end_at n uo m), pkSeq = seq,
    pkSize = word_of_int (int m)\<rparr>"
  have add: "AddPacket (slist rtx) (int m) (int uo) (int n) seq = Some ((slist rtx)\<lparr>pkts := ks @ [p]\<rparr>, p)"
    using AddPacket_ok [OF at assms(4) m(1,2), of seq] by (simp add: n_def p_def)
  have so': "so' \<le> n" "uo mod n = (so' + s) mod n"
    using x by (auto simp: so'_def n_def)
  have "(uo + m) mod n = (so' + s + m) mod n" using so'(2) by (metis mod_add_left_eq)
  then have endeq: "end_at n uo m = end_at n so' (s + m)"
    using so' m x by (intro end_at_eqI) (simp_all add: n_def add.assoc)
  define Q where "Q uo' \<longleftrightarrow> uo' \<le> n \<and> uo' mod n = (so' + (s + m)) mod n \<and>
      (u - m = 0 \<longrightarrow> uo' = end_at n so' (s + m)) \<and>
      (if End r' = 0 then pkEnd p else Off r') = int uo' \<and> End r' = int (end_at n uo' (u - m))" for uo'
  have "\<exists>uo'. Q uo'"
  proof (cases "m = u")
    case True
    then show ?thesis
      using r'(2) endeq so' x m end_at_le [of so' n "s + m"] end_at_mod [of so' n "s + m"]
      by (intro exI [of _ "end_at n so' (s + m)"]) (auto simp: p_def n_def Q_def)
  next
    case False
    then obtain p' where p': "r' = ring_at xs p' (u - m)" "p' \<le> n" "p' mod n = (uo + m) mod n"
      using r'(3) m by auto
    have "(uo + m) mod n = (so' + (s + m)) mod n"
      using so'(2) by (metis add.assoc mod_add_left_eq)
    then show ?thesis
      using p' False m by (intro exI [of _ p']) (auto simp: n_def Q_def)
  qed
  then obtain uo' where "Q uo'" by blast
  then have uo': "uo' \<le> n" "uo' mod n = (so' + (s + m)) mod n"
      "u - m = 0 \<Longrightarrow> uo' = end_at n so' (s + m)"
      "(if End r' = 0 then pkEnd p else Off r') = int uo'" "End r' = int (end_at n uo' (u - m))"
    unfolding Q_def by (elim conjE, assumption | blast)+
  define rtx' where "rtx' = rtx\<lparr>slist := (slist rtx)\<lparr>pkts := ks @ [p]\<rparr>, sentoff := int so',
    unsentoff := int uo', sentend := int (end_at n so' (s + m)), unsentend := int (end_at n uo' (u - m))\<rparr>"
  have seq: "\<not> (snd (sentEndSeq rtx) \<and> LessThan seq (fst (sentEndSeq rtx)))"
    using assms(5) SU by (simp add: tx_sentEndSeq [OF at])
  have mk: "tx_MakePacket rtx k seq = Some (rtx', window xs uo m, None)"
  proof -
    have ne: "\<not> ring_IsEmpty (ring_at xs uo u)" using m x by (simp add: ring_IsEmpty_def)
    have p: "pkOff p = int uo" "pkEnd p = addEnd (int uo) (int m) (int n)"
      using m by (simp_all add: p_def addEnd_at)
    have s0: "(if sentend rtx = 0 then int uo else sentoff rtx) = int so'"
      using x by (simp add: so'_def)
    have pe: "pkEnd p = int (end_at n so' (s + m))" using endeq by (simp add: p_def)
    have sz: "tx_Size rtx = int n" using x(1) by (simp add: tx_Size_def n_def)
    have no: "(snd (sentEndSeq rtx) \<and> LessThan seq (fst (sentEndSeq rtx))) = False"
      using seq by simp
    have "tx_MakePacket rtx k seq = Some (rtx\<lparr>slist := (slist rtx)\<lparr>pkts := ks @ [p]\<rparr>,
        sentoff := (if sentend rtx = 0 then int uo else sentoff rtx),
        unsentoff := (if End r' = 0 then pkEnd p else Off r'), sentend := pkEnd p,
        unsentend := End r'\<rparr>, window xs uo m, None)"
      using assms(4)
      by (simp add: tx_MakePacket_def split_beta no x(18) ne r'(1) add sz p(1) p(2) [symmetric] Let_def)
    then show ?thesis
      unfolding s0 uo'(4) by (simp add: rtx'_def pe uo'(5))
  qed
  have wu: "unat (word_of_int (int m) :: Size) = m"
    using m x(3,10) by (simp add: unat_of_nat)
  have "chain n so' (if s = 0 then seq else q) (ks @ [p])"
  proof (cases "s = 0")
    case True
    then have "ks = []" using chain_pos [OF x(12)] x(13) by simp
    then show ?thesis using True m x wu by (simp add: p_def so'_def word_less_nat_alt n_def)
  next
    case False
    then show ?thesis
      using x m wu assms(5) SU
      by (simp add: chain_append p_def so'_def word_less_nat_alt n_def)
  qed
  moreover have "pkOff (hd (ks @ [p])) = int so'"
    using x chain_pos [OF x(12)] by (cases ks) (auto simp: p_def so'_def)
  ultimately have "tx_at rtx' (if s = 0 then seq else q) xs so' (s + m) uo' (u - m) (ks @ [p])"
    using x m so' uo' wu assms(4)
    by (auto simp: tx_at_def rtx'_def n_def p_def sl_Free_def)
  moreover have tk: "take k U = window xs uo m"
    using SU(2) by (cases "k \<le> u") (simp_all add: m_def take_window)
  moreover have "S @ take k U = window xs so' (s + m)"
  proof -
    have "take k U = window xs (so' + s) m"
      using tk window_cong [of uo xs "so' + s" m] so'(2) by (simp add: n_def)
    moreover have "S = window xs so' s" using SU(1) by (simp add: so'_def)
    ultimately show ?thesis by (simp add: window_add)
  qed
  moreover have "drop k U = window xs uo' (u - m)"
  proof -
    have "(uo + m) mod n = (so' + (s + m)) mod n"
      using so'(2) by (metis add.assoc mod_add_left_eq)
    then have "window xs (uo + m) (u - m) = window xs uo' (u - m)"
      using uo'(2) by (intro window_cong) (simp add: n_def)
    then show ?thesis
      using SU drop_window [of m u xs uo] m by (cases "k \<le> u") (auto simp: m_def)
  qed
  ultimately have "tx_is rtx' (if s = 0 then seq else q) (S @ take k U) (drop k U)"
    by (intro tx_isI)
  then show ?thesis using mk SU(1,3) tk by (intro exI [of _ rtx']) simp
qed

section \<open>Acknowledgements\<close>

text \<open>Inside half of the sequence space the circular order is the order of the offsets.\<close>

lemma unat_diff_offsets:
  assumes "a < 2147483648" "b < 2147483648"
  shows "unat ((q + of_nat b) - (q + of_nat a) :: Value) = (if a \<le> b then b - a else b + 4294967296 - a)"
  using assms unat_sub_cases [of "of_nat b" "of_nat a"] by (simp add: unat_of_nat)

lemma LessThan_offsets:
  assumes "a < 2147483648" "b < 2147483648"
  shows "LessThan (q + of_nat a) (q + of_nat b) \<longleftrightarrow> a < b"
    and "LessThanEq (q + of_nat a) (q + of_nat b) \<longleftrightarrow> a \<le> b"
  using assms unfolding LessThan_iff LessThanEq_iff unat_diff_offsets [OF assms] by auto

lemma chain_last:
  assumes "chain n p q ks" "ks \<noteq> []" "pkt_bytes ks \<le> n" "p \<le> n"
  shows "pkEnd (last ks) = int (end_at n p (pkt_bytes ks))"
    and "pkt_endSeq (last ks) = q + of_nat (pkt_bytes ks)"
proof -
  obtain ls k where ks: "ks = ls @ [k]" using assms(2) by (metis append_butlast_last_id)
  with assms have "chain n p q (ls @ k # [])" "pkt_bytes (ls @ k # []) \<le> n" by simp_all
  then obtain off where o: "pkSeq k = q + of_nat (pkt_bytes ls)"
    "pkEnd k = int (end_at n off (unat (pkSize k)))"
    "end_at n off (unat (pkSize k)) = end_at n p (pkt_bytes ls + unat (pkSize k))"
    using assms(4) by (rule chain_at)
  then show "pkEnd (last ks) = int (end_at n p (pkt_bytes ks))"
    "pkt_endSeq (last ks) = q + of_nat (pkt_bytes ks)"
    using ks by (auto simp: pkt_endSeq_def Add_def add.assoc)
qed

lemma chain_sizes: "chain n p q ks \<Longrightarrow> k \<in> set ks \<Longrightarrow> pkSize k \<noteq> 0"
  by (induction ks arbitrary: p q) (auto simp: word_gt_0)

text \<open>The marking loop cuts the list where the acknowledgement falls.\<close>

lemma markAcked_cut:
  assumes "chain n p (q + of_nat c) ks" "c + pkt_bytes ks < 2147483648" "j < 2147483648" "c \<le> j"
  obtains ls rs where "ks = ls @ rs" "snd (markAcked s0 (q + of_nat j) ks) = map (\<lambda>_. zeroIdx) ls @ rs"
    "c + pkt_bytes ls \<le> j" "rs \<noteq> [] \<Longrightarrow> j < c + pkt_bytes ls + unat (pkSize (hd rs))"
  using assms
proof (induction ks arbitrary: p c s0 thesis)
  case Nil
  then show ?case by simp
next
  case (Cons k ks)
  have e: "pkt_endSeq k = q + of_nat (c + unat (pkSize k))"
    using Cons.prems(2) by (simp add: pkt_endSeq_def Add_def add.assoc)
  have le: "LessThanEq (pkt_endSeq k) (q + of_nat j) \<longleftrightarrow> c + unat (pkSize k) \<le> j"
    unfolding e by (rule LessThan_offsets(2)) (use Cons.prems in auto)
  show ?case
  proof (cases "c + unat (pkSize k) \<le> j")
    case True
    have c': "chain n (p + unat (pkSize k)) (q + of_nat (c + unat (pkSize k))) ks"
      using Cons.prems(2) by (simp add: add.assoc)
    obtain ls rs where *: "ks = ls @ rs"
        "snd (markAcked (pkt_endSeq k) (q + of_nat j) ks) = map (\<lambda>_. zeroIdx) ls @ rs"
        "c + unat (pkSize k) + pkt_bytes ls \<le> j"
        "rs \<noteq> [] \<Longrightarrow> j < c + unat (pkSize k) + pkt_bytes ls + unat (pkSize (hd rs))"
      using Cons.IH [OF _ c' _ Cons.prems(4) True] Cons.prems(3) by auto
    then show ?thesis
      using * le True by (intro Cons.prems(1) [of "k # ls" rs]) (auto simp: split_beta add.assoc)
  next
    case False
    then show ?thesis
      using le False Cons.prems(5) by (intro Cons.prems(1) [of "[]" "k # ks"]) auto
  qed
qed

lemma removeRecvd_marked:
  assumes "\<And>k. k \<in> set rs \<Longrightarrow> pkSize k \<noteq> 0" "ls @ rs \<noteq> []"
  shows "removeRecvd (sl\<lparr>pkts := map (\<lambda>_. zeroIdx) ls @ rs\<rparr>) = Some (sl\<lparr>pkts := rs\<rparr>)"
proof -
  have 1: "filter (\<lambda>p. \<not> isRecvd p) rs = rs"
    using assms(1) by (simp add: filter_id_conv isRecvd_def)
  have 2: "filter (\<lambda>p. \<not> isRecvd p) (map (\<lambda>_. zeroIdx) ls) = []"
    by (simp add: filter_empty_conv isRecvd_def zeroIdx_def)
  show ?thesis
    using assms 1 2 by (cases ls; cases rs) (auto simp: removeRecvd_def isRecvd_def zeroIdx_def)
qed

text \<open>Shortening the oldest packet by \<open>d\<close> acknowledged bytes keeps the chain.\<close>

lemma chain_shorten:
  fixes k :: ringidx
  assumes "chain n p q (k # ks)" "d < unat (pkSize k)" "0 < d" "unat (pkSize k) \<le> n" "n < 2147483648"
  defines "k' \<equiv> k\<lparr>pkOff := addOff (pkOff k) (int d) (int n), pkSize := pkSize k - of_nat d,
      pkSeq := pkSeq k + of_nat d\<rparr>"
  shows "chain n (p + d) (q + of_nat d) (k' # ks)" "unat (pkSize k') = unat (pkSize k) - d"
    "0 \<le> pkOff k'" "pkOff k' \<le> int n"
proof -
  define off m where "off = nat (pkOff k)" and "m = unat (pkSize k)"
  have c: "pkOff k = int off" "off \<le> n" "off mod n = p mod n" "pkSeq k = q"
    "pkEnd k = int (end_at n off m)" "chain n (p + m) (q + pkSize k) ks"
    using assms(1) by (auto simp: off_def m_def)
  define off' where "off' = (if off + d \<ge> n then off + d - n else off + d)"
  have off': "pkOff k' = int off'" "off' \<le> n" "off' mod n = (p + d) mod n"
  proof -
    show "pkOff k' = int off'" by (auto simp: k'_def c(1) addOff_def off'_def Let_def)
    show "off' \<le> n" using c(2) assms(2,4) by (auto simp: off'_def)
    have "off' mod n = (off + d) mod n" using c(2) by (auto simp: off'_def le_mod_geq)
    then show "off' mod n = (p + d) mod n" using c(3) by (metis mod_add_left_eq)
  qed
  then show "0 \<le> pkOff k'" "pkOff k' \<le> int n" by simp_all
  have "d < 2 ^ 32" using assms(2,4,5) by simp
  then show sz: "unat (pkSize k') = unat (pkSize k) - d"
    using assms(2) unat_sub [of "of_nat d" "pkSize k"]
    by (simp add: k'_def word_le_nat_alt unat_of_nat)
  have "end_at n off' (m - d) = end_at n off m"
    using assms(2,3,4) c(2) by (auto simp: off'_def end_at_def wrap_end_def m_def)
  moreover have "0 < pkSize k'" using sz assms(2) by (simp add: word_less_nat_alt)
  moreover have "q + of_nat d + pkSize k' = q + pkSize k" by (simp add: k'_def)
  ultimately show "chain n (p + d) (q + of_nat d) (k' # ks)"
    using off' sz c(4,5,6) assms(2) by (simp add: k'_def [symmetric] m_def) (simp add: k'_def c(4,5) m_def)
qed

lemma sint_of_nat_small: "d < 2147483648 \<Longrightarrow> sint (of_nat d :: 32 word) = int d"
  by (simp add: signed_of_nat signed_take_bit_int_eq_self)

lemma sl_RecvAck_ok:
  assumes c: "chain n so q (pkts sl)" "pkts sl \<noteq> []" "pkt_bytes (pkts sl) = s"
    and n: "s \<le> n" "n < 2147483648" "so \<le> n" and j: "j \<le> s"
  shows "\<exists>sl'. sl_RecvAck sl (q + of_nat j) (int n) = Some (sl', None) \<and> pktCap sl' = pktCap sl \<and>
    length (pkts sl') \<le> length (pkts sl) \<and> pkt_bytes (pkts sl') = s - j \<and>
    (pkts sl' \<noteq> [] \<longrightarrow> (\<exists>so'. so' \<le> n \<and> so' mod n = (so + j) mod n \<and>
       pkOff (hd (pkts sl')) = int so' \<and> chain n so' (q + of_nat j) (pkts sl')))"
proof -
  let ?ack = "q + of_nat j :: Value"
  have newest: "sl_Newest sl = Some (last (pkts sl))" using c(2) by (simp add: sl_Newest_def)
  have "\<not> LessThan (pkt_endSeq (last (pkts sl))) ?ack"
    using chain_last(2) [OF c(1,2) _ n(3)] c(3) n j LessThan_offsets(1) [of s j q] by simp
  note notnew = this
  have c0: "chain n so (q + of_nat 0) (pkts sl)" using c(1) by simp
  obtain ls rs where cut: "pkts sl = ls @ rs"
      "snd (markAcked (ssn sl) ?ack (pkts sl)) = map (\<lambda>_. zeroIdx) ls @ rs"
      "pkt_bytes ls \<le> j" "rs \<noteq> [] \<Longrightarrow> j < pkt_bytes ls + unat (pkSize (hd rs))"
    by (rule markAcked_cut [OF c0, of j "ssn sl"]) (use c n j in auto)
  obtain s1 where mark: "markAcked (ssn sl) ?ack (pkts sl) = (s1, map (\<lambda>_. zeroIdx) ls @ rs)"
    using cut(2) by (metis prod.collapse)
  have rm: "removeRecvd (sl\<lparr>ssn := s1, pkts := map (\<lambda>_. zeroIdx) ls @ rs\<rparr>) = Some (sl\<lparr>ssn := s1, pkts := rs\<rparr>)"
    using removeRecvd_marked [of rs ls "sl\<lparr>ssn := s1\<rparr>"] chain_sizes [OF c(1)] c(2) cut(1) by auto
  show ?thesis
  proof (cases rs)
    case Nil
    then have "j = s" using cut(1,3) c(3) j by simp
    with Nil show ?thesis
      using newest notnew mark rm cut(1) by (simp add: sl_RecvAck_def)
  next
    case (Cons k rest)
    define d where "d = j - pkt_bytes ls"
    have d: "j = pkt_bytes ls + d" "d < unat (pkSize k)" using cut(3,4) Cons by (auto simp: d_def)
    have full: "chain n so q (ls @ k # rest)" "pkt_bytes (ls @ k # rest) \<le> n"
      using c cut(1) Cons n by simp_all
    then obtain off where off: "pkOff k = int off" "off \<le> n" "off mod n = (so + pkt_bytes ls) mod n"
        "pkSeq k = q + of_nat (pkt_bytes ls)"
      using n(3) by (rule chain_at)
    have tail: "chain n off (q + of_nat (pkt_bytes ls)) (k # rest)"
      by (rule chain_cong [of _ "so + pkt_bytes ls"]) (use full(1) off in \<open>simp_all add: chain_append\<close>)
    have tot: "sint (?ack - pkSeq k) = int d"
      using off(4) d n full(2) sint_of_nat_small [of d] by simp
    have bytes: "pkt_bytes ls + unat (pkSize k) + pkt_bytes rest = s"
      using c(3) cut(1) Cons by simp
    show ?thesis
    proof (cases "d = 0")
      case True
      then show ?thesis
        using newest notnew mark rm cut(1) Cons tot off tail d(1) bytes
        by (auto simp: sl_RecvAck_def Let_def)
    next
      case False
      define k' where "k' = k\<lparr>pkOff := addOff (pkOff k) (int d) (int n), pkSize := pkSize k - of_nat d,
        pkSeq := pkSeq k + of_nat d\<rparr>"
      have sh: "chain n (off + d) (q + of_nat j) (k' # rest)" "unat (pkSize k') = unat (pkSize k) - d"
          "0 \<le> pkOff k'" "pkOff k' \<le> int n"
        using chain_shorten [OF tail d(2)] False full(2) n d(1) unfolding k'_def by (simp_all add: add.assoc)
      define so' where "so' = nat (pkOff k')"
      have so': "pkOff k' = int so'" "so' \<le> n" "so' mod n = (off + d) mod n"
        using sh(1,3,4) by (auto simp: so'_def)
      then have "chain n so' (q + of_nat j) (k' # rest)" using chain_cong [OF sh(1)] by simp
      moreover have "so' mod n = (so + j) mod n"
        using so'(3) off(3) d(1) by (metis add.assoc mod_add_left_eq)
      moreover have "sl_RecvAck sl ?ack (int n) = Some (sl\<lparr>ssn := s1, pkts := k' # rest\<rparr>, None)"
        using newest notnew mark rm Cons tot False by (simp add: sl_RecvAck_def Let_def k'_def)
      ultimately show ?thesis
        using so' sh(2) d bytes cut(1) Cons
        by (intro exI [of _ "sl\<lparr>ssn := s1, pkts := k' # rest\<rparr>"]) auto
    qed
  qed
qed

lemma tx_RecvACK_ok:
  assumes "tx_is rtx q S U" "S \<noteq> []" "j \<le> length S"
  shows "\<exists>rtx'. tx_RecvACK rtx (q + of_nat j) = Some (rtx', None) \<and>
    tx_is rtx' (q + of_nat j) (drop j S) U"
proof -
  obtain xs so s uo u ks where at: "tx_at rtx q xs so s uo u ks"
    and SU: "S = window xs so s" "U = window xs uo u" "length S = s" "length U = u"
    using assms(1) by (rule tx_is_obtain)
  note x = tx_atD [OF at]
  let ?n = "length xs"
  have s: "0 < s" using assms(2) SU by auto
  have ks: "ks \<noteq> []" using tx_newest(1) [OF at s] .
  obtain sl' where sl': "sl_RecvAck (slist rtx) (q + of_nat j) (int ?n) = Some (sl', None)"
      "pktCap sl' = pktCap (slist rtx)" "length (pkts sl') \<le> length ks" "pkt_bytes (pkts sl') = s - j"
      "pkts sl' \<noteq> [] \<longrightarrow> (\<exists>so'. so' \<le> ?n \<and> so' mod ?n = (so + j) mod ?n \<and>
         pkOff (hd (pkts sl')) = int so' \<and> chain ?n so' (q + of_nat j) (pkts sl'))"
    using sl_RecvAck_ok [of ?n so q "slist rtx" s j] x ks SU assms(3) by auto
  have sz: "tx_Size rtx = int ?n" using x(1) by (simp add: tx_Size_def)
  show ?thesis
  proof (cases "pkts sl' = []")
    case True
    then have j: "j = s" using sl'(4) SU assms(3) by simp
    define rtx' where "rtx' = consolidateBufs (rtx\<lparr>slist := sl', sentend := 0\<rparr>)"
    have "tx_RecvACK rtx (q + of_nat j) = Some (rtx', None)"
      using sl'(1) True by (simp add: tx_RecvACK_def sz sl_Oldest_def rtx'_def)
    moreover have "tx_is rtx' (q + of_nat j) [] U"
    proof (cases "u = 0")
      case True
      then show ?thesis
        using x SU(2) sl'(2,3) \<open>pkts sl' = []\<close>
        by (intro tx_isI [of _ _ xs 0 0 0 0 "[]"]) (auto simp: tx_at_def rtx'_def consolidateBufs_def)
    next
      case False
      then show ?thesis
        using x SU(2) sl'(2,3) \<open>pkts sl' = []\<close>
        by (intro tx_isI [of _ _ xs so 0 uo u "[]"]) (auto simp: tx_at_def rtx'_def consolidateBufs_def)
    qed
    ultimately show ?thesis using j SU by auto
  next
    case False
    then obtain so' where so': "so' \<le> ?n" "so' mod ?n = (so + j) mod ?n"
        "pkOff (hd (pkts sl')) = int so'" "chain ?n so' (q + of_nat j) (pkts sl')"
      using sl'(5) by blast
    have pos: "0 < s - j" using chain_pos [OF so'(4)] False sl'(4) by simp
    have last: "pkEnd (last (pkts sl')) = int (end_at ?n so' (s - j))"
      using chain_last(1) [OF so'(4) False _ so'(1)] sl'(4) x by simp
    have "(so' + (s - j)) mod ?n = (so + j + (s - j)) mod ?n" using so'(2) by (metis mod_add_left_eq)
    then have md: "(so' + (s - j)) mod ?n = (so + s) mod ?n" using pos by simp
    have ends: "end_at ?n so' (s - j) = end_at ?n so s"
      using md pos so'(1) x s by (intro end_at_eqI) simp_all
    define rtx' where "rtx' = rtx\<lparr>slist := sl', sentoff := int so', sentend := int (end_at ?n so' (s - j))\<rparr>"
    have "tx_RecvACK rtx (q + of_nat j) = Some (rtx', None)"
      using sl'(1) False so' last pos
      by (auto simp: tx_RecvACK_def sz sl_Oldest_def sl_Newest_def rtx'_def consolidateBufs_def
          split: list.splits)
    moreover have "tx_at rtx' (q + of_nat j) xs so' (s - j) uo u (pkts sl')"
      using x so' sl' md ends s by (auto simp: tx_at_def rtx'_def)
    moreover have "drop j S = window xs so' (s - j)"
      using SU(1,3) assms(3) drop_window [of j s xs so] window_cong [OF so'(2)] by simp
    ultimately show ?thesis using SU(2) tx_isI by blast
  qed
qed

section \<open>Rewinding\<close>

lemma packetIn_chain:
  assumes "chain n p (q + of_nat c) (ls @ k # rs)" "c + pkt_bytes (ls @ k # rs) < 2147483648"
    and "c + pkt_bytes ls \<le> j" "j < c + pkt_bytes ls + unat (pkSize k)"
  shows "packetIn (q + of_nat j) (ls @ k # rs) = Some k"
  using assms
proof (induction ls arbitrary: p c)
  case Nil
  have e: "pkt_endSeq k = q + of_nat (c + unat (pkSize k))"
    using Nil.prems(1) by (simp add: pkt_endSeq_def Add_def add.assoc)
  have "LessThan (q + of_nat j) (pkt_endSeq k)" "LessThanEq (q + of_nat c) (q + of_nat j)"
    unfolding e using Nil.prems
      LessThan_offsets(1) [of j "c + unat (pkSize k)" q] LessThan_offsets(2) [of c j q] by simp_all
  then show ?case using Nil.prems(1) by simp
next
  case (Cons l ls)
  have e: "pkt_endSeq l = q + of_nat (c + unat (pkSize l))"
    using Cons.prems(1) by (simp add: pkt_endSeq_def Add_def add.assoc)
  have "\<not> LessThan (q + of_nat j) (pkt_endSeq l)"
    unfolding e using Cons.prems LessThan_offsets(1) [of j "c + unat (pkSize l)" q] by simp
  moreover have "packetIn (q + of_nat j) (ls @ k # rs) = Some k"
    using Cons.IH [of "p + unat (pkSize l)" "c + unat (pkSize l)"] Cons.prems by (simp add: add.assoc)
  ultimately show ?case by simp
qed

lemma of_nat_inj_u32:
  assumes "a < 2147483648" "b < 2147483648" "(of_nat a :: u32) = of_nat b"
  shows "a = b"
proof -
  have "unat (of_nat a :: u32) = unat (of_nat b :: u32)" using assms(3) by simp
  then show ?thesis using assms(1,2) by (simp add: unat_of_nat)
qed

lemma chain_seqs:
  assumes "chain n p q (ls @ k # rs)" "pkt_bytes (ls @ k # rs) < 2147483648"
  shows "takeWhile (\<lambda>x. pkSeq x \<noteq> pkSeq k) (ls @ k # rs) = ls"
proof -
  have "pkSeq x \<noteq> pkSeq k" if x: "x \<in> set ls" for x
  proof -
    obtain as bs where ls: "ls = as @ x # bs" using split_list [OF x] by blast
    have "pkSeq x = q + of_nat (pkt_bytes as)" "pkSeq k = q + of_nat (pkt_bytes ls)" "0 < unat (pkSize x)"
      using assms(1) by (auto simp: ls chain_append word_less_nat_alt)
    then show ?thesis
      using assms(2) ls of_nat_inj_u32 [of "pkt_bytes as" "pkt_bytes ls"] by auto
  qed
  then show ?thesis by (simp add: takeWhile_append)
qed

text \<open>
  \<open>RetransmitFrom\<close> turns the packet containing \<open>seq\<close> and all later ones back into unsent data.
  The case it gets wrong is excluded: a packet that is not the oldest but starts at index 0.
\<close>

lemma tx_RetransmitFrom_at:
  assumes at: "tx_at rtx q xs so s uo u (ls @ k # rs)"
    and j: "pkt_bytes ls \<le> j" "j < pkt_bytes ls + unat (pkSize k)"
    and guard: "ls = [] \<or> pkOff k \<noteq> 0"
  shows "\<exists>so' uo'. tx_at (tx_RetransmitFrom rtx (q + of_nat j)) q xs so' (pkt_bytes ls) uo'
      (s - pkt_bytes ls + u) ls \<and> uo' mod length xs = (so + pkt_bytes ls) mod length xs \<and>
      (ls \<noteq> [] \<longrightarrow> so' = so)"
proof -
  note x = tx_atD [OF at]
  define n b where "n = length xs" and "b = pkt_bytes ls"
  have c: "chain n so q (ls @ k # rs)" "pkt_bytes (ls @ k # rs) \<le> n" "so \<le> n"
    using x by (auto simp: n_def)
  obtain off where off: "pkOff k = int off" "off \<le> n" "off mod n = (so + b) mod n"
      "pkSeq k = q + of_nat b" "0 < unat (pkSize k)"
    unfolding b_def using c by (rule chain_at)
  have bs: "b < s" "s + u \<le> n" "n < 2147483648" "0 < n" using off(5) x by (auto simp: b_def n_def)
  have pk: "packetContaining (slist rtx) (q + of_nat j) = Some k"
    using packetIn_chain [of n so q 0 ls k rs j] c j bs x by (simp add: packetContaining_def)
  have tr: "truncateFrom sl (pkSeq k) = sl\<lparr>pkts := ls, ssn := (if ls = [] then pkSeq k else ssn sl)\<rparr>"
    if "pkts sl = ls @ k # rs" for sl
    using chain_seqs [OF c(1)] c(2) bs that by (simp add: truncateFrom_def Let_def)
  have cls: "chain n so q ls" using c(1) by (simp add: chain_append)
  have we: "(if unsentend rtx = 0 then sentend rtx else unsentend rtx) = int (end_at n off (s - b + u))"
  proof -
    have "(off + (s - b + u)) mod n = (so + s + u) mod n"
    proof -
      have "(off + (s - b + u)) mod n = (so + b + (s - b + u)) mod n" using off(3) by (metis mod_add_left_eq)
      then show ?thesis using bs by (simp add: add.assoc)
    qed
    moreover have "(uo + u) mod n = (so + s + u) mod n"
      using x(16) bs by (metis mod_add_left_eq n_def not_gr_zero not_less_zero)
    ultimately have "end_at n uo u = end_at n off (s - b + u)" if "u > 0"
      using that bs x(5,8,10) off(2) by (intro end_at_eqI) (simp_all add: n_def)
    moreover have "end_at n so s = end_at n off (s - b + u)" if "u = 0"
      using that bs x(5,10) off(2) \<open>(off + (s - b + u)) mod n = (so + s + u) mod n\<close>
      by (intro end_at_eqI) (simp_all add: n_def)
    ultimately have "(if u = 0 then end_at n so s else end_at n uo u) = end_at n off (s - b + u)" by simp
    then show ?thesis using x bs by (auto simp: n_def)
  qed
  show ?thesis
  proof (cases "ls = []")
    case True
    then have "pkOff k = int so" "b = 0" using x(14) by (simp_all add: b_def)
    then have "tx_RetransmitFrom rtx (q + of_nat j) = rtx\<lparr>sentoff := 0, sentend := 0, unsentoff := int off,
        unsentend := int (end_at n off (s - b + u)), slist := (slist rtx)\<lparr>pkts := [], ssn := pkSeq k\<rparr>\<rparr>"
      using pk we tr [of "slist rtx"] x(4,11) off(1) True by (simp add: tx_RetransmitFrom_def Let_def)
    then have "tx_at (tx_RetransmitFrom rtx (q + of_nat j)) q xs 0 0 off (s - b + u) []"
      using x off bs \<open>b = 0\<close> by (simp add: tx_at_def n_def)
    then show ?thesis using True off(3) \<open>b = 0\<close> by (auto simp: n_def b_def)
  next
    case False
    have b0: "0 < b" using chain_pos [OF cls] False by (simp add: b_def)
    have oc: "off = so + b \<or> off + n = so + b \<or> off = so + b + n \<or> off = 0 \<and> so + b = 2 * n"
      using mod_cases [OF off(3,2)] bs c(3) by simp
    have "off \<noteq> so" using oc b0 bs by auto
    moreover have "off \<noteq> 0" using guard False off(1) by simp
    then have "off = end_at n so b" using oc b0 bs c(3) off(2) by (auto simp: end_at_def wrap_end_def)
    ultimately have "tx_RetransmitFrom rtx (q + of_nat j) = rtx\<lparr>sentend := int (end_at n so b),
        unsentoff := int off, unsentend := int (end_at n off (s - b + u)), slist := (slist rtx)\<lparr>pkts := ls\<rparr>\<rparr>"
      using pk we tr [of "slist rtx"] x(4,11) off(1) False by (simp add: tx_RetransmitFrom_def Let_def)
    then have "tx_at (tx_RetransmitFrom rtx (q + of_nat j)) q xs so b off (s - b + u) ls"
      using x off bs cls False by (cases ls) (simp_all add: tx_at_def n_def b_def)
    then show ?thesis using off(3) by (auto simp: n_def b_def)
  qed
qed

lemma tx_RetransmitFrom_ok:
  assumes "tx_is rtx q S U" "pkts (slist rtx) = ls @ k # rs"
    and "pkt_bytes ls \<le> j" "j < pkt_bytes ls + unat (pkSize k)" "ls = [] \<or> pkOff k \<noteq> 0"
  shows "tx_is (tx_RetransmitFrom rtx (q + of_nat j)) q (take (pkt_bytes ls) S) (drop (pkt_bytes ls) S @ U)"
proof -
  obtain xs so s uo u ks where at: "tx_at rtx q xs so s uo u ks"
    and SU: "S = window xs so s" "U = window xs uo u" "length S = s" "length U = u"
    using assms(1) by (rule tx_is_obtain)
  let ?b = "pkt_bytes ls"
  have ks: "ks = ls @ k # rs" using tx_atD(11) [OF at] assms(2) by simp
  then obtain so' uo' where r: "tx_at (tx_RetransmitFrom rtx (q + of_nat j)) q xs so' ?b uo' (s - ?b + u) ls"
      "uo' mod length xs = (so + ?b) mod length xs" "ls \<noteq> [] \<longrightarrow> so' = so"
    using tx_RetransmitFrom_at [of rtx q xs so s uo u ls k rs j] at assms by auto
  have b: "?b < s" using tx_atD(12,13) [OF at] ks by (auto simp: chain_append word_less_nat_alt)
  have "window xs uo' (s - ?b + u) = window xs (so + ?b) (s - ?b + u)" using r(2) by (rule window_cong)
  also have "\<dots> = window xs (so + ?b) (s - ?b) @ window xs (so + s) u"
    using b window_add [of xs "so + ?b" "s - ?b" u] by simp
  also have "window xs (so + s) u = U" using SU(2) tx_atD(16) [OF at] b window_cong [of uo xs "so + s" u] by simp
  finally have "drop ?b S @ U = window xs uo' (s - ?b + u)" using SU(1) b by (simp add: drop_window)
  moreover have "take ?b S = window xs so' ?b"
    using SU(1) b r(3) by (cases "ls = []") (simp_all add: take_window)
  ultimately show ?thesis using tx_isI [OF r(1)] by simp
qed

lemma tx_RetransmitFromUNA_ok:
  assumes "tx_is rtx q S U"
  shows "tx_is (tx_RetransmitFromUNA rtx) q [] (S @ U)"
proof -
  obtain xs so s uo u ks where at: "tx_at rtx q xs so s uo u ks"
    and SU: "S = window xs so s" "U = window xs uo u" "length S = s" "length U = u"
    using assms by (rule tx_is_obtain)
  note x = tx_atD [OF at]
  show ?thesis
  proof (cases ks)
    case Nil
    then have "S = []" using x(13) SU(1) by simp
    then show ?thesis using assms Nil x(11) by (simp add: tx_RetransmitFromUNA_def sl_Oldest_def)
  next
    case (Cons k rs)
    then have "pkSeq k = q + of_nat 0" "0 < unat (pkSize k)" using x(12) by (auto simp: word_less_nat_alt)
    then show ?thesis
      using tx_RetransmitFrom_ok [OF assms, of "[]" k rs 0] Cons x(11)
      by (simp add: tx_RetransmitFromUNA_def sl_Oldest_def)
  qed
qed

section \<open>What the counters report\<close>

lemma tx_counters:
  assumes "tx_is rtx q S U"
  shows "BufferedUnsent rtx = int (length U) \<and> BufferedSent rtx = int (length S) \<and>
    tx_Free rtx = tx_Size rtx - int (length S) - int (length U)"
proof -
  obtain xs so s uo u ks where at: "tx_at rtx q xs so s uo u ks"
    and SU: "length S = s" "length U = u"
    using assms by (rule tx_is_obtain)
  note x = tx_atD [OF at]
  have is_r: "ring_is (ring_at xs p m) (rot p xs) m" if "p \<le> length xs" "m \<le> length xs" for p m
    using that by (rule ring_at_is)
  have "\<exists>p. p \<le> length xs \<and> sentAndUnsentBuffer rtx = ring_at xs p (s + u)"
  proof (cases "s = 0 \<or> u = 0")
    case True
    then show ?thesis
      using x(1,4-10) by (auto simp: sentAndUnsentBuffer_def tx_ring_def ring_at_def)
  next
    case False
    then have "(uo + u) mod length xs = (so + s + u) mod length xs"
      using x(16) by (metis mod_add_left_eq neq0_conv)
    then have "end_at (length xs) uo u = end_at (length xs) so (s + u)"
      using False x(5,8,10) by (intro end_at_eqI) (simp_all add: add.assoc)
    then show ?thesis
      using False x(1,4-10) by (auto simp: sentAndUnsentBuffer_def tx_ring_def ring_at_def)
  qed
  then obtain p where p: "p \<le> length xs" "sentAndUnsentBuffer rtx = ring_at xs p (s + u)" by blast
  show ?thesis
    using ring_isD(6) [OF is_r [OF p(1) x(10)]] ring_isD(7) [OF is_r [OF x(8)], of u]
      ring_isD(7) [OF is_r [OF x(5)], of s] p(2) x(1,10,18,19) SU
    by (simp add: BufferedUnsent_def BufferedSent_def tx_Free_def tx_Size_def)
qed

text \<open>
  C16. The three counters of the transmit ring are exact: unsent and sent bytes and the free
  space always add up to the buffer, wherever the regions wrap.
\<close>

theorem tx_accounting:
  assumes "tx_is rtx q S U"
  shows "BufferedUnsent rtx = int (length U) \<and> BufferedSent rtx = int (length S) \<and>
    tx_Free rtx = tx_Size rtx - int (length S) - int (length U)"
  by (rule tx_counters [OF assms])

end
