(* ===== verification/Tx_Stream.thy ===== *)
theory Tx_Stream
  imports Tx_Queue_Props
begin

text \<open>
  A sender on top of the transmit ring: what it puts on the wire, first time or again, is the
  byte stream that was written, whatever the order of writes, packets, acknowledgements and
  retransmission timeouts. The sender is proved against the interface of a retransmission
  queue, which \<open>ringTx\<close> implements.
\<close>

section \<open>The interface a sender relies on\<close>

text \<open>
  \<open>holds x q S U\<close>: the queue \<open>x\<close> keeps the sent bytes \<open>S\<close>, the first of which has sequence
  number \<open>q\<close>, and the unsent bytes \<open>U\<close>.
\<close>

locale retransmission_queue =
  fixes holds :: "'q \<Rightarrow> Value \<Rightarrow> bytes \<Rightarrow> bytes \<Rightarrow> bool"
    and enq :: "'q \<Rightarrow> bytes \<Rightarrow> ('q \<times> int \<times> goerror option) option"
    and transmit :: "'q \<Rightarrow> nat \<Rightarrow> Value \<Rightarrow> ('q \<times> bytes \<times> goerror option) option"
    and acked :: "'q \<Rightarrow> Value \<Rightarrow> ('q \<times> goerror option) option"
    and rewind :: "'q \<Rightarrow> 'q"
  assumes write_law: "holds x q S U \<Longrightarrow> \<exists>x' n e. enq x b = Some (x', n, e) \<and>
      (if e = None then holds x' q S (U @ b) else holds x' q S U)"
    and send_law: "\<lbrakk>holds x q S U; 0 < k; seq = q + of_nat (length S)\<rbrakk> \<Longrightarrow>
      \<exists>x' d e. transmit x k seq = Some (x', d, e) \<and>
        (if e = None then d = take k U \<and> holds x' q (S @ d) (drop k U) else holds x' q S U)"
    and ack_law: "\<lbrakk>holds x q S U; j \<le> length S\<rbrakk> \<Longrightarrow> \<exists>x' e. acked x (q + of_nat j) = Some (x', e) \<and>
        holds x' (q + of_nat j) (drop j S) U"
    and rewind_law: "holds x q S U \<Longrightarrow> holds (rewind x) q [] (S @ U)"

text \<open>
  A sender that numbers its stream from \<open>iss\<close> on. The state is the queue, the offsets of the
  oldest unacknowledged and of the next byte in the stream, everything written so far, and the
  packets sent so far, each with its offset. An operation that the queue refuses is skipped.
\<close>

datatype tx_op = TxWrite bytes | TxSend nat | TxAck nat | TxRewind

record 'q sender =
  txQueue :: 'q
  txUna :: nat
  txNxt :: nat
  txWritten :: bytes
  txPackets :: "(nat \<times> bytes) list"

fun sender_step ::
    "('q \<Rightarrow> bytes \<Rightarrow> ('q \<times> int \<times> goerror option) option) \<Rightarrow>
     ('q \<Rightarrow> nat \<Rightarrow> Value \<Rightarrow> ('q \<times> bytes \<times> goerror option) option) \<Rightarrow>
     ('q \<Rightarrow> Value \<Rightarrow> ('q \<times> goerror option) option) \<Rightarrow> ('q \<Rightarrow> 'q) \<Rightarrow>
     Value \<Rightarrow> 'q sender \<Rightarrow> tx_op \<Rightarrow> 'q sender option" where
  "sender_step enq transmit acked rewind iss s (TxWrite b) = do {
     (x, n, e) \<leftarrow> enq (txQueue s) b;
     Some (if e = None then s\<lparr>txQueue := x, txWritten := txWritten s @ b\<rparr> else s\<lparr>txQueue := x\<rparr>) }"
| "sender_step enq transmit acked rewind iss s (TxSend k) =
     (if k = 0 then Some s
      else do {
        (x, d, e) \<leftarrow> transmit (txQueue s) k (iss + of_nat (txNxt s));
        Some (if e = None
              then s\<lparr>txQueue := x, txNxt := txNxt s + length d, txPackets := (txNxt s, d) # txPackets s\<rparr>
              else s\<lparr>txQueue := x\<rparr>) })"
| "sender_step enq transmit acked rewind iss s (TxAck j) =
     (if txUna s + j > txNxt s then Some s
      else do {
        (x, e) \<leftarrow> acked (txQueue s) (iss + of_nat (txUna s + j));
        Some (s\<lparr>txQueue := x, txUna := txUna s + j\<rparr>) })"
| "sender_step enq transmit acked rewind iss s TxRewind =
     Some (s\<lparr>txQueue := rewind (txQueue s), txNxt := txUna s\<rparr>)"

fun sender_run ::
    "('q sender \<Rightarrow> tx_op \<Rightarrow> 'q sender option) \<Rightarrow> 'q sender \<Rightarrow> tx_op list \<Rightarrow> 'q sender option" where
  "sender_run step s [] = Some s"
| "sender_run step s (op # ops) = do { s \<leftarrow> step s op; sender_run step s ops }"

definition sender_init :: "'q \<Rightarrow> 'q sender" where
  "sender_init x = \<lparr>txQueue = x, txUna = 0, txNxt = 0, txWritten = [], txPackets = []\<rparr>"

text \<open>What the sender has put on the wire is what was written there.\<close>

definition faithful :: "'q sender \<Rightarrow> bool" where
  "faithful s \<longleftrightarrow> txUna s \<le> txNxt s \<and> txNxt s \<le> length (txWritten s) \<and>
     (\<forall>(o', d) \<in> set (txPackets s). o' + length d \<le> length (txWritten s) \<and>
        d = take (length d) (drop o' (txWritten s)))"

context retransmission_queue
begin

definition stream_inv :: "Value \<Rightarrow> 'q sender \<Rightarrow> bool" where
  "stream_inv iss s \<longleftrightarrow> faithful s \<and>
     holds (txQueue s) (iss + of_nat (txUna s)) (drop (txUna s) (take (txNxt s) (txWritten s)))
       (drop (txNxt s) (txWritten s))"

lemma step_write:
  assumes "stream_inv iss s"
  shows "\<exists>s'. sender_step enq transmit acked rewind iss s (TxWrite b) = Some s' \<and> stream_inv iss s'"
proof -
  obtain x n e where w: "enq (txQueue s) b = Some (x, n, e)"
      "if e = None then holds x (iss + of_nat (txUna s)) (drop (txUna s) (take (txNxt s) (txWritten s)))
         (drop (txNxt s) (txWritten s) @ b)
       else holds x (iss + of_nat (txUna s)) (drop (txUna s) (take (txNxt s) (txWritten s)))
         (drop (txNxt s) (txWritten s))"
    using write_law assms unfolding stream_inv_def by blast
  then show ?thesis
    using assms by (auto simp: stream_inv_def faithful_def)
qed

lemma step_send:
  assumes "stream_inv iss s" "0 < k"
  shows "\<exists>s'. sender_step enq transmit acked rewind iss s (TxSend k) = Some s' \<and> stream_inv iss s'"
proof -
  let ?S = "drop (txUna s) (take (txNxt s) (txWritten s))" and ?U = "drop (txNxt s) (txWritten s)"
  have le: "txUna s \<le> txNxt s" "txNxt s \<le> length (txWritten s)"
    using assms by (simp_all add: stream_inv_def faithful_def)
  have "iss + of_nat (txNxt s) = iss + of_nat (txUna s) + of_nat (length ?S)"
    using le by (simp flip: of_nat_add)
  then obtain x d e where x: "transmit (txQueue s) k (iss + of_nat (txNxt s)) = Some (x, d, e)"
      "if e = None then d = take k ?U \<and> holds x (iss + of_nat (txUna s)) (?S @ d) (drop k ?U)
       else holds x (iss + of_nat (txUna s)) ?S ?U"
    using send_law assms unfolding stream_inv_def by blast
  show ?thesis
  proof (cases "e = None")
    case True
    let ?n = "txNxt s + length d"
    have d: "d = take k ?U" "holds x (iss + of_nat (txUna s)) (?S @ d) (drop k ?U)" using x True by auto
    have n: "?n \<le> length (txWritten s)" using d le by simp
    have "?S @ d = drop (txUna s) (take ?n (txWritten s))"
      using d(1) le by (simp add: take_add min_def)
    moreover have "drop k ?U = drop ?n (txWritten s)"
      using d(1) by (simp add: min_def add.commute)
    moreover have "d = take (length d) (drop (txNxt s) (txWritten s))" using d(1) by (simp add: min_def)
    ultimately have "stream_inv iss (s\<lparr>txQueue := x, txNxt := ?n, txPackets := (txNxt s, d) # txPackets s\<rparr>)"
      using assms(1) d(2) n le(1) by (simp add: stream_inv_def faithful_def)
    then show ?thesis using x(1) True assms(2) by simp
  next
    case False
    then show ?thesis using x assms by (auto simp: stream_inv_def faithful_def)
  qed
qed

lemma step_ack:
  assumes "stream_inv iss s" "txUna s + j \<le> txNxt s"
  shows "\<exists>s'. sender_step enq transmit acked rewind iss s (TxAck j) = Some s' \<and> stream_inv iss s'"
proof -
  let ?S = "drop (txUna s) (take (txNxt s) (txWritten s))"
  have "j \<le> length ?S" using assms by (simp add: stream_inv_def faithful_def)
  then obtain x e where x: "acked (txQueue s) (iss + of_nat (txUna s) + of_nat j) = Some (x, e)"
      "holds x (iss + of_nat (txUna s) + of_nat j) (drop j ?S) (drop (txNxt s) (txWritten s))"
    using ack_law assms unfolding stream_inv_def by blast
  then have "stream_inv iss (s\<lparr>txQueue := x, txUna := txUna s + j\<rparr>)"
    using assms by (simp add: stream_inv_def faithful_def add.assoc add.commute [of j])
  then show ?thesis using assms(2) x(1) by (simp add: add.assoc)
qed

lemma step_keeps_stream:
  assumes "stream_inv iss s"
  shows "\<exists>s'. sender_step enq transmit acked rewind iss s op = Some s' \<and> stream_inv iss s'"
proof (cases op)
  case TxRewind
  have "holds (rewind (txQueue s)) (iss + of_nat (txUna s)) []
      (drop (txUna s) (take (txNxt s) (txWritten s)) @ drop (txNxt s) (txWritten s))"
    using rewind_law assms unfolding stream_inv_def by blast
  moreover have "drop (txUna s) (take (txNxt s) (txWritten s)) @ drop (txNxt s) (txWritten s) = drop (txUna s) (txWritten s)"
    using assms drop_append [of "txUna s" "take (txNxt s) (txWritten s)" "drop (txNxt s) (txWritten s)"]
    by (simp add: stream_inv_def faithful_def)
  ultimately show ?thesis
    using TxRewind assms by (auto simp: stream_inv_def faithful_def)
next
  case (TxSend k)
  then show ?thesis using assms step_send by (cases "k = 0") auto
next
  case (TxAck j)
  then show ?thesis using assms step_ack by (cases "txUna s + j \<le> txNxt s") auto
qed (use assms step_write in auto)

lemma run_keeps_stream:
  "stream_inv iss s \<Longrightarrow>
   \<exists>s'. sender_run (sender_step enq transmit acked rewind iss) s ops = Some s' \<and> stream_inv iss s'"
proof (induction ops arbitrary: s)
  case (Cons op ops)
  then show ?case using step_keeps_stream [of iss s op] by auto
qed simp

lemma run_is_faithful:
  assumes "holds x iss [] []"
  shows "\<exists>s. sender_run (sender_step enq transmit acked rewind iss) (sender_init x) ops = Some s \<and>
    faithful s"
proof -
  have "stream_inv iss (sender_init x)"
    using assms by (simp add: stream_inv_def sender_init_def faithful_def)
  then show ?thesis using run_keeps_stream unfolding stream_inv_def by blast
qed

end

section \<open>The transmit ring implements the interface\<close>

lemma tx_Write_law:
  assumes "tx_is rtx q S U"
  shows "\<exists>rtx' n e. tx_Write rtx b = Some (rtx', n, e) \<and>
    (if e = None then tx_is rtx' q S (U @ b) else tx_is rtx' q S U)"
proof (cases "b = [] \<or> length S + length U + length b > length (rawbuf rtx)")
  case True
  then obtain e where "tx_Write rtx b = Some (rtx, 0, Some e)" using tx_Write_refuses [OF assms] by blast
  then show ?thesis using assms by (intro exI [of _ rtx] exI [of _ 0] exI [of _ "Some e"]) simp
next
  case False
  then obtain rtx' where "tx_Write rtx b = Some (rtx', int (length b), None)" "tx_is rtx' q S (U @ b)"
    using tx_Write_ok [OF assms, of b] by fastforce
  then show ?thesis by simp
qed

lemma MakePacket_law:
  assumes "tx_is rtx q S U" "0 < k" "seq = q + of_nat (length S)"
  shows "\<exists>rtx' d e. tx_MakePacket rtx k seq = Some (rtx', d, e) \<and>
    (if e = None then d = take k U \<and> tx_is rtx' q (S @ d) (drop k U) else tx_is rtx' q S U)"
proof (cases "sl_Free (slist rtx) = 0 \<or> U = []")
  case True
  obtain xs so s uo u ks where at: "tx_at rtx q xs so s uo u ks"
    and SU: "length S = s" "length U = u"
    using assms(1) by (rule tx_is_obtain)
  have "u = 0 \<Longrightarrow> ring_IsEmpty (fst (unsentRing rtx))"
    using tx_atD(18) [OF at] by (simp add: ring_IsEmpty_def)
  then have "tx_MakePacket rtx k seq =
      Some (rtx, [], if sl_Free (slist rtx) = 0 then Some (Generic ErrBufferFull) else None)"
    using True assms(3) SU tx_sentEndSeq [OF at] by (auto simp: tx_MakePacket_def LessThan_def)
  then show ?thesis using True assms(1) by (cases "sl_Free (slist rtx) = 0") auto
next
  case False
  then obtain rtx' where "tx_MakePacket rtx k seq = Some (rtx', take k U, None)"
      "tx_is rtx' (if S = [] then seq else q) (S @ take k U) (drop k U)"
    using MakePacket_new [OF assms(1), of k seq] assms(2,3) by blast
  then show ?thesis using assms(3) by (auto split: if_splits)
qed

lemma tx_RecvACK_law:
  assumes "tx_is rtx q S U" "j \<le> length S"
  shows "\<exists>rtx' e. tx_RecvACK rtx (q + of_nat j) = Some (rtx', e) \<and>
    tx_is rtx' (q + of_nat j) (drop j S) U"
proof (cases "S = []")
  case True
  obtain xs so s uo u ks where at: "tx_at rtx q xs so s uo u ks" and s: "length S = s"
    using assms(1) by (rule tx_is_obtain)
  have "ks = []" using chain_pos [OF tx_atD(12) [OF at]] tx_atD(13) [OF at] True s by auto
  then show ?thesis
    using True assms tx_atD(11) [OF at] by (simp add: tx_RecvACK_def sl_RecvAck_def sl_Newest_def)
next
  case False
  then show ?thesis using tx_RecvACK_ok [OF assms(1) _ assms(2)] by blast
qed

interpretation txq: retransmission_queue tx_is tx_Write tx_MakePacket tx_RecvACK tx_RetransmitFromUNA
  by unfold_locales
    (blast intro: tx_Write_law MakePacket_law tx_RecvACK_law tx_RetransmitFromUNA_ok)+

lemma tx_Reset_empty:
  assumes "tx_Reset rtx0 buf n iss = (rtx, None)" "length buf < 2147483648"
  shows "tx_is rtx iss [] []"
  using assms by (auto simp: tx_Reset_def tx_is_def tx_at_def sl_Reset_def minBufferSize_def split: if_splits)

definition txStream :: "ringTx \<Rightarrow> Value \<Rightarrow> tx_op list \<Rightarrow> ringTx sender option" where
  "txStream rtx iss =
     sender_run (sender_step tx_Write tx_MakePacket tx_RecvACK tx_RetransmitFromUNA iss) (sender_init rtx)"

text \<open>
  C14. Whatever is written to a freshly reset transmit ring, and however packets, partial and
  cumulative acknowledgements and retransmission timeouts follow each other, no operation
  panics and every packet that is made, first time or again, carries exactly the bytes that
  were written at its offset in the stream.
\<close>

theorem tx_stream_is_faithful:
  assumes "tx_Reset rtx0 buf n iss = (rtx, None)" "length buf < 2147483648"
  shows "\<exists>s. txStream rtx iss ops = Some s \<and> faithful s"
  unfolding txStream_def using tx_Reset_empty [OF assms] by (rule txq.run_is_faithful)

definition demoTx :: "int \<Rightarrow> ringTx" where
  "demoTx n = fst (tx_Reset
     \<lparr>rawbuf = [], unsentoff = 0, unsentend = 0, sentoff = 0, sentend = 0,
      slist = \<lparr>ssn = 0, pkts = [], pktCap = 0\<rparr>, txIss = 0\<rparr> (replicate 8 0) n 4294967294)"

lemma demoTx_Reset:
  "tx_Reset (demoTx 4) (replicate 8 0) 4 4294967294 = (demoTx 4, None)"
  by code_simp

theorem tx_stream_is_faithful_witness:
  "\<exists>s. txStream (demoTx 4) 4294967294
     [TxWrite [1, 2, 3, 4, 5, 6], TxSend 4, TxAck 3, TxWrite [7, 8, 9], TxSend 9, TxRewind, TxSend 5]
       = Some s \<and> faithful s \<and> txPackets s = [(3, [4, 5, 6, 7, 8]), (4, [5, 6, 7, 8, 9]), (0, [1, 2, 3, 4])]"
proof -
  let ?ops = "[TxWrite [1, 2, 3, 4, 5, 6], TxSend 4, TxAck 3, TxWrite [7, 8, 9], TxSend 9, TxRewind, TxSend 5]"
  obtain s where s: "txStream (demoTx 4) 4294967294 ?ops = Some s" "faithful s"
    using tx_stream_is_faithful [OF demoTx_Reset, of ?ops] by auto
  moreover have "map_option txPackets (txStream (demoTx 4) 4294967294 ?ops) =
      Some [(3, [4, 5, 6, 7, 8]), (4, [5, 6, 7, 8, 9]), (0, [1, 2, 3, 4])]"
    by code_simp
  ultimately show ?thesis by simp
qed

section \<open>Recovery from a loss\<close>

text \<open>
  C15. Nothing that was sent is lost to a retransmission timeout: after
  \<open>RetransmitFromUNA\<close> the next packet starts at the oldest unacknowledged byte and carries
  the sent bytes followed by the unsent ones, up to its capacity, whatever the packet
  boundaries were before.
\<close>

theorem tx_rewind_resends:
  assumes "tx_is rtx q S U" "S @ U \<noteq> []" "0 < pktCap (slist rtx)" "0 < k"
  shows "\<exists>rtx'. tx_MakePacket (tx_RetransmitFromUNA rtx) k q = Some (rtx', take k (S @ U), None) \<and>
    tx_is rtx' q (take k (S @ U)) (drop k (S @ U))"
proof -
  let ?r = "tx_RetransmitFromUNA rtx"
  have r: "tx_is ?r q [] (S @ U)" using assms(1) by (rule tx_RetransmitFromUNA_ok)
  then obtain xs so uo u ks where at: "tx_at ?r q xs so 0 uo u ks"
    by (auto elim!: tx_is_obtain)
  have "pkts (slist ?r) = []"
    using tx_atD(11-13) [OF at] chain_pos by fastforce
  moreover have "pktCap (slist ?r) = pktCap (slist rtx)"
    by (simp add: tx_RetransmitFromUNA_def tx_RetransmitFrom_def truncateFrom_def Let_def split: option.split)
  ultimately have "sl_Free (slist ?r) \<noteq> 0" using assms(3) by (simp add: sl_Free_def)
  then show ?thesis using MakePacket_new [OF r assms(2,4), of q] by simp
qed

definition demoLoss :: ringTx where
  "demoLoss =
     \<lparr>rawbuf = [9, 2, 3, 4, 5, 6, 7, 8], unsentoff = 0, unsentend = 1, sentoff = 3, sentend = 8,
      slist = \<lparr>ssn = 4294967294,
        pkts = [\<lparr>pkOff = 3, pkEnd = 4, pkSeq = 1, pkSize = 1\<rparr>,
                \<lparr>pkOff = 4, pkEnd = 8, pkSeq = 2, pkSize = 4\<rparr>],
        pktCap = 4\<rparr>,
      txIss = 4294967294\<rparr>"

lemma demoLoss_is: "tx_is demoLoss 1 [4, 5, 6, 7, 8] [9]"
  by (simp add: tx_is_def tx_at_def demoLoss_def end_at_def wrap_end_def window_def pkt_bytes_def Let_def upt_rec)

theorem tx_rewind_resends_witness:
  "\<exists>rtx'. tx_MakePacket (tx_RetransmitFromUNA demoLoss) 2 1 = Some (rtx', [4, 5], None) \<and>
    tx_is rtx' 1 [4, 5] [6, 7, 8, 9]"
proof -
  have "0 < pktCap (slist demoLoss)" by code_simp
  then show ?thesis using tx_rewind_resends [OF demoLoss_is, of 2] by simp
qed

theorem tx_accounting_witness:
  "BufferedUnsent demoLoss = 1 \<and> BufferedSent demoLoss = 5 \<and> tx_Free demoLoss = 2"
proof -
  have "tx_Size demoLoss = 8" by code_simp
  then show ?thesis using tx_accounting [OF demoLoss_is] by simp
qed

section \<open>Rewinding to a packet at the start of the buffer\<close>

text \<open>
  The general rewind, \<open>RetransmitFrom\<close>, keeps the packets before the one it rewinds to
  (\<open>tx_RetransmitFrom_ok\<close>) unless that packet lies at index 0 of the buffer: the end of the
  sent region is then written as 0, which reads as an empty region. The two bytes that are
  still unacknowledged in the buffer below are then reported as free and the next
  \<open>Write\<close> overwrites them.
\<close>

definition rewindAtZero :: "ringTx option" where
  "rewindAtZero = do {
     let rtx = fst (tx_Reset (demoTx 4) [0, 0, 0, 0] 4 100);
     (rtx, _, _) \<leftarrow> tx_Write rtx [1, 2, 3, 4];
     (rtx, _, _) \<leftarrow> tx_MakePacket rtx 2 100;
     (rtx, _) \<leftarrow> tx_RecvACK rtx 102;
     (rtx, _, _) \<leftarrow> tx_Write rtx [5, 6];
     (rtx, _, _) \<leftarrow> tx_MakePacket rtx 2 102;
     (rtx, _, _) \<leftarrow> tx_MakePacket rtx 2 104;
     Some (tx_RetransmitFrom rtx 104) }"

lemma rewind_at_zero_loses_sent_data:
  "\<exists>rtx. rewindAtZero = Some rtx \<and> map pkSeq (pkts (slist rtx)) = [102] \<and>
    BufferedSent rtx = 0 \<and> tx_Free rtx = 2 \<and>
    (\<exists>rtx'. tx_Write rtx [7, 8] = Some (rtx', 2, None) \<and> rawbuf rtx' = [5, 6, 7, 8])"
proof -
  have "case rewindAtZero of None \<Rightarrow> False | Some rtx \<Rightarrow> map pkSeq (pkts (slist rtx)) = [102] \<and>
    BufferedSent rtx = 0 \<and> tx_Free rtx = 2 \<and>
    (case tx_Write rtx [7, 8] of None \<Rightarrow> False | Some (rtx', n, e) \<Rightarrow> n = 2 \<and> e = None \<and> rawbuf rtx' = [5, 6, 7, 8])"
    by code_simp
  then show ?thesis by (auto split: option.splits)
qed

end
