(* ===== verification/Tcp_Handler_Rx.thy ===== *)
theory Tcp_Handler_Rx
  imports Tcp_Handler Tcp_Pending Rx_Stream Tx_Stream
begin

text \<open>
  The receive side of a connection from the frame to the application: a handler that is fed
  the segments of a byte stream, in whatever order and together with anything else that is
  refused, hands out that stream.
\<close>

section \<open>The control block and the receive buffer in step\<close>

text \<open>
  \<open>rx_sync W irs rd h r\<close>: up to position \<open>r\<close> the stream has arrived, up to \<open>rd\<close> it has been
  read, the rest is in the ring and the reassembly queue, and \<open>rcv.NXT\<close> is \<open>r\<close>.
\<close>

definition rx_sync :: "bytes \<Rightarrow> Value \<Rightarrow> nat \<Rightarrow> 'a Handler_scheme \<Rightarrow> nat \<Rightarrow> bool" where
  "rx_sync W irs rd h r \<longleftrightarrow> rx_rest W irs rd r (bufRx h) (reasm h) \<and>
     rNXT (rcvS (scb h)) = irs + of_nat r"

lemma rx_sync_cong:
  "rx_sync W irs rd h r \<Longrightarrow> bufRx h' = bufRx h \<Longrightarrow> reasm h' = reasm h \<Longrightarrow>
   rcvS (scb h') = rcvS (scb h) \<Longrightarrow> rx_sync W irs rd h' r"
  by (simp add: rx_sync_def)

lemma queueAck_simps [simp]:
  "bufRx (queueAck h) = bufRx h" "reasm (queueAck h) = reasm h" "bufTx (queueAck h) = bufTx h"
  "rcvS (scb (queueAck h)) = rcvS (scb h)" "sndS (scb (queueAck h)) = sndS (scb h)"
  "tcbState (scb (queueAck h)) = tcbState (scb h)" "shutdownRx (queueAck h) = shutdownRx h"
  by (simp_all add: queueAck_def)

lemma handleOutOfOrder_sync:
  assumes "rx_sync W irs rd h r" "SEQ seg = irs + of_nat o'" "r < o' + 2147483648" "o' < r + 2147483648"
    and "p = take n (drop o' W)"
  shows "\<exists>h' c. handleOutOfOrder h seg p = Some (h', c) \<and> rx_sync W irs rd h' r \<and>
    scb h' = (if c then (scb h)\<lparr>pending0 := pending0 (scb h) OR FlagACK\<rparr> else scb h) \<and>
    shutdownRx h' = shutdownRx h \<and> bufTx h' = bufTx h \<and> Handler.more h' = Handler.more h"
proof (cases "shutdownRx h \<or> DATALEN seg = 0 \<or> HasAny (SegFlags seg) flagctl \<or> SEQ seg = rNXT (rcvS (scb h)) \<or>
    \<not> InWindow (SEQ seg) (rNXT (rcvS (scb h))) (rWND (rcvS (scb h))) \<or>
    \<not> InWindow (Last seg) (rNXT (rcvS (scb h))) (rWND (rcvS (scb h)))")
  case True
  then have "handleOutOfOrder h seg p = Some (h, False)"
    by (auto simp: handleOutOfOrder_def Let_def)
  then show ?thesis using assms(1) by auto
next
  case False
  have nxt: "rNXT (rcvS (scb h)) = irs + of_nat r" using assms(1) by (simp add: rx_sync_def)
  have "o' \<noteq> r" using False nxt assms(2) by auto
  then obtain R rx ok where st: "reasm_store (reasm h) (bufRx h) (irs + of_nat r) (irs + of_nat o') p = Some (R, rx, ok)"
      "rx_rest W irs rd r rx R"
    using reasm_store_stages [OF _ assms(5,3,4)] assms(1) unfolding rx_sync_def by blast
  have "handleOutOfOrder h seg p =
      Some (if ok then (queueAck (h\<lparr>reasm := R, bufRx := rx\<rparr>), True) else (h\<lparr>reasm := R, bufRx := rx\<rparr>, False))"
    using False st(1) nxt assms(2) by (simp add: handleOutOfOrder_def Let_def)
  then show ?thesis
    using st(2) nxt by (cases ok) (auto simp: rx_sync_def queueAck_def)
qed

lemma policy_more: "Handler.more h' = Handler.more h \<Longrightarrow> policy h' = policy h"
  by (cases h; cases h') simp

lemma reassemble_nothing: "held R = [] \<Longrightarrow> reassemble R rx nxt = (R, rx, 0)"
  by (simp add: reassemble_def)

lemma deliverReassembled_eq:
  assumes "\<not> shutdownRx h" "reassemble (reasm h) (bufRx h) (rNXT (rcvS (scb h))) = (R, rx, d)"
  shows "bufRx (deliverReassembled h) = rx" "reasm (deliverReassembled h) = R"
    "rNXT (rcvS (scb (deliverReassembled h))) = rNXT (rcvS (scb h)) + d"
    "bufTx (deliverReassembled h) = bufTx h" "shutdownRx (deliverReassembled h) = shutdownRx h"
    "sndS (scb (deliverReassembled h)) = sndS (scb h)"
    "tcbState (scb (deliverReassembled h)) = tcbState (scb h)"
  using assms reassemble_nothing [of "reasm h" "bufRx h" "rNXT (rcvS (scb h))"]
  by (auto simp: deliverReassembled_def reasm_buffered_def Let_def UpdateForward_def word_gt_0)

lemma policy_deliver [simp]: "policy (deliverReassembled h) = policy h"
  "policy (queueAck h) = policy h" "policy (maybeQueueWindowUpdate h) = policy h"
  by (simp_all add: deliverReassembled_def queueAck_def maybeQueueWindowUpdate_def Let_def split: prod.split)

lemma no_policy [simp]: "policy h = None \<Longrightarrow> h\<lparr>policy := None\<rparr> = (h :: 'p HandlerP)"
  by (cases h) simp

text \<open>The in-order write and the delivery that follows it.\<close>

lemma write_deliver_sync:
  assumes rest: "rx_rest W irs rd r (bufRx h) (reasm h)" and sh: "\<not> shutdownRx h"
    and nxt: "rNXT (rcvS (scb h)) = irs + of_nat (r + length p)"
    and p: "p = take n (drop r W)" "p \<noteq> []" and fit: "int (length p) \<le> ring_Free (bufRx h)"
  shows "\<exists>rx r'. ring_Write (bufRx h) p = Some (rx, int (length p), None) \<and> r < r' \<and>
    rx_sync W irs rd (deliverReassembled (h\<lparr>bufRx := rx\<rparr>)) r'"
proof -
  obtain rx1 R' rx' d r' where a: "ring_Write (bufRx h) p = Some (rx1, int (length p), None)"
    "reassemble (reasm h) rx1 (irs + of_nat (r + length p)) = (R', rx', d)" "r + length p \<le> r'"
    "d = of_nat (r' - (r + length p))" "rx_rest W irs rd r' rx' R'"
    using in_order_delivers [OF rest p fit] by blast
  have "irs + of_nat (r + length p) + d = irs + of_nat r'"
    using a(3,4) by (metis add.assoc le_add_diff_inverse of_nat_add)
  then have "rx_sync W irs rd (deliverReassembled (h\<lparr>bufRx := rx1\<rparr>)) r'"
    using a(2,5) sh nxt deliverReassembled_eq [of "h\<lparr>bufRx := rx1\<rparr>" R' rx' d] by (simp add: rx_sync_def)
  moreover have "r < r'" using a(3) p(2) by (cases p) auto
  ultimately show ?thesis using a(1) by blast
qed

lemma sl_RecvAck_total: "\<exists>sl' e. sl_RecvAck sl ack n = Some (sl', e)"
proof -
  have len: "length (snd (markAcked s ack ps)) = length ps" for s ps
    by (induction s ack ps rule: markAcked.induct) (auto split: prod.splits)
  obtain s ps where m: "markAcked (ssn sl) ack (pkts sl) = (s, ps)" by fastforce
  have "ps = [] \<longleftrightarrow> pkts sl = []" using len [of "ssn sl" "pkts sl"] m by auto
  then show ?thesis
    using m by (auto simp: sl_RecvAck_def sl_Newest_def removeRecvd_def Let_def split: list.split)
qed

lemma tx_RecvACK_total: "\<exists>tx e. tx_RecvACK tx0 ack = Some (tx, e)"
  using sl_RecvAck_total [of "slist tx0" ack "tx_Size tx0"] by (auto simp: tx_RecvACK_def Let_def)

section \<open>Accepting a segment\<close>

lemma recvAccepted_sync:
  assumes rest: "rx_rest W irs rd r (bufRx h) (reasm h)" and h: "\<not> shutdownRx h" "policy h = None"
    and nxt: "rNXT (rcvS (scb h)) = irs + of_nat (r + length p)"
    and p: "p = take n (drop r W)" "int (length p) \<le> ring_Free (bufRx h)"
    and seg: "DATALEN seg = of_nat (length p)" "length p < 2147483648" "\<not> HasAny (SegFlags seg) flagctl"
  shows "\<exists>h' r'. recvAccepted h s una rport frm seg p = Some (h', None) \<and> r \<le> r' \<and>
    rx_sync W irs rd h' r' \<and> \<not> shutdownRx h' \<and> policy h' = None \<and> tcbState (scb h') = tcbState (scb h)"
proof -
  have dl: "DATALEN seg = 0 \<longleftrightarrow> p = []"
    using seg(1,2) by (simp add: word_unat_eq_iff unat_of_nat)
  have syn: "\<not> HasAny (SegFlags seg) FlagSYN" using seg(3) by (simp add: flag_bits)
  obtain h1 r' where h1: "r \<le> r'" "rx_sync W irs rd h1 r'" "\<not> shutdownRx h1" "policy h1 = None"
      "tcbState (scb h1) = tcbState (scb h)"
    and step: "recvAccepted h s una rport frm seg p =
      do { h \<leftarrow> (if HasAny (SegFlags seg) FlagACK \<and> ACK seg \<noteq> una
              then do { (tx, _) \<leftarrow> tx_RecvACK (bufTx h1) (ACK seg); Some (h1\<lparr>bufTx := tx\<rparr>) }
              else Some h1); Some (h, None) }"
  proof (cases "p = []")
    case True
    have "rx_sync W irs rd h r" using rest nxt True by (simp add: rx_sync_def)
    then show ?thesis
      using True dl syn h by (intro that [of r h]) (simp_all add: recvAccepted_def Let_def)
  next
    case False
    obtain rx r' where w: "ring_Write (bufRx h) p = Some (rx, int (length p), None)" "r < r'"
        "rx_sync W irs rd (deliverReassembled (h\<lparr>bufRx := rx\<rparr>)) r'"
      using write_deliver_sync [OF rest h(1) nxt p(1) False p(2)] by blast
    obtain R2 rx2 d2 where re: "reassemble (reasm h) rx (rNXT (rcvS (scb h))) = (R2, rx2, d2)"
      by (cases "reassemble (reasm h) rx (rNXT (rcvS (scb h)))") auto
    show ?thesis
      using False dl syn h w deliverReassembled_eq [of "h\<lparr>bufRx := rx\<rparr>" R2 rx2 d2] re
      by (intro that [of r' "deliverReassembled (h\<lparr>bufRx := rx\<rparr>)"])
        (simp_all add: recvAccepted_def h_State_def Let_def)
  qed
  obtain tx e where tx: "tx_RecvACK (bufTx h1) (ACK seg) = Some (tx, e)" using tx_RecvACK_total by blast
  have "rx_sync W irs rd (h1\<lparr>bufTx := tx\<rparr>) r'" using h1(2) by (rule rx_sync_cong) simp_all
  then show ?thesis using step tx h1 by (cases "HasAny (SegFlags seg) FlagACK \<and> ACK seg \<noteq> una") auto
qed

lemma data_segment_len: "\<not> HasAny (SegFlags seg) flagctl \<Longrightarrow> LEN seg = DATALEN seg"
  by (simp add: LEN_bits flag_bits)

lemma tcb_Recv_stays_synchronized:
  assumes "tcb_Recv t seg = Some (t', err)" "\<not> IsPreestablished (tcbState t)"
  shows "\<not> IsPreestablished (tcbState t')"
  using tcb_Recv_edge [OF assms(1)] assms(2) by (auto simp: edge_iffs IsPreestablished_def)

text \<open>What the receive side of an open connection keeps: no policy, not shut down, past the handshake.\<close>

definition rx_open :: "'p HandlerP \<Rightarrow> bool" where
  "rx_open h \<longleftrightarrow> \<not> shutdownRx h \<and> policy h = None \<and> \<not> IsPreestablished (h_State h)"

text \<open>A data segment of the stream, less than \<open>2^31\<close> bytes away from position \<open>r\<close>.\<close>

definition from_stream :: "bytes \<Rightarrow> Value \<Rightarrow> nat \<Rightarrow> Segment \<Rightarrow> bytes \<Rightarrow> bool" where
  "from_stream W irs r seg p \<longleftrightarrow> \<not> HasAny (SegFlags seg) flagctl \<and>
     (p \<noteq> [] \<longrightarrow> (\<exists>o'. SEQ seg = irs + of_nat o' \<and> r < o' + 2147483648 \<and> o' < r + 2147483648 \<and>
        p = take (length p) (drop o' W)))"

lemma DATALEN_0_iff:
  "DATALEN seg = of_nat (length p) \<Longrightarrow> length p < 2147483648 \<Longrightarrow> DATALEN seg = 0 \<longleftrightarrow> p = []"
  by (simp add: word_unat_eq_iff unat_of_nat)

text \<open>The first half of \<open>recvSegment\<close>: segments ahead of \<open>rcv.NXT\<close>.\<close>

lemma recv_ahead_sync:
  assumes "rx_sync W irs rd h r" "from_stream W irs r seg p"
    and "DATALEN seg = of_nat (length p)" "length p < 2147483648"
  shows "\<exists>h1 c. (if reasm_enabled (reasm h) then handleOutOfOrder h seg p else Some (h, False)) = Some (h1, c) \<and>
    rx_sync W irs rd h1 r \<and> shutdownRx h1 = shutdownRx h \<and> policy h1 = policy h \<and>
    scb h1 = (if c then (scb h)\<lparr>pending0 := pending0 (scb h) OR FlagACK\<rparr> else scb h)"
proof (cases "reasm_enabled (reasm h) \<and> p \<noteq> []")
  case True
  then obtain o' where "SEQ seg = irs + of_nat o'" "r < o' + 2147483648" "o' < r + 2147483648"
    "p = take (length p) (drop o' W)"
    using assms(2) by (auto simp: from_stream_def)
  from handleOutOfOrder_sync [OF assms(1) this] obtain h1 c where
    "handleOutOfOrder h seg p = Some (h1, c)" "rx_sync W irs rd h1 r" "shutdownRx h1 = shutdownRx h"
    "Handler.more h1 = Handler.more h"
    "scb h1 = (if c then (scb h)\<lparr>pending0 := pending0 (scb h) OR FlagACK\<rparr> else scb h)"
    by blast
  then show ?thesis using True policy_more [of h1 h] by simp
next
  case False
  then have "(if reasm_enabled (reasm h) then handleOutOfOrder h seg p else Some (h, False)) = Some (h, False)"
    using DATALEN_0_iff [OF assms(3,4)] by (auto simp: handleOutOfOrder_def)
  then show ?thesis using assms(1) by auto
qed

text \<open>The second half: the control block decides, and data it accepts is in order.\<close>

lemma recv_accept_sync:
  assumes sync: "rx_sync W irs rd h r" and op: "rx_open h" and str: "from_stream W irs r seg p"
    and seg: "DATALEN seg = of_nat (length p)" "length p < 2147483648"
    and fit: "int (length p) \<le> ring_Free (bufRx h)"
    and t: "tcb_Recv (scb h) seg = Some (t, None)" "tcbState t \<noteq> StateClosed"
  shows "\<exists>h' r'. recvAccepted (h\<lparr>scb := t\<rparr>) s una rport frm seg p = Some (h', None) \<and>
    r \<le> r' \<and> rx_sync W irs rd h' r' \<and> rx_open h'"
proof -
  let ?h = "h\<lparr>scb := t\<rparr>"
  have pre: "\<not> IsPreestablished (tcbState (scb h))" using op by (simp add: rx_open_def h_State_def)
  have ctl: "\<not> HasAny (SegFlags seg) flagctl" using str by (simp add: from_stream_def)
  have acc: "SEQ seg = rNXT (rcvS (scb h))" "rNXT (rcvS t) = rNXT (rcvS (scb h)) + LEN seg"
    using tcb_Recv_accepted [OF t(1) pre t(2)] by (simp_all add: Add_def)
  have nxt: "rNXT (rcvS (scb h)) = irs + of_nat r" using sync by (simp add: rx_sync_def)
  have p: "p = take (length p) (drop r W)"
  proof (cases "p = []")
    case False
    then obtain o' where o': "SEQ seg = irs + of_nat o'" "r < o' + 2147483648" "o' < r + 2147483648"
        "p = take (length p) (drop o' W)"
      using str by (auto simp: from_stream_def)
    then have "o' = r" using acc(1) nxt seq_eq_close [of o' r irs] by auto
    then show ?thesis using o'(4) by simp
  qed simp
  have nx: "rNXT (rcvS (scb ?h)) = irs + of_nat (r + length p)"
    using acc(2) nxt seg data_segment_len [OF ctl] by simp
  have rest: "rx_rest W irs rd r (bufRx ?h) (reasm ?h)" using sync by (simp add: rx_sync_def)
  obtain h' r' where "recvAccepted ?h s una rport frm seg p = Some (h', None)" "r \<le> r'"
      "rx_sync W irs rd h' r'" "\<not> shutdownRx h'" "policy h' = None" "tcbState (scb h') = tcbState t"
    using recvAccepted_sync [OF rest _ _ nx p _ seg ctl] op fit by (fastforce simp: rx_open_def)
  then show ?thesis
    using tcb_Recv_stays_synchronized [OF t(1) pre] by (auto simp: h_State_def rx_open_def)
qed

text \<open>A handler that is still open, in step with the stream.\<close>

definition rx_state :: "bytes \<Rightarrow> Value \<Rightarrow> nat \<Rightarrow> nat \<Rightarrow> 'p HandlerP \<Rightarrow> bool" where
  "rx_state W irs rd r h \<longleftrightarrow>
     h_State h = StateClosed \<or> rx_open h \<and> (\<exists>r' \<ge> r. rx_sync W irs rd h r')"

lemma recvSegment_sync:
  assumes sync: "rx_sync W irs rd h r" and op: "rx_open h" "h_State h \<noteq> StateTimeWait"
    and str: "from_stream W irs r seg p" and seg: "DATALEN seg = of_nat (length p)" "length p < 2147483648"
  shows "\<exists>h' err. recvSegment h rport frm seg p = Some (h', err) \<and> rx_state W irs rd r h'"
proof (cases "IncomingIsKeepalive (scb h) seg")
  case True
  then show ?thesis using sync op by (auto simp: recvSegment_def rx_state_def)
next
  case False
  obtain h1 c where h1: "(if reasm_enabled (reasm h) then handleOutOfOrder h seg p else Some (h, False)) = Some (h1, c)"
      "rx_sync W irs rd h1 r" "shutdownRx h1 = shutdownRx h" "policy h1 = policy h"
      "scb h1 = (if c then (scb h)\<lparr>pending0 := pending0 (scb h) OR FlagACK\<rparr> else scb h)"
    using recv_ahead_sync [OF sync str seg] by blast
  have open1: "rx_open h1" "h_State h1 \<noteq> StateTimeWait" using op h1 by (auto simp: rx_open_def h_State_def)
  have step: "recvSegment h rport frm seg p =
      (if c then Some (h1, None)
       else if int (length p) > ring_Free (bufRx h1) then Some (h1, Some (Generic ErrBufferFull))
       else do {
         (t, err) \<leftarrow> tcb_Recv (scb h1) seg;
         let h = h1\<lparr>scb := t\<rparr>;
         if err \<noteq> None then Some (h, if h_State h = StateClosed then Some NetClosed else err)
         else if h_State h = StateClosed then Some (h, Some NetClosed)
         else recvAccepted h (h_State h1) (sUNA (sndS (scb h1))) rport frm seg p
       })"
    using False op(1) h1(1,3) by (simp add: recvSegment_def rx_open_def)
  have "tcb_Recv (scb h1) seg \<noteq> None" using open1(2) by (simp add: tcb_Recv_None_iff h_State_def)
  then obtain t err where t: "tcb_Recv (scb h1) seg = Some (t, err)" by auto
  have pre: "\<not> IsPreestablished (tcbState (scb h1))" using open1(1) by (simp add: rx_open_def h_State_def)
  have openh: "rx_open (h1\<lparr>scb := t\<rparr>)"
    using open1(1) tcb_Recv_stays_synchronized [OF t pre] by (simp add: rx_open_def h_State_def)
  consider "c \<or> int (length p) > ring_Free (bufRx h1)"
    | "\<not> c" "int (length p) \<le> ring_Free (bufRx h1)" "tcbState t = StateClosed"
    | e where "\<not> c" "int (length p) \<le> ring_Free (bufRx h1)" "tcbState t \<noteq> StateClosed" "err = Some e"
    | "\<not> c" "int (length p) \<le> ring_Free (bufRx h1)" "tcbState t \<noteq> StateClosed" "err = None"
    by (cases "c \<or> int (length p) > ring_Free (bufRx h1)"; cases "tcbState t = StateClosed"; cases err) auto
  then show ?thesis
  proof cases
    case 1
    then show ?thesis using step h1(2) open1 by (auto simp: rx_state_def)
  next
    case 2
    then have "\<exists>h' e. recvSegment h rport frm seg p = Some (h', e) \<and> h_State h' = StateClosed"
      using step t by (cases err) (auto simp: h_State_def)
    then show ?thesis by (auto simp: rx_state_def)
  next
    case 3
    then have "rcvS t = rcvS (scb h1)" using tcb_Recv_refused_keeps [of "scb h1" seg t e] t pre by auto
    then have "rx_sync W irs rd (h1\<lparr>scb := t\<rparr>) r" using h1(2) by (simp add: rx_sync_def)
    then show ?thesis using step t 3 openh by (auto simp: h_State_def rx_state_def)
  next
    case 4
    then show ?thesis
      using recv_accept_sync [OF h1(2) open1(1) str seg 4(2), of t] step t
      by (fastforce simp: h_State_def rx_state_def)
  qed
qed

text \<open>
  A packet of the stream: if it parses, it is a data segment of it or carries no data.
\<close>

definition carries :: "bytes \<Rightarrow> Value \<Rightarrow> nat \<Rightarrow> bytes \<Rightarrow> bool" where
  "carries W irs r pkt \<longleftrightarrow> (\<forall>payload seg. tcp_Payload pkt = Some payload \<longrightarrow>
     tcp_Segment pkt (int (length payload)) = Some seg \<longrightarrow> from_stream W irs r seg payload)"

lemma scaleIn_simps [simp]:
  "SEQ (scaleIn h seg) = SEQ seg" "SegFlags (scaleIn h seg) = SegFlags seg"
  "DATALEN (scaleIn h seg) = DATALEN seg" "ACK (scaleIn h seg) = ACK seg"
  by (simp_all add: scaleIn_def)

lemma validated_sizes:
  assumes "tcp_ValidateExceptCRC frm v = Some v'" "snd (vld_ErrPop v') = None"
  shows "\<exists>payload. tcp_Payload frm = Some payload"
proof -
  obtain v1 where v1: "tcp_ValidateSize frm v = Some v1" "accum v' = [] \<Longrightarrow> accum v1 = []"
    using assms(1)
    by (auto simp: tcp_ValidateExceptCRC_def vld_AddError_def Let_def split: bind_splits if_splits)
  have "vld_clean v1" using v1(2) assms(2) by (simp add: ErrPop_None_iff vld_clean_def)
  then obtain hl where "tcp_HeaderLength frm = Some (int hl)" "hl \<le> length frm"
    using validated_header [OF v1(1)] by blast
  then show ?thesis by (simp add: tcp_Payload_def)
qed

lemma h_Recv_sync:
  assumes "rx_sync W irs rd h r" "rx_open h" "h_State h \<noteq> StateTimeWait"
    and "carries W irs r pkt" "length pkt < 2147483648"
  shows "\<exists>h' err. h_Recv h pkt = Some (h', err) \<and> rx_state W irs rd r h'"
proof -
  have stay: "rx_state W irs rd r (h\<lparr>validator := v\<rparr>)" for v
    using assms(1,2) by (auto simp: rx_state_def rx_sync_def rx_open_def h_State_def)
  have stay': "rx_state W irs rd r h" using assms(1,2) by (auto simp: rx_state_def)
  show ?thesis
  proof (cases "IsTxOver h \<or> length pkt < 20")
    case True
    then show ?thesis using stay' by (auto simp: h_Recv_def tcp_NewFrame_def sizeHeaderTCP_def)
  next
    case False
    then have new: "tcp_NewFrame pkt = (pkt, None)" by (simp add: tcp_NewFrame_def sizeHeaderTCP_def)
    have fields: "\<exists>x. tcp_SourcePort pkt = Some x" "\<exists>x. tcp_DestinationPort pkt = Some x"
        "\<exists>x. tcp_Seq pkt = Some x" "\<exists>x. tcp_Ack pkt = Some x" "\<exists>x. tcp_WindowSize pkt = Some x"
        "\<exists>x. get16 pkt 12 = Some x"
      using False by (auto simp: tcp_field_defs get_be_def)
    then obtain v where v: "tcp_ValidateExceptCRC pkt (validator h) = Some v"
      by (auto simp: tcp_ValidateExceptCRC_def tcp_ValidateSize_def tcp_HeaderLength_def
          tcp_OffsetAndFlags_def Let_def)
    obtain v' err where pop: "vld_ErrPop v = (v', err)" by fastforce
    obtain sp dp where ports: "tcp_SourcePort pkt = Some sp" "tcp_DestinationPort pkt = Some dp"
      using fields by blast
    let ?h = "h\<lparr>validator := v'\<rparr>"
    show ?thesis
    proof (cases "err \<noteq> None \<or> (remotePort h \<noteq> 0 \<and> sp \<noteq> remotePort h) \<or> localPort h \<noteq> dp")
      case True
      then have "\<exists>e. h_Recv h pkt = Some (?h, e)"
        using False new v pop ports by (cases err) (auto simp: h_Recv_def Let_def)
      then show ?thesis using stay by blast
    next
      case ok: False
      then obtain p where p: "tcp_Payload pkt = Some p" using validated_sizes [OF v] pop by auto
      then have len: "length p < 2147483648"
        using assms(5) by (auto simp: tcp_Payload_def go_slice_def split: bind_splits if_splits)
      obtain seg where seg: "tcp_Segment pkt (int (length p)) = Some seg" "DATALEN seg = of_nat (length p)"
        using fields len by (auto simp: tcp_Segment_def)
      have "from_stream W irs r (scaleIn ?h seg) p"
        using assms(4) p seg(1) by (auto simp: carries_def from_stream_def)
      moreover have "rx_sync W irs rd ?h r" "rx_open ?h" "h_State ?h \<noteq> StateTimeWait"
        using assms(1-3) by (simp_all add: rx_sync_def rx_open_def h_State_def)
      ultimately have "\<exists>h' err. recvSegment ?h sp pkt (scaleIn ?h seg) p = Some (h', err) \<and> rx_state W irs rd r h'"
        using seg(2) len by (intro recvSegment_sync) auto
      then show ?thesis using ok False new v pop ports p seg(1) by (auto simp: h_Recv_def Let_def)
    qed
  qed
qed

section \<open>Reading\<close>

lemma rx_rest_ring:
  assumes "rx_rest W irs rd r rx R"
  shows "\<exists>v. ring_is rx v (r - rd)" "ring_Buffered rx = int (r - rd)"
proof -
  obtain os v where "rx_buf W rd r rx os v" using assms by (auto simp: rx_rest_def)
  then have "ring_is rx v (r - rd)" by (simp add: rx_buf_def)
  then show "\<exists>v. ring_is rx v (r - rd)" "ring_Buffered rx = int (r - rd)" using ring_isD(7) by auto
qed

lemma deliver_rest_sync:
  assumes "rx_sync W irs rd h r" "\<not> shutdownRx h"
  shows "\<exists>r' \<ge> r. rx_sync W irs rd (deliverReassembled h) r'"
proof -
  obtain os v where b: "rx_buf W rd r (bufRx h) os v" and held: "held (reasm h) = map (seg_of irs) os"
    using assms(1) by (auto simp: rx_sync_def rx_rest_def)
  have nxt: "rNXT (rcvS (scb h)) = irs + of_nat r" using assms(1) by (simp add: rx_sync_def)
  from reasm_loop_delivers [OF b, of irs 0] obtain r' rx' os' where r':
    "reasm_loop (map (seg_of irs) os) (bufRx h) (irs + of_nat r) 0 =
       (map (seg_of irs) os', rx', 0 + of_nat (r' - r))" "r \<le> r'"
    "rx_buf W rd r' rx' os' v" "\<forall>p \<in> set os'. r' < fst p"
    by blast
  let ?R = "(reasm h)\<lparr>held := map (seg_of irs) os'\<rparr>"
  have "reassemble (reasm h) (bufRx h) (rNXT (rcvS (scb h))) = (?R, rx', of_nat (r' - r))"
    using r'(1) held nxt by (simp add: reassemble_def)
  note d = deliverReassembled_eq [OF assms(2) this]
  have "irs + of_nat r + of_nat (r' - r) = irs + of_nat r'"
    using r'(2) by (metis add.assoc le_add_diff_inverse of_nat_add)
  moreover have "rx_rest W irs rd r' rx' ?R" using r'(3,4) by (intro rx_restI) auto
  ultimately have "rx_sync W irs rd (deliverReassembled h) r'" using d nxt by (simp add: rx_sync_def)
  then show ?thesis using r'(2) by blast
qed

lemma deliver_keeps [simp]:
  "tcbState (scb (deliverReassembled h)) = tcbState (scb h)"
  "shutdownRx (deliverReassembled h) = shutdownRx h"
  "bufRx (maybeQueueWindowUpdate h) = bufRx h" "reasm (maybeQueueWindowUpdate h) = reasm h"
  "rcvS (scb (maybeQueueWindowUpdate h)) = rcvS (scb h)"
  "tcbState (scb (maybeQueueWindowUpdate h)) = tcbState (scb h)"
  "shutdownRx (maybeQueueWindowUpdate h) = shutdownRx h"
  by (simp_all add: deliverReassembled_def maybeQueueWindowUpdate_def queueAck_def Let_def split: prod.split)

lemma h_Read_sync:
  assumes "rx_sync W irs rd h r" "rx_open h"
  shows "\<exists>h' b err. h_Read h k = Some (h', b, err) \<and> b = take k (drop rd (take r W)) \<and> rx_open h' \<and>
    (\<exists>r' \<ge> r. rx_sync W irs (rd + length b) h' r') \<and> h_State h' = h_State h"
proof -
  have rest: "rx_rest W irs rd r (bufRx h) (reasm h)" and sh: "\<not> shutdownRx h"
    using assms by (simp_all add: rx_sync_def rx_open_def)
  have rd: "rd \<le> r" "r \<le> length W" using rx_rest_contents(3,4) [OF rest] .
  show ?thesis
  proof (cases "0 < k \<and> rd < r")
    case True
    then obtain rx b where b: "ring_Read (bufRx h) k = Some (rx, b, None)" "b = take k (drop rd (take r W))"
        "b \<noteq> []" "rx_rest W irs (rd + length b) r rx (reasm h)"
      using rx_read [OF rest] by blast
    let ?h = "h\<lparr>bufRx := rx\<rparr>"
    have "rx_sync W irs (rd + length b) ?h r" using b(4) assms(1) by (simp add: rx_sync_def)
    then obtain r' where r': "r' \<ge> r" "rx_sync W irs (rd + length b) (deliverReassembled ?h) r'"
      using deliver_rest_sync [of W irs "rd + length b" ?h r] sh by auto
    let ?h' = "maybeQueueWindowUpdate (deliverReassembled ?h)"
    have "rx_sync W irs (rd + length b) ?h' r'" using r'(2) by (rule rx_sync_cong) simp_all
    moreover have "rx_open ?h'" "h_State ?h' = h_State h"
      using assms(2) by (simp_all add: rx_open_def h_State_def)
    moreover have "h_Read h k = Some (?h', b, None)"
      using b(1,3) sh True rx_rest_ring(2) [OF rest] by (simp add: h_Read_def)
    ultimately show ?thesis using b(2) r'(1) by blast
  next
    case False
    obtain v where v: "ring_is (bufRx h) v (r - rd)" using rx_rest_ring(1) [OF rest] by blast
    have nil: "take k (drop rd (take r W)) = []" using False rd by auto
    have "\<exists>err. h_Read h k = Some (h, [], err)"
      using False sh rx_rest_ring(2) [OF rest] ring_Read_nothing [OF v, of k] rd by (auto simp: h_Read_def)
    then show ?thesis using nil assms by auto
  qed
qed

section \<open>The other operations\<close>

text \<open>Sending, writing and closing leave the receive side alone, unless the connection ends.\<close>

definition rx_same :: "'p HandlerP \<Rightarrow> 'p HandlerP \<Rightarrow> bool" where
  "rx_same h h' \<longleftrightarrow> bufRx h' = bufRx h \<and> reasm h' = reasm h \<and>
     rNXT (rcvS (scb h')) = rNXT (rcvS (scb h)) \<and> shutdownRx h' = shutdownRx h \<and> policy h' = policy h \<and>
     (h_State h \<noteq> StateClosed \<and> \<not> IsPreestablished (h_State h) \<longrightarrow>
        h_State h' \<noteq> StateClosed \<and> \<not> IsPreestablished (h_State h'))"

lemma rx_same_refl [simp]: "rx_same h h"
  by (simp add: rx_same_def)

lemma rx_same_trans: "rx_same h h1 \<Longrightarrow> rx_same h1 h2 \<Longrightarrow> rx_same h h2"
  by (simp add: rx_same_def)

lemma rx_same_fields [simp]:
  "rx_same h (h\<lparr>bufTx := tx\<rparr>)" "rx_same h (h\<lparr>requeueControl := q\<rparr>)" "rx_same h (h\<lparr>closing := c\<rparr>)"
  by (simp_all add: rx_same_def h_State_def)

lemma tcb_Close_rx:
  assumes "tcb_Close (scb h) = (t, None)" "h_State h \<noteq> StateClosed" "\<not> IsPreestablished (h_State h)"
  shows "rx_same h (h\<lparr>closing := c, scb := t\<rparr>)"
  using assms by (auto simp: tcb_Close_def rx_same_def h_State_def IsPreestablished_def split: State.splits)

lemma sendDispatch_rcvS: "tcbState t \<noteq> StateClosed \<Longrightarrow> rcvS (sendDispatch t seg) = rcvS t"
  by (cases "tcbState t") (simp_all add: sendDispatch_def Let_def)

lemma advance_rcvS [simp]: "rcvS (advancePending t seg) = rcvS t" "rcvS (triggerChallengeAckSent t) = rcvS t"
  by (simp_all add: advancePending_def triggerChallengeAckSent_def Let_def)

lemma tcb_Send_rNXT:
  assumes "tcb_Send t seg = (t', None)" "tcbState t \<noteq> StateClosed"
  shows "rNXT (rcvS t') = rNXT (rcvS t)"
proof -
  have "validateOutgoingSegment t seg = None" using assms(1) by (auto simp: tcb_Send_def split: option.splits)
  then have "rNXT (rcvS (fst (tcb_Send t seg))) = rNXT (rcvS (sendDispatch t seg))"
    by (simp add: tcb_Send_def Let_def)
  then show ?thesis using sendDispatch_rcvS [OF assms(2)] assms(1) by simp
qed

lemma tcb_Send_rx:
  assumes "tcb_Send (scb h) seg = (t, err)" "h_State h \<noteq> StateClosed" "\<not> IsPreestablished (h_State h)"
  shows "rx_same h (h\<lparr>scb := t\<rparr>)"
proof (cases err)
  case (Some e)
  then show ?thesis using assms(1) tcb_Send_refused by (auto simp: rx_same_def h_State_def)
next
  case None
  have "rNXT (rcvS t) = rNXT (rcvS (scb h))"
    using tcb_Send_rNXT assms(1,2) None by (simp add: h_State_def)
  moreover have "tcbState t = tcbState (sendDispatch (scb h) seg)"
    using assms(1) None tcb_Send_state by simp
  then have "tcbState t \<noteq> StateClosed" "\<not> IsPreestablished (tcbState t)"
    using assms(2,3) by (auto simp: sendDispatch_def h_State_def IsPreestablished_def Let_def split: State.splits)
  ultimately show ?thesis by (simp add: rx_same_def h_State_def)
qed

lemma sendSegment_rx:
  "sendSegment h b offset lim syn req = Some (Nothing h' b' err) \<Longrightarrow> rx_same h h'"
  "sendSegment h b offset lim syn req = Some (Emit h' b' seg off') \<Longrightarrow> rx_same h h' \<and> h_State h' = h_State h"
  by (auto simp: sendSegment_def h_State_def Let_def split: if_splits bind_splits prod.splits)

lemma h_Abort_Closed [simp]: "h_State (h_Abort h) = StateClosed"
  by (simp add: h_Abort_def h_reset_def h_State_def tcb_Abort_def tcb_reset_def zeroTCB_def)

lemma sendEmit_rx:
  assumes "sendEmit h b seg off = Some (h', b', n, err)" "policy h = None" "h_State h \<noteq> StateClosed"
    "\<not> IsPreestablished (h_State h)" "h_State h \<noteq> StateTimeWait"
  shows "h_State h' = StateClosed \<or> rx_same h h'"
proof -
  obtain t e where t: "tcb_Send (scb h) seg = (t, e)" by fastforce
  have same: "rx_same h (h\<lparr>scb := t\<rparr>)" using t assms(3,4) by (rule tcb_Send_rx)
  then have same': "rx_same h (h\<lparr>scb := t, requeueControl := False\<rparr>)"
    using rx_same_trans rx_same_fields(2) by blast
  have "h' = h\<lparr>scb := t\<rparr> \<or> h' = h\<lparr>scb := t, requeueControl := False\<rparr> \<or>
      h' = h_Abort (h\<lparr>scb := t, requeueControl := False\<rparr>)"
    using assms(1,2,5) t by (auto simp: sendEmit_def Let_def split: if_splits bind_splits)
  then show ?thesis using same same' by auto
qed

lemma sendAutoClose_rx [simp]: "rx_same h (sendAutoClose h)" "h_State (sendAutoClose h) = h_State h"
  "policy (sendAutoClose h) = policy h"
  by (simp_all add: sendAutoClose_def h_State_def)

lemma sendClose_rx:
  assumes "sendClose h = (h', None)" "h_State h \<noteq> StateClosed" "\<not> IsPreestablished (h_State h)"
    "h_State h \<noteq> StateTimeWait"
  shows "rx_same h h' \<and> h_State h' \<noteq> StateTimeWait"
proof -
  obtain t e where t: "tcb_Close (scb h) = (t, e)" by fastforce
  then have "e = None \<Longrightarrow> tcbState t \<noteq> StateTimeWait"
    using assms(4) by (auto simp: tcb_Close_def tcb_Abort_def tcb_reset_def zeroTCB_def h_State_def split: State.splits)
  then show ?thesis
    using assms t tcb_Close_rx [of h t False] by (auto simp: sendClose_def h_State_def split: if_splits)
qed

lemma sendFrom_rx:
  assumes "sendFrom h b off lim = Some (h', b', n, err)" "policy h = None" "h_State h \<noteq> StateClosed"
    "\<not> IsPreestablished (h_State h)" "h_State h \<noteq> StateTimeWait"
  shows "h_State h' = StateClosed \<or> rx_same h h'"
proof -
  let ?h = "sendAutoClose h"
  obtain h2 e where c: "sendClose ?h = (h2, e)" by fastforce
  consider "h' = ?h" | "h' = h_Abort h2"
    | h3 b3 e3 where "e = None" "sendSegment h2 b off lim (AwaitingSynSend h) (requeueControl h) = Some (Nothing h3 b3 e3)" "h' = h3"
    | h3 b3 seg off3 where "e = None"
        "sendSegment h2 b off lim (AwaitingSynSend h) (requeueControl h) = Some (Emit h3 b3 seg off3)"
        "sendEmit h3 b3 seg off3 = Some (h', b', n, err)"
    using assms(1) c
    by (auto simp: sendFrom_def Let_def split: if_splits option.splits bind_splits sendChoice.splits)
  then show ?thesis
  proof cases
    case (3 h3 b3 e3)
    then have "rx_same ?h h2" using sendClose_rx [of ?h h2] c assms by simp
    then show ?thesis using 3 sendSegment_rx(1) [OF 3(2)] rx_same_trans sendAutoClose_rx(1) by blast
  next
    case (4 h3 b3 seg off3)
    have s2: "rx_same ?h h2" "h_State h2 \<noteq> StateTimeWait" using 4(1) sendClose_rx [of ?h h2] c assms by simp_all
    have s3: "rx_same h2 h3" "h_State h3 = h_State h2" using sendSegment_rx(2) [OF 4(2)] by simp_all
    have "rx_same h h3" using s2 s3 rx_same_trans sendAutoClose_rx(1) by blast
    then show ?thesis
      using sendEmit_rx [OF 4(3)] s2 s3 assms rx_same_trans [of h h3 h'] by (auto simp: rx_same_def)
  qed auto
qed

lemma h_Send_rx:
  assumes "h_Send h b = Some (h', b', n, err)" "policy h = None" "h_State h \<noteq> StateClosed"
    "\<not> IsPreestablished (h_State h)" "h_State h \<noteq> StateTimeWait"
  shows "h_State h' = StateClosed \<or> rx_same h h'"
  using assms sendFrom_rx [of h b 5 TransmitUnlimited h' b' n err]
  by (auto simp: h_Send_def sendPolicy_def split: if_splits prod.splits option.splits)

section \<open>A connection fed with a stream\<close>

text \<open>
  What the application and the network do with an open connection, and what the application
  has read so far. A packet is a part of the stream less than \<open>2^31\<close> bytes from where the
  stream stands, or carries no data, or is refused as malformed.
\<close>

definition stream_pos :: "'a Handler_scheme \<Rightarrow> bytes \<Rightarrow> nat" where
  "stream_pos h out = length out + length (ring_contents (bufRx h))"

inductive app_step :: "bytes \<Rightarrow> Value \<Rightarrow> 'p HandlerP \<times> bytes \<Rightarrow> 'p HandlerP \<times> bytes \<Rightarrow> bool"
  for W irs where
  recv: "\<lbrakk>h_State h \<notin> {StateClosed, StateTimeWait}; carries W irs (stream_pos h out) pkt; length pkt < 2147483648;
      h_Recv h pkt = Some (h', err)\<rbrakk> \<Longrightarrow> app_step W irs (h, out) (h', out)"
| read: "\<lbrakk>h_State h \<notin> {StateClosed, StateTimeWait}; h_Read h k = Some (h', b, err)\<rbrakk> \<Longrightarrow>
    app_step W irs (h, out) (h', out @ b)"
| put: "\<lbrakk>h_State h \<notin> {StateClosed, StateTimeWait}; h_Write h d = Some (h', n, err)\<rbrakk> \<Longrightarrow>
    app_step W irs (h, out) (h', out)"
| send: "\<lbrakk>h_State h \<notin> {StateClosed, StateTimeWait}; h_Send h b = Some (h', b', n, err)\<rbrakk> \<Longrightarrow>
    app_step W irs (h, out) (h', out)"
| close: "\<lbrakk>h_State h \<notin> {StateClosed, StateTimeWait}; h_Close h = (h', err)\<rbrakk> \<Longrightarrow>
    app_step W irs (h, out) (h', out)"

definition hstream_inv :: "bytes \<Rightarrow> Value \<Rightarrow> 'p HandlerP \<Rightarrow> bytes \<Rightarrow> bool" where
  "hstream_inv W irs h out \<longleftrightarrow> h_State h = StateClosed \<or>
     rx_open h \<and> rx_sync W irs (length out) h (stream_pos h out) \<and> out = take (length out) W"

lemma hstream_invI:
  assumes "rx_open h" "rx_sync W irs (length out) h r" "out = take (length out) W"
  shows "hstream_inv W irs h out"
proof -
  have "rx_rest W irs (length out) r (bufRx h) (reasm h)" using assms(2) by (simp add: rx_sync_def)
  then have "stream_pos h out = r" using rx_rest_contents(2,3) by (fastforce simp: stream_pos_def)
  then show ?thesis using assms by (simp add: hstream_inv_def)
qed

lemma hstream_inv_same:
  assumes "hstream_inv W irs h out" "rx_same h h'" "h_State h \<noteq> StateClosed"
  shows "hstream_inv W irs h' out"
  using assms by (auto simp: hstream_inv_def rx_same_def rx_sync_def rx_open_def stream_pos_def)

lemma rx_state_inv:
  assumes "rx_state W irs (length out) r h" "out = take (length out) W"
  shows "hstream_inv W irs h out"
proof (cases "h_State h = StateClosed")
  case False
  then show ?thesis using assms hstream_invI unfolding rx_state_def by blast
qed (simp add: hstream_inv_def)

lemma app_step_inv:
  assumes "app_step W irs (h, out) (h', out')" "hstream_inv W irs h out"
  shows "hstream_inv W irs h' out'"
  using assms(1)
proof cases
  case (recv pkt err)
  then have "rx_open h" "rx_sync W irs (length out) h (stream_pos h out)" "out = take (length out) W"
    using assms(2) by (auto simp: hstream_inv_def)
  then have "rx_state W irs (length out) (stream_pos h out) h'"
    using h_Recv_sync [of W irs "length out" h "stream_pos h out" pkt] recv by auto
  then show ?thesis using rx_state_inv recv(1) \<open>out = take (length out) W\<close> by simp
next
  case (read k b err)
  then have a: "rx_open h" "rx_sync W irs (length out) h (stream_pos h out)" "out = take (length out) W"
    using assms(2) by (auto simp: hstream_inv_def)
  obtain r' where b: "b = take k (drop (length out) (take (stream_pos h out) W))" "rx_open h'"
      "rx_sync W irs (length out + length b) h' r'"
    using h_Read_sync [OF a(2,1), of k] read by auto
  have "b = take (length b) (drop (length out) W)" using b(1) by (simp add: drop_take min_def)
  then have "out @ b = take (length (out @ b)) W"
    using a(3) take_add [of "length out" "length b" W] by simp
  moreover have "rx_sync W irs (length (out @ b)) h' r'" using b(3) by simp
  ultimately have "hstream_inv W irs h' (out @ b)" using hstream_invI b(2) by blast
  then show ?thesis using read(1) by simp
next
  case (put d n err)
  then have "rx_same h h'" by (auto simp: h_Write_def split: if_splits bind_splits)
  then show ?thesis using hstream_inv_same [OF assms(2)] put by auto
next
  case (send b b' n err)
  then have "policy h = None" "\<not> IsPreestablished (h_State h)"
    using assms(2) by (auto simp: hstream_inv_def rx_open_def)
  then consider "h_State h' = StateClosed" | "rx_same h h'" using h_Send_rx send by blast
  then show ?thesis using hstream_inv_same [OF assms(2)] send by cases (auto simp: hstream_inv_def)
next
  case (close err)
  then have "rx_same h h'" by (auto simp: h_Close_def split: if_splits)
  then show ?thesis using hstream_inv_same [OF assms(2)] close by auto
qed

text \<open>
  C17. A connection hands out exactly the stream its peer sent. Start from any open handler
  whose receive side is empty, let the network deliver parts of the stream in any order, any
  number of times, and let the application read, write, send and close at will: as long as
  the connection is not torn down, what has been read followed by what can be read is the
  prefix of the stream up to \<open>rcv.NXT\<close>, and neither \<open>Recv\<close> nor \<open>Read\<close> panics.
\<close>

theorem handler_delivers_stream:
  assumes "rx_open h0" "rx_sync W irs 0 h0 0" "(app_step W irs)\<^sup>*\<^sup>* (h0, []) (h, out)"
    and "h_State h \<notin> {StateClosed, StateTimeWait}"
  shows "out @ ring_contents (bufRx h) = take (stream_pos h out) W \<and>
    rNXT (rcvS (scb h)) = irs + of_nat (stream_pos h out) \<and> h_Read h k \<noteq> None \<and>
    (carries W irs (stream_pos h out) pkt \<and> length pkt < 2147483648 \<longrightarrow> h_Recv h pkt \<noteq> None)"
proof -
  have "hstream_inv W irs (fst (h, out)) (snd (h, out))"
    using assms(3)
  proof (induction rule: rtranclp_induct)
    case base
    then show ?case using hstream_invI [OF assms(1), of W irs "[]" 0] assms(2) by simp
  next
    case (step y z)
    then show ?case using app_step_inv [of W irs "fst y" "snd y" "fst z" "snd z"] by simp
  qed
  then have inv: "rx_open h" "rx_sync W irs (length out) h (stream_pos h out)" "out = take (length out) W"
    using assms(4) by (auto simp: hstream_inv_def)
  then have c: "ring_contents (bufRx h) = take (stream_pos h out - length out) (drop (length out) W)"
    using rx_rest_contents(1) by (auto simp: rx_sync_def)
  have "out @ ring_contents (bufRx h) = take (stream_pos h out) W"
    using c inv(3) take_add [of "length out" "stream_pos h out - length out" W] by (simp add: stream_pos_def)
  moreover have "rNXT (rcvS (scb h)) = irs + of_nat (stream_pos h out)"
    using inv(2) by (simp add: rx_sync_def)
  ultimately show ?thesis
    using h_Read_sync [OF inv(2,1), of k] h_Recv_sync [OF inv(2,1), of pkt] assms(4) by auto
qed

subsection \<open>An example\<close>

text \<open>An established connection with an eight-byte receive buffer, and two segments of a stream.\<close>

definition demoHandler :: "unit HandlerP" where
  "demoHandler =
     \<lparr>connid = 1,
      scb = zeroTCB\<lparr>tcbState := StateEstablished, rcvS := \<lparr>rIRS = 4294967293, rNXT = 4294967294, rWND = 8\<rparr>,
        sndS := zeroSnd\<lparr>sISS := 9, sUNA := 10, sNXT := 10, sWND := 100\<rparr>\<rparr>,
      bufTx = demoTx 4, bufRx = demoRx, validator = \<lparr>accum = [], accumBitpos = [], vldFlags = 0\<rparr>,
      localPort = 80, remotePort = 8080, optcodec = 0, wndShiftLocal = 0, wndShiftPeer = 0,
      peerOfferedWS = False, reasm = \<lparr>held = [], heldCap = 8\<rparr>, closing = False, shutdownRx = False,
      requeueControl = False, policy = None\<rparr>"

text \<open>A packet of \<open>demoWords\<close> as the peer sends it: position and length in the stream.\<close>

definition demoPkt :: "nat \<Rightarrow> nat \<Rightarrow> bytes" where
  "demoPkt o' n = the (do {
     frm \<leftarrow> tcp_SetSourcePort (replicate 20 0) 8080;
     frm \<leftarrow> tcp_SetDestinationPort frm 80;
     tcp_SetSegment frm \<lparr>SEQ = 4294967294 + of_nat o', ACK = 10, DATALEN = 0, WND = 100, SegFlags = pshack\<rparr> 5
   }) @ take n (drop o' demoWords)"

lemma demoPkt_carries:
  assumes "tcp_Payload (demoPkt o' n) = Some p" "p = take (length p) (drop o' demoWords)"
    "tcp_Segment (demoPkt o' n) (int (length p)) = Some seg" "SEQ seg = 4294967294 + of_nat o'"
    "\<not> HasAny (SegFlags seg) flagctl" "r < o' + 2147483648" "o' < r + 2147483648"
  shows "carries demoWords 4294967294 r (demoPkt o' n)"
  using assms by (auto simp: carries_def from_stream_def)

lemma demo_sync: "rx_open demoHandler" "rx_sync W 4294967294 0 demoHandler 0"
proof -
  show "rx_open demoHandler" by (simp add: rx_open_def demoHandler_def h_State_def IsPreestablished_def)
  have "rx_buf W 0 0 demoRx [] [0, 0, 0, 0, 0, 0, 0, 0]"
    using demoRx_is by (simp add: rx_buf_def agree_def apart_def)
  then have "rx_rest W 4294967294 0 0 demoRx \<lparr>held = [], heldCap = 8\<rparr>" by (rule rx_restI) simp_all
  then show "rx_sync W 4294967294 0 demoHandler 0" by (simp add: rx_sync_def demoHandler_def)
qed

definition demoH1 :: "unit HandlerP" where "demoH1 = fst (the (h_Recv demoHandler (demoPkt 3 2)))"
definition demoH2 :: "unit HandlerP" where "demoH2 = fst (the (h_Recv demoH1 (demoPkt 0 3)))"

lemma demo_runs:
  "h_Recv demoHandler (demoPkt 3 2) = Some (demoH1, None)" "h_Recv demoH1 (demoPkt 0 3) = Some (demoH2, None)"
proof -
  have some: "x = Some (fst (the x), None)" if "map_option snd x = Some None" for x :: "(unit HandlerP \<times> goerror option) option"
    using that by (cases x) auto
  show "h_Recv demoHandler (demoPkt 3 2) = Some (demoH1, None)"
    unfolding demoH1_def by (rule some) code_simp
  show "h_Recv demoH1 (demoPkt 0 3) = Some (demoH2, None)"
    unfolding demoH2_def by (rule some) code_simp
qed

lemma demo_packets:
  "carries demoWords 4294967294 0 (demoPkt 3 2)" "carries demoWords 4294967294 0 (demoPkt 0 3)"
  "length (demoPkt 3 2) < 2147483648" "length (demoPkt 0 3) < 2147483648"
proof -
  have p: "tcp_Payload (demoPkt 3 2) = Some [4, 5]" "[4, 5] = take (length [4, 5 :: u8]) (drop 3 demoWords)"
    "tcp_Segment (demoPkt 3 2) (int (length [4, 5 :: u8])) =
       Some \<lparr>SEQ = 1, ACK = 10, DATALEN = 2, WND = 100, SegFlags = pshack\<rparr>"
    "tcp_Payload (demoPkt 0 3) = Some [1, 2, 3]" "[1, 2, 3] = take (length [1, 2, 3 :: u8]) (drop 0 demoWords)"
    "tcp_Segment (demoPkt 0 3) (int (length [1, 2, 3 :: u8])) =
       Some \<lparr>SEQ = 4294967294, ACK = 10, DATALEN = 3, WND = 100, SegFlags = pshack\<rparr>"
    "\<not> HasAny pshack flagctl" "length (demoPkt 3 2) = 22" "length (demoPkt 0 3) = 23"
    by code_simp+
  show "carries demoWords 4294967294 0 (demoPkt 3 2)" using p(7) by (intro demoPkt_carries [OF p(1-3)]) simp_all
  show "carries demoWords 4294967294 0 (demoPkt 0 3)" using p(7) by (intro demoPkt_carries [OF p(4-6)]) simp_all
  show "length (demoPkt 3 2) < 2147483648" "length (demoPkt 0 3) < 2147483648" using p(8,9) by simp_all
qed

theorem handler_delivers_stream_witness:
  "ring_contents (bufRx demoH2) = take 5 demoWords \<and> rNXT (rcvS (scb demoH2)) = 3"
proof -
  have st: "h_State demoHandler = StateEstablished" "h_State demoH1 = StateEstablished"
    "h_State demoH2 = StateEstablished" "stream_pos demoHandler [] = 0" "stream_pos demoH1 [] = 0"
    "stream_pos demoH2 [] = 5"
    by code_simp+
  have "app_step demoWords 4294967294 (demoHandler, []) (demoH1, [])"
    using demo_runs(1) demo_packets st by (intro app_step.recv [of _ _ _ _ "demoPkt 3 2"]) simp_all
  moreover have "app_step demoWords 4294967294 (demoH1, []) (demoH2, [])"
    using demo_runs(2) demo_packets st by (intro app_step.recv [of _ _ _ _ "demoPkt 0 3"]) simp_all
  ultimately have "(app_step demoWords 4294967294)\<^sup>*\<^sup>* (demoHandler, []) (demoH2, [])"
    by (meson converse_rtranclp_into_rtranclp rtranclp.rtrancl_refl)
  from handler_delivers_stream [OF demo_sync this] st show ?thesis by simp
qed

end
