(* ===== verification/Tcp_Scenarios.thy ===== *)
theory Tcp_Scenarios
  imports Tcp_Pending
begin

text \<open>
  Two control blocks talking to each other over a link that delivers: the three-way
  handshake, the orderly close, and a data segment, for arbitrary sequence numbers and
  windows. \<open>exchange\<close> is what the two ends of a connection do for one segment: one side asks
  \<open>PendingSegment\<close> what to send and passes it to its own \<open>Send\<close>, the other passes it to \<open>Recv\<close>.
\<close>

definition exchange ::
    "int \<Rightarrow> ControlBlock \<Rightarrow> ControlBlock \<Rightarrow> (ControlBlock \<times> ControlBlock) option" where
  "exchange n a b = do {
     (seg, ok) \<leftarrow> PendingSegment a n;
     if \<not> ok then None
     else let (a', e) = tcb_Send a seg in
       if e \<noteq> None then None
       else do {
         (b', e) \<leftarrow> tcb_Recv b seg;
         if e \<noteq> None then None else Some (a', b')
       }
   }"

text \<open>The client opens actively, the server passively; the SYN and two exchanges follow.\<close>

definition handshake :: "Value \<Rightarrow> Size \<Rightarrow> Value \<Rightarrow> Size \<Rightarrow> (ControlBlock \<times> ControlBlock) option" where
  "handshake ci cw si sw =
     (let (c, e1) = tcb_Send zeroTCB (ClientSynSegment ci cw);
          (s, e2) = tcb_Open zeroTCB si sw
      in if e1 \<noteq> None \<or> e2 \<noteq> None then None
      else do {
        (s, e3) \<leftarrow> tcb_Recv s (ClientSynSegment ci cw);
        if e3 \<noteq> None then None
        else do {
          (s, c) \<leftarrow> exchange 0 s c;
          (c, s) \<leftarrow> exchange 0 c s;
          Some (c, s)
        }
      })"

lemma client_syn_sent:
  assumes "0 < cw" "cw \<le> maxWindow"
  shows "tcb_Send zeroTCB (ClientSynSegment ci cw) =
    (zeroTCB\<lparr>tcbState := StateSynSent, rcvS := zeroRcv\<lparr>rWND := cw\<rparr>,
       sndS := zeroSnd\<lparr>sISS := ci, sUNA := ci, sNXT := ci + 1, sWND := 1\<rparr>\<rparr>, None)"
  using assms
  by (simp add: tcb_Send_def validateOutgoingSegment_def ClientSynSegment_def zeroTCB_def
      isFirstSYN_def sendDispatch_def prepareToHandshake_def advancePending_def
      pendingChallengeAck_def Let_def flag_bits LEN_bits resetSnd_def resetRcv_def tcb_reset_def
      UpdateForward_def zeroRcv_def zeroSnd_def not_less)

lemma server_listens:
  assumes "sw \<le> maxWindow"
  shows "tcb_Open zeroTCB si sw =
    (zeroTCB\<lparr>tcbState := StateListen, rcvS := zeroRcv\<lparr>rWND := sw\<rparr>,
       sndS := zeroSnd\<lparr>sISS := si, sUNA := si, sNXT := si, sWND := 1\<rparr>\<rparr>, None)"
  using assms
  by (simp add: tcb_Open_def zeroTCB_def prepareToHandshake_def resetSnd_def resetRcv_def
      tcb_reset_def zeroRcv_def zeroSnd_def Let_def not_less)

lemma InWindow_self [simp]: "InWindow v v w \<longleftrightarrow> 0 < w"
  by (simp add: InWindow_iff word_less_nat_alt)

lemma and_flag_zero [flag_bits]:
  "f AND FlagFIN = 0 \<longleftrightarrow> \<not> bit f 0" "f AND FlagACK = 0 \<longleftrightarrow> \<not> bit f 4"
  using HasAny_single(1,5) [of f] by (auto simp: HasAny_def)

lemma synack_cancel [simp]: "synack AND NOT synack = 0" "FlagACK AND NOT FlagACK = 0"
  "synack OR synack = synack" "synack \<noteq> 0" "FlagACK \<noteq> 0"
  by (simp_all add: synack_def FlagACK_def FlagSYN_def)

lemmas recv_defs = tcb_Recv_def validateIncomingSegment_def incomingAcceptErr_def
  recvDispatch_def recvFinish_def updateSendWindow_def processAck_def IncomingIsDupACK_def
  triggerChallengeAckSatisfied_def UpdateForward_def LEN_bits Let_def

lemmas send_defs = tcb_Send_def validateOutgoingSegment_def sendDispatch_def advancePending_def
  UpdateForward_def LEN_bits Let_def

lemma server_gets_syn:
  assumes "0 < cw" "cw \<le> maxWindow"
  shows "tcb_Recv (zeroTCB\<lparr>tcbState := StateListen, rcvS := zeroRcv\<lparr>rWND := sw\<rparr>,
       sndS := zeroSnd\<lparr>sISS := si, sUNA := si, sNXT := si, sWND := 1\<rparr>\<rparr>) (ClientSynSegment ci cw) =
    Some (zeroTCB\<lparr>tcbState := StateSynRcvd, pending0 := synack,
       rcvS := \<lparr>rIRS = ci, rNXT = ci + 1, rWND = sw\<rparr>,
       sndS := zeroSnd\<lparr>sISS := si, sUNA := si, sNXT := si, sWND := cw, sWL1 := ci\<rparr>\<rparr>, None)"
  using assms
  by (simp add: recv_defs ClientSynSegment_def zeroTCB_def zeroSnd_def zeroRcv_def rcvListen_def
      resetSnd_def resetRcv_def flag_bits IsPreestablished_def not_less)

lemma server_sends_synack:
  fixes ci si :: Value
  assumes "0 < cw" "cw \<le> maxWindow" "0 < sw" "sw \<le> maxWindow"
  defines "s \<equiv> zeroTCB\<lparr>tcbState := StateSynRcvd, pending0 := synack,
       rcvS := \<lparr>rIRS = ci, rNXT = ci + 1, rWND = sw\<rparr>,
       sndS := zeroSnd\<lparr>sISS := si, sUNA := si, sNXT := si, sWND := cw, sWL1 := ci\<rparr>\<rparr>"
    and "seg \<equiv> \<lparr>SEQ = si, ACK = ci + 1, DATALEN = 0, WND = sw, SegFlags = synack\<rparr>"
  shows "PendingSegment s 0 = Some (seg, True)"
    and "tcb_Send s seg = (s\<lparr>pending0 := 0, sndS := sndS s\<lparr>sNXT := si + 1\<rparr>\<rparr>, None)"
  using assms(1-4)
  by (simp_all add: s_def seg_def PendingSegment_def pendingChallengeAck_def zeroTCB_def zeroSnd_def
      state_preds flag_bits send_defs not_less Last_def Add_def HasPendingRetransmit_def)

lemma client_gets_synack:
  fixes ci si :: Value
  assumes "0 < cw" "cw \<le> maxWindow" "0 < sw" "sw \<le> maxWindow"
  defines "c \<equiv> zeroTCB\<lparr>tcbState := StateSynSent, rcvS := zeroRcv\<lparr>rWND := cw\<rparr>,
       sndS := zeroSnd\<lparr>sISS := ci, sUNA := ci, sNXT := ci + 1, sWND := 1\<rparr>\<rparr>"
  shows "tcb_Recv c \<lparr>SEQ = si, ACK = ci + 1, DATALEN = 0, WND = sw, SegFlags = synack\<rparr> =
    Some (zeroTCB\<lparr>tcbState := StateEstablished, pending0 := FlagACK,
       rcvS := \<lparr>rIRS = si, rNXT = si + 1, rWND = cw\<rparr>,
       sndS := zeroSnd\<lparr>sISS := ci, sUNA := ci + 1, sNXT := ci + 1, sWND := sw, sWL1 := si,
         sWL2 := ci + 1\<rparr>\<rparr>, None)"
  using assms(1-4)
  by (simp add: c_def recv_defs zeroTCB_def zeroSnd_def zeroRcv_def rcvSynSent_def
      resetSnd_def resetRcv_def flag_bits IsPreestablished_def not_less)

lemma client_sends_ack:
  fixes ci si :: Value
  assumes "0 < cw" "cw \<le> maxWindow" "0 < sw" "sw \<le> maxWindow"
  defines "c \<equiv> zeroTCB\<lparr>tcbState := StateEstablished, pending0 := FlagACK,
       rcvS := \<lparr>rIRS = si, rNXT = si + 1, rWND = cw\<rparr>,
       sndS := zeroSnd\<lparr>sISS := ci, sUNA := ci + 1, sNXT := ci + 1, sWND := sw, sWL1 := si,
         sWL2 := ci + 1\<rparr>\<rparr>"
    and "seg \<equiv> \<lparr>SEQ = ci + 1, ACK = si + 1, DATALEN = 0, WND = cw, SegFlags = FlagACK\<rparr>"
  shows "PendingSegment c 0 = Some (seg, True)"
    and "tcb_Send c seg = (c\<lparr>pending0 := 0\<rparr>, None)"
  using assms(1-4)
  by (simp_all add: c_def seg_def PendingSegment_def pendingChallengeAck_def zeroTCB_def zeroSnd_def
      state_preds flag_bits send_defs not_less Last_def Add_def HasPendingRetransmit_def
      retransmitAfterDupacks_def)

lemma server_gets_ack:
  fixes ci si :: Value
  assumes "0 < cw" "cw \<le> maxWindow" "0 < sw" "sw \<le> maxWindow"
  defines "s \<equiv> zeroTCB\<lparr>tcbState := StateSynRcvd, pending0 := 0,
       rcvS := \<lparr>rIRS = ci, rNXT = ci + 1, rWND = sw\<rparr>,
       sndS := zeroSnd\<lparr>sISS := si, sUNA := si, sNXT := si + 1, sWND := cw, sWL1 := ci\<rparr>\<rparr>"
  shows "tcb_Recv s \<lparr>SEQ = ci + 1, ACK = si + 1, DATALEN = 0, WND = cw, SegFlags = FlagACK\<rparr> =
    Some (s\<lparr>tcbState := StateEstablished, sndS := sndS s\<lparr>sUNA := si + 1, sWL1 := ci + 1,
       sWL2 := si + 1\<rparr>\<rparr>, None)"
  using assms(1-4)
  by (simp add: s_def recv_defs zeroTCB_def zeroSnd_def rcvSynRcvd_def
      flag_bits IsPreestablished_def not_less Last_def Add_def)

text \<open>
  C11. The three-way handshake succeeds for any initial sequence numbers and any positive
  permitted windows: both sides reach ESTABLISHED, each side's \<open>snd.NXT\<close> is the other's
  \<open>rcv.NXT\<close>, nothing is left unacknowledged or pending, and each side knows the other's window.
\<close>

theorem handshake_establishes:
  assumes "0 < cw" "cw \<le> maxWindow" "0 < sw" "sw \<le> maxWindow"
  shows "\<exists>c s. handshake ci cw si sw = Some (c, s) \<and>
    tcbState c = StateEstablished \<and> tcbState s = StateEstablished \<and>
    sNXT (sndS c) = Add ci 1 \<and> sUNA (sndS c) = Add ci 1 \<and> rNXT (rcvS s) = Add ci 1 \<and>
    sNXT (sndS s) = Add si 1 \<and> sUNA (sndS s) = Add si 1 \<and> rNXT (rcvS c) = Add si 1 \<and>
    sWND (sndS c) = sw \<and> sWND (sndS s) = cw \<and> \<not> HasPending c \<and> \<not> HasPending s"
  by (simp add: handshake_def client_syn_sent server_listens server_gets_syn exchange_def
      server_sends_synack client_gets_synack client_sends_ack assms Let_def)
    (simp add: zeroTCB_def zeroSnd_def Add_def HasPending_def pendingChallengeAck_def
      HasPendingRetransmit_def retransmitAfterDupacks_def
      server_gets_ack [OF assms, unfolded zeroTCB_def zeroSnd_def, simplified])

theorem handshake_establishes_witness:
  "\<exists>c s. handshake 4294967295 1000 7 65535 = Some (c, s) \<and> tcbState c = StateEstablished \<and>
    tcbState s = StateEstablished \<and> sNXT (sndS c) = 0"
  using handshake_establishes [of 1000 65535 4294967295 7] by (auto simp: maxWindow_eq Add_def)

section \<open>Sending data\<close>

text \<open>
  \<open>streams_to a b\<close>: what \<open>b\<close> expects next is what \<open>a\<close> sends next, \<open>a\<close> does not acknowledge
  more than \<open>b\<close> sent, and \<open>a\<close> believes in no larger window than \<open>b\<close> has.
\<close>

definition streams_to :: "ControlBlock \<Rightarrow> ControlBlock \<Rightarrow> bool" where
  "streams_to a b \<longleftrightarrow>
     tcbState a = StateEstablished \<and> tcbState b = StateEstablished \<and>
     sNXT (sndS a) = rNXT (rcvS b) \<and> LessThanEq (rNXT (rcvS a)) (sNXT (sndS b)) \<and>
     sWND (sndS a) \<le> rWND (rcvS b) \<and> rWND (rcvS a) \<le> maxWindow"

lemma established_admits:
  assumes "tcbState t = StateEstablished" "SEQ seg = rNXT (rcvS t)" "LessThanEq (ACK seg) (sNXT (sndS t))"
    and "LEN seg = DATALEN seg" "DATALEN seg \<le> rWND (rcvS t)" "WND seg \<le> maxWindow"
    and "\<not> HasAny (SegFlags seg) FlagRST"
  shows "validateIncomingSegment t seg = (t, None)"
proof -
  have "InWindow (Last seg) (rNXT (rcvS t)) (rWND (rcvS t))" if "rWND (rcvS t) > 0"
  proof (cases "LEN seg = 0")
    case True
    with assms that show ?thesis by (simp add: Last_def)
  next
    case False
    then have "unat (DATALEN seg - 1) = unat (DATALEN seg) - 1" "unat (DATALEN seg) > 0"
      using assms(4) by (simp_all add: unat_minus_one unat_gt_0)
    with False assms show ?thesis
      by (simp add: InWindow_iff Last_def Add_def Let_def word_le_nat_alt)
  qed
  then have "incomingAcceptErr t seg = None"
    using assms by (auto simp: incomingAcceptErr_def Let_def not_less word_gt_0)
  then show ?thesis
    using assms(1,3,7) by (simp add: validateIncomingSegment_def IsPreestablished_def Let_def)
qed

text \<open>
  C12. On an established connection a segment that one side is told to send and sends is
  accepted by the other, which then again expects exactly what the first will send next: data
  within the window is never refused, and the two sequence spaces stay in step, wherever the
  32-bit numbers wrap.
\<close>

theorem exchange_keeps_in_step:
  assumes "streams_to a b" "PendingSegment a n = Some (seg, True)" "0 \<le> n" "n < 2 ^ 32"
    and "pending0 a \<in> {0, FlagACK}" "\<not> HasPendingRetransmit a"
  shows "\<exists>a' b'. exchange n a b = Some (a', b') \<and> sNXT (sndS a') = rNXT (rcvS b') \<and>
    rNXT (rcvS b') = Add (rNXT (rcvS b)) (DATALEN seg) \<and>
    tcbState a' = StateEstablished \<and> tcbState b' = StateEstablished"
proof -
  have pf: "pendingFlags a = FlagACK" and p: "\<not> HasAny (pending0 a) FlagSYN" "\<not> HasAny (pending0 a) FlagFIN"
      "\<not> HasAny (pending0 a) FlagRST"
    using assms(1,5) by (auto simp: pendingFlags_def streams_to_def state_preds flag_bits)
  have "DATALEN seg \<le> sWND (sndS a) \<and> SegFlags seg = FlagACK \<and> SEQ seg = sNXT (sndS a) \<and>
      ACK seg = rNXT (rcvS a) \<and> WND seg = rWND (rcvS a)"
  proof (cases rule: PendingSegment_cases [OF assms(2,3,6)])
    case 1
    then show ?thesis by (simp add: MakeChallengeACK_def)
  next
    case (2 k)
    have "uint (word_of_int k :: u32) \<le> k"
      using 2(2) by (simp add: uint_word_of_int take_bit_eq_mod zmod_le_nonneg_dividend)
    with 2 maxSend_le [of "sndS a"] show ?thesis by (simp add: pf flag_bits word_le_def)
  qed
  then have dl: "DATALEN seg \<le> sWND (sndS a)" and seg: "SegFlags seg = FlagACK"
      "SEQ seg = sNXT (sndS a)" "ACK seg = rNXT (rcvS a)" "WND seg = rWND (rcvS a)"
    by auto
  have len: "LEN seg = DATALEN seg" by (simp add: LEN_bits seg(1) flag_bits)
  have "seg\<lparr>WND := rWND (rcvS a), SegFlags := SegFlags seg OR 0\<rparr> = seg"
    using seg by simp
  then have V: "validateOutgoingSegment a seg = None"
    using proposed_validates(1) [OF assms(2-4), of "rWND (rcvS a)" 0] assms(1,6) p
    by (simp add: streams_to_def)
  define a' where "a' = fst (tcb_Send a seg)"
  have a': "tcb_Send a seg = (a', None)" "sNXT (sndS a') = sNXT (sndS a) + DATALEN seg"
      "tcbState a' = StateEstablished"
    using V assms(1) seg len
    by (auto simp: a'_def tcb_Send_def Let_def streams_to_def sendDispatch_def advancePending_def
        UpdateForward_def flag_bits)
  have "DATALEN seg \<le> rWND (rcvS b)"
    using dl assms(1) by (auto simp: streams_to_def)
  then have "validateIncomingSegment b seg = (b, None)"
    using assms(1) seg len by (intro established_admits) (auto simp: streams_to_def flag_bits)
  moreover define pend where "pend = (if 0 < DATALEN seg then FlagACK else 0)"
  then have "recvDispatch b seg = Some (b, pend, None)"
    using assms(1) seg by (auto simp: recvDispatch_def rcvEstablished_def streams_to_def flag_bits Let_def)
  ultimately have b': "tcb_Recv b seg = Some (recvFinish b pend seg, None)"
    using seg by (simp add: tcb_Recv_def flag_bits)
  show ?thesis
    using assms(1,2) a' b' len by (auto simp: exchange_def streams_to_def Add_def)
qed

theorem exchange_keeps_in_step_witness:
  "\<exists>a' b'. exchange 7 (demoTCB\<lparr>sndS := sndS demoTCB\<lparr>sNXT := 4294967294, sUNA := 4294967294\<rparr>\<rparr>)
     (demoTCB\<lparr>rcvS := \<lparr>rIRS = 0, rNXT = 4294967294, rWND = 500\<rparr>,
        sndS := sndS demoTCB\<lparr>sNXT := 100\<rparr>\<rparr>) = Some (a', b') \<and> rNXT (rcvS b') = 5"
proof -
  let ?a = "demoTCB\<lparr>sndS := sndS demoTCB\<lparr>sNXT := 4294967294, sUNA := 4294967294\<rparr>\<rparr>"
  let ?b = "demoTCB\<lparr>rcvS := \<lparr>rIRS = 0, rNXT = 4294967294, rWND = 500\<rparr>,
        sndS := sndS demoTCB\<lparr>sNXT := 100\<rparr>\<rparr>"
  define seg where "seg = fst (the (PendingSegment ?a 7))"
  have 1: "streams_to ?a ?b" by code_simp
  have 2: "PendingSegment ?a 7 = Some (seg, True)" unfolding seg_def by code_simp
  have 3: "pending0 ?a \<in> {0, FlagACK}" "\<not> HasPendingRetransmit ?a" by code_simp+
  have "Add (rNXT (rcvS ?b)) (DATALEN seg) = 5" unfolding seg_def by code_simp
  then show ?thesis using exchange_keeps_in_step [OF 1 2 _ _ 3] by auto
qed

section \<open>The orderly close\<close>

definition orderly_close :: "ControlBlock \<Rightarrow> ControlBlock \<Rightarrow> (ControlBlock \<times> ControlBlock) option" where
  "orderly_close a b =
     (let (a, e) = tcb_Close a in
      if e \<noteq> None then None
      else do {
        (a, b) \<leftarrow> exchange 0 a b;
        (b, a) \<leftarrow> exchange 0 b a;
        let (b, e) = tcb_Close b in
        if e \<noteq> None then None
        else do {
          (b, a) \<leftarrow> exchange 0 b a;
          (a, b) \<leftarrow> exchange 0 a b;
          Some (a, b)
        }
      })"

text \<open>What the exchanges of a quiet connection depend on.\<close>

definition quiet :: "State \<Rightarrow> Value \<Rightarrow> Value \<Rightarrow> Value \<Rightarrow> Flags \<Rightarrow> ControlBlock \<Rightarrow> bool" where
  "quiet st una nxt rnxt pend t \<longleftrightarrow>
     tcbState t = st \<and> sUNA (sndS t) = una \<and> sNXT (sndS t) = nxt \<and> rNXT (rcvS t) = rnxt \<and>
     pending0 t = pend \<and> pending1 t = 0 \<and> \<not> pendingChallengeAck t \<and> dupack t = 0 \<and>
     0 < sWND (sndS t) \<and> sWND (sndS t) \<le> maxWindow \<and> 0 < rWND (rcvS t) \<and> rWND (rcvS t) \<le> maxWindow"

lemma quiet_sends:
  assumes q: "quiet st una nxt rnxt pend t" and st: "st \<noteq> StateClosed"
    and pend: "pend \<in> {FlagACK, FlagFIN, FlagFIN OR FlagACK}"
    and ack: "pend = FlagFIN \<Longrightarrow> txQueuedDataOpen st"
  obtains seg t' where "PendingSegment t 0 = Some (seg, True)" "tcb_Send t seg = (t', None)"
    "seg = \<lparr>SEQ = nxt, ACK = rnxt, DATALEN = 0, WND = WND seg, SegFlags = pend OR FlagACK\<rparr>"
    "0 < WND seg" "WND seg \<le> maxWindow"
    "quiet (tcbState (sendDispatch t seg)) una (nxt + of_bool (bit pend 0)) rnxt 0 t'"
proof -
  define seg where "seg = \<lparr>SEQ = nxt, ACK = rnxt, DATALEN = 0, WND = rWND (rcvS t),
    SegFlags = pend OR FlagACK\<rparr>"
  have bits: "bit pend 4 \<or> txQueuedDataOpen st" "\<not> bit pend 1" "\<not> bit pend 2" "pend \<noteq> 0"
    using pend ack by (auto simp: flag_bits bit_or_iff) (simp_all add: flag_defs)
  have flags: "pendingFlags t = pend OR FlagACK"
    using bits(1) q pend by (auto simp: pendingFlags_def quiet_def flag_defs)
  have P: "PendingSegment t 0 = Some (seg, True)"
    using q bits flags
    by (auto simp: PendingSegment_def quiet_def HasPendingRetransmit_def retransmitAfterDupacks_def
        Let_def seg_def pendingFlags_def flag_bits bit_or_iff)
  have V: "validateOutgoingSegment t seg = None"
    using q st bits
    by (intro validateOutgoing_in_window)
      (auto simp: quiet_def seg_def LEN_bits flag_bits bit_or_iff word_less_nat_alt simp del: One_nat_def)
  have D: "sndS (sendDispatch t seg) = sndS t" "rcvS (sendDispatch t seg) = rcvS t"
      "pending0 (sendDispatch t seg) = pend" "pending1 (sendDispatch t seg) = 0"
      "challengeAcks (sendDispatch t seg) = challengeAcks t" "dupack (sendDispatch t seg) = dupack t"
    using q st by (simp_all add: sendDispatch_def quiet_def Let_def split: State.splits)
  have "pend AND NOT (pend OR FlagACK) = 0"
    using pend by (auto simp: flag_defs)
  then have S: "\<exists>t'. tcb_Send t seg = (t', None) \<and>
      quiet (tcbState (sendDispatch t seg)) una (nxt + of_bool (bit pend 0)) rnxt 0 t'"
    using q V D bits
    by (auto simp: tcb_Send_def quiet_def Let_def advancePending_def pendingChallengeAck_def
        UpdateForward_def LEN_bits flag_bits bit_or_iff seg_def)
  show thesis
    using P S that [of seg] q by (auto simp: seg_def quiet_def)
qed

lemma quiet_admits:
  assumes q: "quiet st una nxt rnxt pend t"
    and st: "\<not> IsPreestablished st" "st \<noteq> StateClosed"
    and seg: "seg = \<lparr>SEQ = rnxt, ACK = nxt, DATALEN = 0, WND = w, SegFlags = f\<rparr>"
    and w: "w \<le> maxWindow" and f: "f \<in> {FlagACK, FlagFIN OR FlagACK}"
  shows "validateIncomingSegment t seg = (t, None)" "bit f 4" "\<not> bit f 1" "\<not> bit f 2"
proof -
  show bits: "bit f 4" "\<not> bit f 1" "\<not> bit f 2"
    using f by (auto simp: flag_bits bit_or_iff)
  have "Last seg = rnxt"
    using bits by (simp add: Last_def Let_def LEN_bits seg Add_def del: One_nat_def)
  then have "incomingAcceptErr t seg = None"
    using q st w by (auto simp: incomingAcceptErr_def quiet_def Let_def seg not_less)
  then show "validateIncomingSegment t seg = (t, None)"
    using q st bits by (simp add: validateIncomingSegment_def quiet_def Let_def seg flag_bits
        del: One_nat_def)
qed

lemma quiet_receives:
  assumes q: "quiet st una nxt rnxt pend t" and una: "LessThanEq una nxt"
    and st: "\<not> IsPreestablished st" "st \<noteq> StateClosed"
    and seg: "seg = \<lparr>SEQ = rnxt, ACK = nxt, DATALEN = 0, WND = w, SegFlags = f\<rparr>"
    and w: "0 < w" "w \<le> maxWindow"
    and f: "f \<in> {FlagACK, FlagFIN OR FlagACK}"
    and d: "recvDispatch t seg = Some (t\<lparr>tcbState := st'\<rparr>, p, None)"
  obtains t' where "tcb_Recv t seg = Some (t', None)"
    "quiet st' nxt nxt (rnxt + of_bool (bit f 0)) (pend OR p) t'"
proof -
  note V = quiet_admits(1) [OF q st seg w(2) f] and bits = quiet_admits(2-4) [OF q st seg w(2) f]
  have W: "quiet st' una nxt rnxt (pend OR p) (updateSendWindow
      (triggerChallengeAckSatisfied (t\<lparr>tcbState := st'\<rparr>)\<lparr>pending0 := pend OR p\<rparr>) seg)"
    using q w by (auto simp: quiet_def updateSendWindow_def triggerChallengeAckSatisfied_def Let_def
        pendingChallengeAck_def seg)
  show thesis
  proof (rule that)
    show "tcb_Recv t seg = Some (recvFinish (t\<lparr>tcbState := st'\<rparr>) p seg, None)"
      using V d q st bits by (simp add: tcb_Recv_def quiet_def seg flag_bits del: One_nat_def)
    have "quiet st' nxt nxt rnxt (pend OR p) (processAck u seg)"
      if "quiet st' una nxt rnxt (pend OR p) u" for u
      using that una bits by (auto simp: quiet_def processAck_def IncomingIsDupACK_def seg flag_bits
          pendingChallengeAck_def LessThanEq_def)
    from this [OF W] show "quiet st' nxt nxt (rnxt + of_bool (bit f 0)) (pend OR p)
        (recvFinish (t\<lparr>tcbState := st'\<rparr>) p seg)"
      using q bits by (auto simp: recvFinish_def quiet_def Let_def UpdateForward_def LEN_bits seg
          triggerChallengeAckSatisfied_def pendingChallengeAck_def simp del: One_nat_def)
  qed
qed

lemma quiet_exchange:
  assumes a: "quiet st una nxt rnxt pend a" and b: "quiet st2 una2 rnxt nxt pend2 b"
    and una2: "LessThanEq una2 rnxt"
    and pend: "pend \<in> {FlagACK, FlagFIN, FlagFIN OR FlagACK}"
    and ack: "pend = FlagFIN \<Longrightarrow> txQueuedDataOpen st"
    and st: "st \<noteq> StateClosed" "\<not> IsPreestablished st2" "st2 \<noteq> StateClosed"
    and send: "\<And>seg. SegFlags seg = pend OR FlagACK \<Longrightarrow> tcbState (sendDispatch a seg) = st'"
    and recv: "\<And>seg. \<lbrakk>SegFlags seg = pend OR FlagACK; DATALEN seg = 0; ACK seg = rnxt\<rbrakk> \<Longrightarrow>
      recvDispatch b seg = Some (b\<lparr>tcbState := st2'\<rparr>, p, None)"
  obtains a' b' where "exchange 0 a b = Some (a', b')"
    "quiet st' una (nxt + of_bool (bit pend 0)) rnxt 0 a'"
    "quiet st2' rnxt rnxt (nxt + of_bool (bit pend 0)) (pend2 OR p) b'"
proof -
  obtain seg a' where s: "PendingSegment a 0 = Some (seg, True)" "tcb_Send a seg = (a', None)"
      "seg = \<lparr>SEQ = nxt, ACK = rnxt, DATALEN = 0, WND = WND seg, SegFlags = pend OR FlagACK\<rparr>"
      "0 < WND seg" "WND seg \<le> maxWindow"
      "quiet (tcbState (sendDispatch a seg)) una (nxt + of_bool (bit pend 0)) rnxt 0 a'"
    using quiet_sends [OF a st(1) pend ack] by blast
  have f: "pend OR FlagACK \<in> {FlagACK, FlagFIN OR FlagACK}"
    using pend by (auto simp: flag_defs)
  have segf: "SegFlags seg = pend OR FlagACK" "DATALEN seg = 0" "ACK seg = rnxt"
    using arg_cong [OF s(3), of SegFlags] arg_cong [OF s(3), of DATALEN] arg_cong [OF s(3), of ACK]
    by simp_all
  obtain b' where r: "tcb_Recv b seg = Some (b', None)"
      "quiet st2' rnxt rnxt (nxt + of_bool (bit (pend OR FlagACK) 0)) (pend2 OR p) b'"
    using quiet_receives [OF b una2 st(2,3) s(3-5) f recv [OF segf]] by blast
  show thesis
  proof (rule that)
    show "exchange 0 a b = Some (a', b')" using s(1,2) r(1) by (simp add: exchange_def)
    show "quiet st' una (nxt + of_bool (bit pend 0)) rnxt 0 a'"
      using s(6) send segf by simp
    show "quiet st2' rnxt rnxt (nxt + of_bool (bit pend 0)) (pend2 OR p) b'"
      using r(2) by (simp add: bit_or_iff flag_bits del: bit_0)
  qed
qed

lemma lastack_exchange:
  assumes a: "quiet st una nxt rnxt FlagACK a" and b: "quiet StateLastAck una2 rnxt nxt pend2 b"
    and st: "st \<noteq> StateClosed"
    and send: "\<And>seg. tcbState (sendDispatch a seg) = st'"
  obtains a' b' where "exchange 0 a b = Some (a', b')" "quiet st' una nxt rnxt 0 a'"
    "tcbState b' = StateClosed"
proof -
  have ne: "FlagACK \<noteq> FlagFIN" by (simp add: flag_defs)
  obtain seg a' where s: "PendingSegment a 0 = Some (seg, True)" "tcb_Send a seg = (a', None)"
      "seg = \<lparr>SEQ = nxt, ACK = rnxt, DATALEN = 0, WND = WND seg, SegFlags = FlagACK OR FlagACK\<rparr>"
      "WND seg \<le> maxWindow"
      "quiet (tcbState (sendDispatch a seg)) una (nxt + of_bool (bit FlagACK 0)) rnxt 0 a'"
    using quiet_sends [OF a st] ne by blast
  have V: "validateIncomingSegment b seg = (b, None)"
    using quiet_admits(1) [OF b _ _ s(3,4)] by (simp add: IsPreestablished_def)
  have f: "SegFlags seg = FlagACK" using arg_cong [OF s(3), of SegFlags] by simp
  have "tcb_Recv b seg = Some (recvFinish (tcb_Abort b) 0 seg, None)"
    using V b by (simp add: tcb_Recv_def f flag_bits recvDispatch_def quiet_def)
  with s(1,2) have "exchange 0 a b = Some (a', recvFinish (tcb_Abort b) 0 seg)"
    by (simp add: exchange_def)
  moreover have "quiet st' una nxt rnxt 0 a'" using s(5) send by (simp add: flag_bits)
  moreover have "tcbState (recvFinish (tcb_Abort b) 0 seg) = StateClosed" by simp
  ultimately show thesis by (rule that)
qed

lemma quiet_Close_established:
  assumes "quiet StateEstablished una nxt rnxt 0 a"
  obtains a' where "tcb_Close a = (a', None)" "quiet StateEstablished una nxt rnxt FlagFIN a'"
  using assms by (auto simp: tcb_Close_def quiet_def pendingChallengeAck_def)

lemma quiet_Close_closewait:
  assumes "quiet StateCloseWait una nxt rnxt 0 a"
  obtains a' where "tcb_Close a = (a', None)" "quiet StateLastAck una nxt rnxt (FlagFIN OR FlagACK) a'"
  using assms by (auto simp: tcb_Close_def quiet_def pendingChallengeAck_def)

text \<open>
  C13. The orderly close terminates: two established blocks with nothing in flight, whatever
  their sequence numbers and (positive, permitted) windows, go through FIN-WAIT-1, CLOSE-WAIT,
  FIN-WAIT-2 and LAST-ACK in six steps and end in TIME-WAIT and CLOSED; both FINs are
  acknowledged and the active closer has nothing more to send.
\<close>

theorem orderly_close_completes:
  assumes "quiet StateEstablished s s r 0 a" "quiet StateEstablished r r s 0 b"
  shows "\<exists>a' b'. orderly_close a b = Some (a', b') \<and> tcbState a' = StateTimeWait \<and>
    tcbState b' = StateClosed \<and> sUNA (sndS a') = Add s 1 \<and> rNXT (rcvS a') = Add r 1 \<and>
    pending0 a' = 0"
proof -
  obtain a1 where 1: "tcb_Close a = (a1, None)" "quiet StateEstablished s s r FlagFIN a1"
    using assms(1) by (rule quiet_Close_established)
  obtain a2 b2 where 2: "exchange 0 a1 b = Some (a2, b2)" "quiet StateFinWait1 s (s + 1) r 0 a2"
      "quiet StateCloseWait r r (s + 1) FlagACK b2"
    by (rule quiet_exchange [OF 1(2) assms(2), where st' = StateFinWait1 and st2' = StateCloseWait
        and p = FlagACK])
      (use 1(2) assms(2) in \<open>auto simp: quiet_def state_preds sendDispatch_def recvDispatch_def
         rcvEstablished_def flag_bits bit_or_iff Let_def\<close>)
  obtain b3 a3 where 3: "exchange 0 b2 a2 = Some (b3, a3)" "quiet StateCloseWait r r (s + 1) 0 b3"
      "quiet StateFinWait2 (s + 1) (s + 1) r 0 a3"
    by (rule quiet_exchange [OF 2(3) 2(2), where st' = StateCloseWait and st2' = StateFinWait2
        and p = 0])
      (use 2(2,3) in \<open>auto simp: quiet_def state_preds sendDispatch_def recvDispatch_def
         rcvFinWait1_def flag_bits bit_or_iff Let_def LessThanEq_def\<close>)
  obtain b4 where 4: "tcb_Close b3 = (b4, None)" "quiet StateLastAck r r (s + 1) (FlagFIN OR FlagACK) b4"
    using 3(2) by (rule quiet_Close_closewait)
  obtain b5 a4 where 5: "exchange 0 b4 a3 = Some (b5, a4)" "quiet StateLastAck r (r + 1) (s + 1) 0 b5"
      "quiet StateTimeWait (s + 1) (s + 1) (r + 1) FlagACK a4"
    by (rule quiet_exchange [OF 4(2) 3(3), where st' = StateLastAck and st2' = StateTimeWait
        and p = FlagACK])
      (use 3(3) 4(2) in \<open>auto simp: quiet_def state_preds sendDispatch_def recvDispatch_def
         rcvFinWait2_def flag_bits bit_or_iff Let_def LessThanEq_def\<close>)
  obtain a5 b6 where 6: "exchange 0 a4 b5 = Some (a5, b6)" "quiet StateTimeWait (s + 1) (s + 1) (r + 1) 0 a5"
      "tcbState b6 = StateClosed"
    by (rule lastack_exchange [OF 5(3,2), where st' = StateTimeWait])
      (use 5(3) in \<open>auto simp: quiet_def sendDispatch_def\<close>)
  have "orderly_close a b = Some (a5, b6)"
    using 1(1) 2(1) 3(1) 4(1) 5(1) 6(1) by (simp add: orderly_close_def)
  with 6(2,3) show ?thesis by (auto simp: quiet_def Add_def)
qed

theorem orderly_close_completes_witness:
  "\<exists>a' b'. orderly_close
     (zeroTCB\<lparr>tcbState := StateEstablished, rcvS := \<lparr>rIRS = 0, rNXT = 900, rWND = 1000\<rparr>,
        sndS := zeroSnd\<lparr>sUNA := 4294967295, sNXT := 4294967295, sWND := 500\<rparr>\<rparr>)
     (zeroTCB\<lparr>tcbState := StateEstablished, rcvS := \<lparr>rIRS = 0, rNXT = 4294967295, rWND = 500\<rparr>,
        sndS := zeroSnd\<lparr>sUNA := 900, sNXT := 900, sWND := 1000\<rparr>\<rparr>) = Some (a', b') \<and>
     tcbState a' = StateTimeWait \<and> tcbState b' = StateClosed"
proof -
  let ?a = "zeroTCB\<lparr>tcbState := StateEstablished, rcvS := \<lparr>rIRS = 0, rNXT = 900, rWND = 1000\<rparr>,
        sndS := zeroSnd\<lparr>sUNA := 4294967295, sNXT := 4294967295, sWND := 500\<rparr>\<rparr>"
  let ?b = "zeroTCB\<lparr>tcbState := StateEstablished, rcvS := \<lparr>rIRS = 0, rNXT = 4294967295, rWND = 500\<rparr>,
        sndS := zeroSnd\<lparr>sUNA := 900, sNXT := 900, sWND := 1000\<rparr>\<rparr>"
  have "quiet StateEstablished 4294967295 4294967295 900 0 ?a"
    "quiet StateEstablished 900 900 4294967295 0 ?b"
    by code_simp+
  then show ?thesis using orderly_close_completes by blast
qed

section \<open>Corner cases\<close>

text \<open>
  LAST-ACK and CLOSING react to any acknowledgement, not only to one that covers the FIN: a
  partial ACK (55 of 50..60) closes the connection with data still unacknowledged, or moves it
  to TIME-WAIT.
\<close>

lemma lastack_closes_on_partial_ack:
  "map_option (\<lambda>(t, e). (tcbState t, e))
     (tcb_Recv (demoTCB\<lparr>tcbState := StateLastAck\<rparr>) ((demoData 100)\<lparr>DATALEN := 0\<rparr>)) =
   Some (StateClosed, None)"
  by code_simp

lemma closing_ends_on_partial_ack:
  "map_option (\<lambda>(t, e). (tcbState t, sUNA (sndS t), sNXT (sndS t), e))
     (tcb_Recv (demoTCB\<lparr>tcbState := StateClosing\<rparr>) ((demoData 100)\<lparr>DATALEN := 0\<rparr>)) =
   Some (StateTimeWait, 55, 60, None)"
  by code_simp

text \<open>
  At a distance of exactly \<open>2^31\<close> the circular comparison holds in both directions, so an ACK
  half the sequence space ahead passes for an acknowledgement of sent data and moves \<open>snd.UNA\<close>
  beyond \<open>snd.NXT\<close>.
\<close>

lemma antipodal_ack_accepted:
  "map_option (\<lambda>(t, e). (sUNA (sndS t), sNXT (sndS t), e))
     (tcb_Recv (demoTCB\<lparr>sndS := sndS demoTCB\<lparr>sUNA := 60\<rparr>\<rparr>) ((demoData 100)\<lparr>ACK := 60 + 2147483648\<rparr>)) =
   Some (60 + 2147483648, 60, None)"
  by code_simp

text \<open>
  The challenge-ACK counter is an \<open>int8\<close> whose sign means "still to be sent". At \<open>-128\<close> the
  negation in \<open>triggerChallengeAckSent\<close> wraps, so the challenge stays pending for ever.
\<close>

lemma challenge_counter_wraps:
  assumes "challengeAcks t = 127"
  shows "pendingChallengeAck (triggerChallengeAckSent (triggerChallengeAckEmit t))"
proof -
  have 1: "challengeAcks (triggerChallengeAckEmit t) = - 127 - 1"
    using assms by (simp add: triggerChallengeAckEmit_def)
  then have "challengeAcks (triggerChallengeAckSent (triggerChallengeAckEmit t)) = 128"
    by (simp add: triggerChallengeAckSent_def)
  then show ?thesis by (simp add: pendingChallengeAck_def)
qed

text \<open>
  After the rewind of a retransmission timeout in FIN-WAIT-1 or LAST-ACK no proposed segment
  carries the FIN again: the FIN is only queued once, by \<open>Close\<close>.
\<close>

lemma rewind_forgets_fin:
  assumes "tcbState t \<in> {StateFinWait1, StateLastAck}" "pending0 t = 0" "\<not> pendingChallengeAck t"
    and "PendingSegment (tcb_RetransmitAll t) n = Some (seg, ok)"
  shows "\<not> HasAny (SegFlags seg) FlagFIN" "n = 0 \<Longrightarrow> \<not> ok"
proof -
  define u where "u = tcb_RetransmitAll t"
  have u: "tcbState u = tcbState t" "pending0 u = 0" "\<not> pendingChallengeAck u"
    using assms(1-3)
    by (auto simp: u_def tcb_RetransmitAll_def tcb_RetransmitFrom_def pendingChallengeAck_def)
  then have r: "\<not> HasPendingRetransmit u" "txQueuedDataOpen (tcbState u)"
    using assms(1) by (auto simp: HasPendingRetransmit_def state_preds)
  have p: "PendingSegment u n = Some (seg, ok)" using assms(4) by (simp add: u_def)
  then have flags: "SegFlags seg \<in> {0, FlagACK}"
    using u r by (auto simp: PendingSegment_def Let_def zeroSegment_def split: if_splits)
  then show "\<not> HasAny (SegFlags seg) FlagFIN" by (auto simp: flag_bits)
  show "n = 0 \<Longrightarrow> \<not> ok" using p u r by (simp add: PendingSegment_def Let_def)
qed

end
