(* ===== verification/Tcp_Handler_Tx.thy ===== *)
theory Tcp_Handler_Tx
  imports Tcp_Handler_Rx
begin

text \<open>
  The sending side of the \<open>Handler\<close> of \<open>tcp/handler.go\<close>: what \<open>Send\<close> writes fits the frame it is
  given, and the data of the frame are the next bytes the application has written, under the
  sequence number of their place in the stream. A handler without a policy is considered.
\<close>

section \<open>Sizes\<close>

lemma ring_Read_length: "ring_Read r k = Some (r', b, e) \<Longrightarrow> length b \<le> k"
  by (auto simp: ring_Read_def ring_read_def Let_def split: if_splits bind_splits)

lemma MakePacket_length: "tx_MakePacket tx k seq = Some (tx', d, e) \<Longrightarrow> length d \<le> k"
  by (auto simp: tx_MakePacket_def Let_def dest: ring_Read_length split: if_splits bind_splits prod.splits option.splits)

lemma opt_PutOption_length: "length (fst (opt_PutOption dst kind data)) = length dst"
  by (simp add: opt_PutOption_def Let_def)

lemma putSynOptions_size:
  assumes "putSynOptions h frm off mss ack = Some (frm', words)"
  shows "length frm' = length frm" "off + 4 \<le> length frm \<Longrightarrow> off + unat words * 4 \<le> length frm" "words \<le> 2"
  using assms opt_PutOption_length [of "drop off frm" OptMaxSegmentSize]
  by (auto simp: putSynOptions_def opt_PutOption16_def Let_def opt_PutOption_length split: if_splits)

text \<open>A SYN is never pending in a state in which data may be sent.\<close>

definition pend_ok :: "ControlBlock \<Rightarrow> bool" where
  "pend_ok t \<longleftrightarrow> \<not> HasAny (pending1 t) FlagSYN \<and> (HasAny (pending0 t) FlagSYN \<longrightarrow> \<not> txQueuedDataOpen (tcbState t))"

lemma pend_ok_zero [simp]: "pend_ok zeroTCB" "pend_ok (tcb_Abort t)"
  by (simp_all add: pend_ok_def zeroTCB_def tcb_Abort_def tcb_reset_def HasAny_def)

lemma tcb_Close_pend_ok: "pend_ok t \<Longrightarrow> tcb_Close t = (t', e) \<Longrightarrow> pend_ok t'"
  by (auto simp: tcb_Close_def pend_ok_def flag_bits bit_simps tcb_Abort_def tcb_reset_def zeroTCB_def split: State.splits)

lemma tcb_Send_pend_ok:
  assumes "pend_ok t" "tcb_Send t seg = (t', e)"
    and "HasAny (SegFlags seg) FlagFIN \<Longrightarrow> \<forall>n. bit (pending0 t) n \<longrightarrow> bit (SegFlags seg) n"
  shows "pend_ok t'"
proof (cases "validateOutgoingSegment t seg")
  case (Some err)
  then show ?thesis using assms by (simp add: tcb_Send_def)
next
  case None
  let ?d = "sendDispatch t seg"
  let ?a = "advancePending ?d seg"
  have d: "pend_ok (?d\<lparr>pending0 := pending0 ?d AND NOT (SegFlags seg)\<rparr>)" "\<not> HasAny (pending1 ?d) FlagSYN"
    using assms(1,3)
    by (auto simp: sendDispatch_def pend_ok_def Let_def flag_bits bit_simps txQueuedDataOpen_def TxDataOpen_def
        prepareToHandshake_def tcb_reset_def zeroTCB_def resetRcv_def resetSnd_def split: State.splits)
  then have "pend_ok ?a"
    by (auto simp: advancePending_def pend_ok_def Let_def flag_bits bit_simps)
  moreover have "pending0 t' = pending0 ?a" "pending1 t' = pending1 ?a" "tcbState t' = tcbState ?a"
    using assms(2) None by (auto simp: tcb_Send_def Let_def triggerChallengeAckSent_def)
  ultimately show ?thesis by (simp add: pend_ok_def)
qed

lemma challenge_flags: "SegFlags (MakeChallengeACK t) = FlagACK" "DATALEN (MakeChallengeACK t) = 0"
  by (simp_all add: MakeChallengeACK_def)

lemma PendingSegment_flags:
  assumes "PendingSegment t n = Some (seg, True)"
  shows "HasAny (SegFlags seg) FlagFIN \<longrightarrow> (\<forall>n. bit (pending0 t) n \<longrightarrow> bit (SegFlags seg) n)"
    and "SegFlags seg = synack \<longrightarrow> pend_ok t \<longrightarrow> DATALEN seg = 0"
proof -
  consider "seg = MakeChallengeACK t" | "SegFlags seg = FlagACK"
    | "SegFlags seg = (if txQueuedDataOpen (tcbState t) then pending0 t OR FlagACK else pending0 t)"
      "\<not> txQueuedDataOpen (tcbState t) \<Longrightarrow> DATALEN seg = 0"
    using assms by (auto simp: PendingSegment_def Let_def split: if_splits)
  then have "(HasAny (SegFlags seg) FlagFIN \<longrightarrow> (\<forall>n. bit (pending0 t) n \<longrightarrow> bit (SegFlags seg) n)) \<and>
      (SegFlags seg = synack \<longrightarrow> pend_ok t \<longrightarrow> DATALEN seg = 0)"
  proof cases
    case 3
    have "HasAny (pending0 t) FlagSYN" if "SegFlags seg = synack"
    proof -
      have "bit (SegFlags seg) 1" using that by (simp add: synack_def flag_bits bit_simps)
      then show ?thesis using 3(1) by (auto simp: flag_bits bit_simps split: if_splits)
    qed
    then show ?thesis using 3 by (auto simp: pend_ok_def bit_simps)
  qed (auto simp: challenge_flags flag_bits synack_def FlagACK_def FlagSYN_def)
  then show "HasAny (SegFlags seg) FlagFIN \<longrightarrow> (\<forall>n. bit (pending0 t) n \<longrightarrow> bit (SegFlags seg) n)"
    and "SegFlags seg = synack \<longrightarrow> pend_ok t \<longrightarrow> DATALEN seg = 0" by simp_all
qed

text \<open>What \<open>Send\<close> decides to emit.\<close>

definition fits :: "bytes \<Rightarrow> 'p HandlerP \<Rightarrow> 'p HandlerP sendChoice \<Rightarrow> bool" where
  "fits b h c \<longleftrightarrow> (case c of
      Nothing h' b' e \<Rightarrow> b' = b \<and> policy h' = policy h \<and> scb h' = scb h
    | Emit h' b' seg off \<Rightarrow> length b' = length b \<and> policy h' = policy h \<and> scb h' = scb h \<and>
        unat off * 4 + unat (DATALEN seg) \<le> length b \<and>
        (HasAny (SegFlags seg) FlagFIN \<longrightarrow> (\<forall>n. bit (pending0 (scb h)) n \<longrightarrow> bit (SegFlags seg) n)))"

lemma syn_fits:
  assumes "putSynOptions h b 20 mss ack = Some (b', words)" "24 \<le> length b" "DATALEN seg = 0"
    and "HasAny (SegFlags seg) FlagFIN \<longrightarrow> (\<forall>n. bit (pending0 (scb h)) n \<longrightarrow> bit (SegFlags seg) n)"
  shows "fits b h (Emit h b' seg (5 + words))"
proof -
  have w: "length b' = length b" "20 + unat words * 4 \<le> length b" "words \<le> 2"
    using putSynOptions_size [OF assms(1)] assms(2) by simp_all
  have "unat (5 + words) = 5 + unat words" using w(3) by (simp add: unat_word_ariths word_le_nat_alt)
  then show ?thesis using w assms(3,4) by (simp add: fits_def)
qed

lemma data_fits:
  assumes "tx_MakePacket (bufTx h) (unat (DATALEN seg)) seq = Some (tx, d, None)"
    and "20 + unat (DATALEN seg) \<le> length b"
    and "HasAny (SegFlags seg) FlagFIN \<longrightarrow> (\<forall>n. bit (pending0 (scb h)) n \<longrightarrow> bit (SegFlags seg) n)"
  shows "fits b h (Emit (h\<lparr>bufTx := tx\<rparr>) (patch 20 d b) (seg\<lparr>WND := w, DATALEN := of_nat (length d),
      SegFlags := (if d \<noteq> [] then SegFlags seg OR FlagPSH else SegFlags seg)\<rparr>) 5)"
proof -
  have d: "length d \<le> unat (DATALEN seg)" using MakePacket_length [OF assms(1)] .
  moreover have "unat (DATALEN seg) < 2 ^ 32" using unsigned_less [of "DATALEN seg"] by simp
  ultimately have "unat (of_nat (length d) :: u32) = length d" by (simp add: unat_of_nat)
  then show ?thesis using d assms(2,3) by (auto simp: fits_def flag_bits bit_simps)
qed

lemma sendSegment_control:
  assumes "sendSegment h b 5 lim syn req = Some c" "syn \<or> req"
  obtains b' words mss ack seg where "putSynOptions h b 20 mss ack = Some (b', words)" "c = Emit h b' seg (5 + words)"
      "DATALEN seg = 0" "SegFlags seg = FlagSYN \<or> SegFlags seg = synack"
  | "c = Nothing (h\<lparr>requeueControl := False\<rparr>) b None"
  using assms
  by (auto simp: sendSegment_def Let_def ClientSynSegment_def split: if_splits bind_splits)

text \<open>What is offered to the control block for the payload.\<close>

definition sendOffer :: "'p HandlerP \<Rightarrow> bytes \<Rightarrow> Size \<Rightarrow> int" where
  "sendOffer h b lim = (let m = int (length b) - 20 in
     if lim < word_of_int m \<and> \<not> nextSegmentIsRetransmit h then uint lim else m)"

lemma sendSegment_eq:
  "sendSegment h b 5 lim False False = do {
     (seg, ok) \<leftarrow> PendingSegment (scb h) (sendOffer h b lim);
     let seg = seg\<lparr>WND := recvWindow h\<rparr>;
     if \<not> ok then Some (Nothing h b None)
     else if SegFlags seg = synack then do {
       (b, words) \<leftarrow> putSynOptions h b 20 (word_of_int (int (length b) - sizeHeaderTCP)) True;
       Some (Emit h b seg (5 + words))
     }
     else if DATALEN seg > 0 then do {
       _ \<leftarrow> go_slice b 20 (20 + uint (DATALEN seg));
       (tx, data, err) \<leftarrow> tx_MakePacket (bufTx h) (unat (DATALEN seg)) (SEQ seg);
       let h = h\<lparr>bufTx := tx\<rparr>;
       if err \<noteq> None then Some (Nothing h b err)
       else Some (Emit h (patch 20 data b)
         (seg\<lparr>DATALEN := of_nat (length data),
              SegFlags := (if data \<noteq> [] then SegFlags seg OR FlagPSH else SegFlags seg)\<rparr>) 5)
     }
     else Some (Emit h b seg 5)
   }"
proof -
  have e: "unat (5 :: u8) * 4 = 20" "int (20 :: nat) = 20" by simp_all
  show ?thesis unfolding sendSegment_def sendOffer_def Let_def e by simp
qed

lemma sendSegment_pending:
  assumes "sendSegment h b 5 lim False False = Some c"
  obtains (none) seg where "PendingSegment (scb h) (sendOffer h b lim) = Some (seg, False)" "c = Nothing h b None"
  | (syn) seg b' words mss where "PendingSegment (scb h) (sendOffer h b lim) = Some (seg, True)" "SegFlags seg = synack"
      "putSynOptions h b 20 mss True = Some (b', words)" "c = Emit h b' (seg\<lparr>WND := recvWindow h\<rparr>) (5 + words)"
  | (refused) seg tx d e where "PendingSegment (scb h) (sendOffer h b lim) = Some (seg, True)"
      "tx_MakePacket (bufTx h) (unat (DATALEN seg)) (SEQ seg) = Some (tx, d, Some e)"
      "c = Nothing (h\<lparr>bufTx := tx\<rparr>) b (Some e)"
  | (data) seg tx d where "PendingSegment (scb h) (sendOffer h b lim) = Some (seg, True)" "SegFlags seg \<noteq> synack"
      "0 < DATALEN seg" "20 + unat (DATALEN seg) \<le> length b"
      "tx_MakePacket (bufTx h) (unat (DATALEN seg)) (SEQ seg) = Some (tx, d, None)"
      "c = Emit (h\<lparr>bufTx := tx\<rparr>) (patch 20 d b) (seg\<lparr>WND := recvWindow h, DATALEN := of_nat (length d),
         SegFlags := (if d \<noteq> [] then SegFlags seg OR FlagPSH else SegFlags seg)\<rparr>) 5"
  | (plain) seg where "PendingSegment (scb h) (sendOffer h b lim) = Some (seg, True)" "DATALEN seg = 0"
      "SegFlags seg \<noteq> synack" "c = Emit h b (seg\<lparr>WND := recvWindow h\<rparr>) 5"
proof -
  obtain seg ok where p: "PendingSegment (scb h) (sendOffer h b lim) = Some (seg, ok)"
    using assms by (auto simp: sendSegment_eq split: bind_splits)
  have u: "uint (DATALEN seg) = int (unat (DATALEN seg))" by simp
  show ?thesis
  proof (cases "ok \<and> SegFlags seg \<noteq> synack \<and> DATALEN seg > 0")
    case False
    then show ?thesis
      using assms p none syn plain
      by (auto simp: sendSegment_eq Let_def word_gt_0 split: if_splits bind_splits)
  next
    case True
    then obtain s tx d e where s: "go_slice b 20 (20 + uint (DATALEN seg)) = Some s"
      "tx_MakePacket (bufTx h) (unat (DATALEN seg)) (SEQ seg) = Some (tx, d, e)"
      "c = (if e \<noteq> None then Nothing (h\<lparr>bufTx := tx\<rparr>) b e
            else Emit (h\<lparr>bufTx := tx\<rparr>) (patch 20 d b) (seg\<lparr>WND := recvWindow h, DATALEN := of_nat (length d),
              SegFlags := (if d \<noteq> [] then SegFlags seg OR FlagPSH else SegFlags seg)\<rparr>) 5)"
      using assms p by (auto simp: sendSegment_eq Let_def split: if_splits bind_splits)
    have "20 + uint (DATALEN seg) \<le> int (length b)" using s(1) by (simp add: go_slice_Some_iff)
    then have "20 + unat (DATALEN seg) \<le> length b" using u by linarith
    then show ?thesis using True p s(2,3) refused data by (cases e) auto
  qed
qed

lemma sendSegment_fits:
  assumes "sendSegment h b 5 lim syn req = Some c" "24 \<le> length b" "pend_ok (scb h)"
  shows "fits b h c"
proof (cases "syn \<or> req")
  case True
  show ?thesis
    using assms(1) True
  proof (cases rule: sendSegment_control)
    case (1 b' words mss ack seg)
    have "\<not> HasAny (SegFlags seg) FlagFIN" using 1(4) by (auto simp: synack_def flag_bits bit_simps)
    then show ?thesis unfolding 1(2) by (intro syn_fits [OF 1(1) assms(2) 1(3)]) simp
  qed (simp add: fits_def)
next
  case False
  then have "sendSegment h b 5 lim False False = Some c" using assms(1) by simp
  then show ?thesis
  proof (cases rule: sendSegment_pending)
    case (syn seg b' words mss)
    then show ?thesis
      using PendingSegment_flags [OF syn(1)] assms(3)
      by (auto simp: synack_def flag_bits intro!: syn_fits [OF syn(3) assms(2)])
  next
    case (data seg tx d)
    then show ?thesis
      using PendingSegment_flags(1) [OF data(1)] data_fits [OF data(5,4)] by simp
  next
    case (plain seg)
    then show ?thesis using PendingSegment_flags(1) [OF plain(1)] assms(2) by (simp add: fits_def)
  qed (simp_all add: fits_def)
qed

lemma tcp_header_length:
  "tcp_SetSegment frm seg offset = Some frm' \<Longrightarrow> length frm' = length frm"
  "tcp_SetSourcePort frm p = Some frm' \<Longrightarrow> length frm' = length frm"
  "tcp_SetDestinationPort frm p = Some frm' \<Longrightarrow> length frm' = length frm"
  "tcp_SetUrgentPtr frm p = Some frm' \<Longrightarrow> length frm' = length frm"
  by (auto simp: tcp_SetSegment_def tcp_field_defs put_be_def split: if_splits bind_splits)

lemma sendEmit_size:
  assumes "sendEmit h b seg off = Some (h', b', n, err)" "policy h = None" "pend_ok (scb h)"
    and "HasAny (SegFlags seg) FlagFIN \<longrightarrow> (\<forall>n. bit (pending0 (scb h)) n \<longrightarrow> bit (SegFlags seg) n)"
  shows "length b' = length b \<and> policy h' = None \<and> pend_ok (scb h') \<and>
    (n = 0 \<or> n = int (unat off * 4 + unat (DATALEN seg)))"
proof -
  obtain t e where t: "tcb_Send (scb h) seg = (t, e)" by fastforce
  have p: "pend_ok t" using tcb_Send_pend_ok [OF assms(3) t] assms(4) by blast
  have "h' \<in> {h\<lparr>scb := t\<rparr>, h\<lparr>scb := t, requeueControl := False\<rparr>, h_Abort (h\<lparr>scb := t, requeueControl := False\<rparr>),
      h_reset (h\<lparr>scb := t, requeueControl := False\<rparr>) 0 0 0} \<and> length b' = length b \<and>
      (n = 0 \<or> n = int (unat off * 4 + unat (DATALEN seg)))"
    using assms(1,2) t
    by (auto simp: sendEmit_def Let_def tcp_header_length dest!: tcp_header_length split: if_splits bind_splits)
  then show ?thesis using p assms(2) by (auto simp: h_Abort_def h_reset_def)
qed

lemma h_Send_size:
  assumes "h_Send h b = Some (h', b', n, err)" "policy h = None" "24 \<le> length b" "pend_ok (scb h)"
  shows "length b' = length b \<and> 0 \<le> n \<and> n \<le> int (length b) \<and> policy h' = None \<and> pend_ok (scb h')"
proof -
  let ?h = "sendAutoClose h"
  have a: "policy ?h = None" "pend_ok (scb ?h)" using assms(2,4) by (simp_all add: sendAutoClose_def)
  obtain h2 e where c: "sendClose ?h = (h2, e)" by fastforce
  have h2: "policy h2 = None" "pend_ok (scb h2)"
    using c a tcb_Close_pend_ok [of "scb ?h"] by (auto simp: sendClose_def split: if_splits prod.splits)
  consider "h' = h" "b' = b" "n = 0" | "h' = ?h" "b' = b" "n = 0" | "h' = h_Abort h2" "b' = b" "n = 0"
    | c where "sendSegment h2 b 5 TransmitUnlimited (AwaitingSynSend h) (requeueControl h) = Some c"
      "case c of Nothing h3 b3 e3 \<Rightarrow> h' = h3 \<and> b' = b3 \<and> n = 0
       | Emit h3 b3 seg off \<Rightarrow> sendEmit h3 b3 seg off = Some (h', b', n, err)"
    using assms(1,2) c
    by (auto simp: h_Send_def sendPolicy_def sendFrom_def Let_def split: if_splits prod.splits option.splits
        bind_splits sendChoice.splits)
  then show ?thesis
  proof cases
    case (4 c)
    have f: "fits b h2 c" using sendSegment_fits [OF 4(1) assms(3) h2(2)] .
    show ?thesis
    proof (cases c)
      case (Nothing h3 b3 e3)
      then show ?thesis using 4(2) f h2 by (simp add: fits_def)
    next
      case (Emit h3 b3 seg off)
      then have e: "sendEmit h3 b3 seg off = Some (h', b', n, err)" "policy h3 = None" "pend_ok (scb h3)"
        "length b3 = length b" "unat off * 4 + unat (DATALEN seg) \<le> length b"
        "HasAny (SegFlags seg) FlagFIN \<longrightarrow> (\<forall>n. bit (pending0 (scb h3)) n \<longrightarrow> bit (SegFlags seg) n)"
        using 4(2) f h2 by (simp_all add: fits_def)
      note sz = sendEmit_size [OF e(1-3,6)]
      then have "0 \<le> n \<and> n \<le> int (length b)" using e(5) by linarith
      then show ?thesis using sz e(4) by simp
    qed
  qed (use assms a h2 in \<open>auto simp: h_Abort_def h_reset_def\<close>)
qed

section \<open>The data of a segment\<close>

text \<open>
  A control block that may send data and has nothing else to say first: no challenge ACK, no
  fast retransmission, no SYN and no reset.
\<close>

definition sends_data :: "ControlBlock \<Rightarrow> bool" where
  "sends_data t \<longleftrightarrow> txQueuedDataOpen (tcbState t) \<and> \<not> pendingChallengeAck t \<and> \<not> HasPendingRetransmit t \<and>
     \<not> HasAny (pending0 t) FlagSYN \<and> \<not> HasAny (pending0 t) FlagRST"

lemma tcb_Close_sends_data:
  assumes "tcb_Close t = (t', None)" "sends_data t"
  shows "sends_data t' \<and> sndS t' = sndS t"
  using assms by (auto simp: tcb_Close_def sends_data_def pendingChallengeAck_def HasPendingRetransmit_def
      txQueuedDataOpen_def TxDataOpen_def flag_bits bit_simps split: State.splits)

lemma PendingSegment_data:
  assumes "PendingSegment t n = Some (seg, True)" "0 \<le> n" "sends_data t"
  shows "SEQ seg = sNXT (sndS t)" "\<not> HasAny (SegFlags seg) FlagSYN" "\<not> HasAny (SegFlags seg) FlagRST"
proof -
  have r: "\<not> HasPendingRetransmit t" using assms(3) by (simp add: sends_data_def)
  have "SEQ seg = sNXT (sndS t) \<and> \<not> HasAny (SegFlags seg) FlagSYN \<and> \<not> HasAny (SegFlags seg) FlagRST"
    using assms(1,2) r
  proof (cases rule: PendingSegment_cases)
    case challenge
    then show ?thesis using assms(3) by (simp add: sends_data_def)
  next
    case (proposed k)
    then show ?thesis using assms(3) by (simp add: sends_data_def pendingFlags_def flag_bits bit_simps)
  qed
  then show "SEQ seg = sNXT (sndS t)" "\<not> HasAny (SegFlags seg) FlagSYN" "\<not> HasAny (SegFlags seg) FlagRST" by simp_all
qed

lemma tcb_Send_next:
  assumes "tcb_Send t seg = (t', None)" "SEQ seg = sNXT (sndS t)" "tcbState t \<noteq> StateClosed"
  shows "sNXT (sndS t') = sNXT (sndS t) + LEN seg"
proof -
  have "sndS (sendDispatch t seg) = sndS t" "sndS (advancePending u seg) = sndS u" for u
    using assms(3) by (auto simp: sendDispatch_def advancePending_def Let_def split: State.splits)
  then show ?thesis
    using assms(1,2) by (auto simp: tcb_Send_def Let_def LessThan_def UpdateForward_def split: option.splits if_splits)
qed

lemma MakePacket_next:
  assumes "tx_is tx q S U" "S \<noteq> [] \<longrightarrow> seq = q + of_nat (length S)" "0 < k"
    and "tx_MakePacket tx k seq = Some (tx', d, None)"
  shows "d = take k U \<and> (\<exists>q'. tx_is tx' q' (S @ d) (drop k U) \<and>
    (S @ d \<noteq> [] \<longrightarrow> q' + of_nat (length (S @ d)) = seq + of_nat (length d)))"
proof (cases "S = []")
  case False
  then show ?thesis using MakePacket_law [OF assms(1,3), of seq] assms(2,4) by (auto simp: algebra_simps)
next
  case S: True
  show ?thesis
  proof (cases "U = []")
    case True
    obtain xs so s uo u ks where at: "tx_at tx q xs so s uo u ks" and SU: "length S = s" "length U = u"
      using assms(1) by (rule tx_is_obtain)
    have "ring_IsEmpty (fst (unsentRing tx))" "sentEndSeq tx = (0, False)"
      using tx_atD(18) [OF at] tx_sentEndSeq [OF at] True S SU by (auto simp: ring_IsEmpty_def)
    then have "d = [] \<and> tx' = tx"
      using assms(4) True S by (auto simp: tx_MakePacket_def Let_def split: if_splits)
    then show ?thesis using assms(1) True S by auto
  next
    case False
    have "sl_Free (slist tx) \<noteq> 0" using assms(4) by (auto simp: tx_MakePacket_def)
    from MakePacket_new [OF assms(1) False assms(3) this, of seq] S show ?thesis
      using assms(4) by auto
  qed
qed

text \<open>The header \<open>Send\<close> writes in front of the data.\<close>

lemma header_written:
  assumes "tcp_SetSourcePort b sp = Some b1" "tcp_SetDestinationPort b1 dp = Some b2"
    and "tcp_SetSegment b2 seg 5 = Some b3" "tcp_SetUrgentPtr b3 0 = Some b4" "20 \<le> n" "n \<le> length b"
  shows "tcp_Seq (take n b4) = Some (SEQ seg)" "tcp_Payload (take n b4) = Some (drop 20 (take n b))"
proof -
  have len: "20 \<le> length b" using assms(5,6) by simp
  let ?v = "push_bit 12 (ucast (5 :: u8)) OR Mask (SegFlags seg)"
  let ?p = "patch 2 (be_enc 2 dp) (patch 0 (be_enc 2 sp) b)"
  let ?s = "patch 14 (be_enc 2 (ucast (WND seg) :: u16)) (patch 12 (be_enc 2 ?v)
    (patch 8 (be_enc 4 (ACK seg)) (patch 4 (be_enc 4 (SEQ seg)) ?p)))"
  have "b2 = ?p" using assms(1,2) by (auto simp: tcp_field_defs put_be_def split: if_splits)
  moreover from this have "b3 = ?s"
    using assms(3) len by (auto simp: tcp_SetSegment_def tcp_field_defs put_be_def split: if_splits)
  ultimately have b4: "b4 = patch 18 (be_enc 2 (0 :: u16)) ?s"
    using assms(4) by (auto simp: tcp_field_defs put_be_def split: if_splits)
  have l4: "length b4 = length b" using len by (simp add: b4)
  have r: "get32 b4 4 = Some (SEQ seg)" "get16 b4 12 = Some ?v"
    using len by (simp_all add: b4 frame_access)
  have t: "get32 (take n b4) 4 = get32 b4 4" "get16 (take n b4) 12 = get16 b4 12"
    using assms(5,6) l4 by (simp_all add: get_be_def drop_take min_def)
  show "tcp_Seq (take n b4) = Some (SEQ seg)" using r t by (simp add: tcp_field_defs)
  have hl: "tcp_HeaderLength (take n b4) = Some 20"
    using r t offset_flags_parts(1) [of 5 "SegFlags seg"] by (simp add: tcp_HeaderLength_def tcp_OffsetAndFlags_def)
  have "drop 20 b4 = drop 20 b" using len by (simp add: b4 drop_patch_after)
  then have "drop 20 (take n b4) = drop 20 (take n b)" by (simp add: drop_take)
  then show "tcp_Payload (take n b4) = Some (drop 20 (take n b))"
    using hl assms(5,6) l4 go_slice_int [of "take n b4" 20 n] by (simp add: tcp_Payload_def)
qed

lemma sendEmit_eq:
  assumes "tcb_Send (scb h) seg = (t, None)" "policy h = None" "h_State h \<noteq> StateTimeWait"
    "\<not> HasAny (SegFlags seg) FlagRST"
  shows "sendEmit h b seg off = do {
     b \<leftarrow> tcp_SetSourcePort b (localPort h);
     b \<leftarrow> tcp_SetDestinationPort b (remotePort h);
     b \<leftarrow> tcp_SetSegment b (seg\<lparr>WND := wireWnd (h\<lparr>scb := t, requeueControl := False\<rparr>) seg\<rparr>) off;
     b \<leftarrow> tcp_SetUrgentPtr b 0;
     Some (h\<lparr>scb := t, requeueControl := False\<rparr>, b, int (unat off * 4 + unat (DATALEN seg)), None)
   }"
  using assms by (simp add: sendEmit_def Let_def)

text \<open>The emission of a segment with \<open>d\<close> as its data.\<close>

lemma sendEmit_data:
  assumes "sendEmit h (patch 20 d b) seg 5 = Some (h', b', n, None)" "0 < n" "policy h = None"
    and "SEQ seg = sNXT (sndS (scb h))" "DATALEN seg = of_nat (length d)" "20 + length d \<le> length b" "length b < 2 ^ 32"
    and "h_State h \<noteq> StateClosed" "h_State h \<noteq> StateTimeWait" "\<not> HasAny (SegFlags seg) FlagRST"
    and "\<not> HasAny (SegFlags seg) FlagSYN"
  shows "n = int (20 + length d) \<and> tcp_Seq (take (nat n) b') = Some (SEQ seg) \<and>
    tcp_Payload (take (nat n) b') = Some d \<and> bufTx h' = bufTx h \<and>
    sNXT (sndS (scb h')) = sNXT (sndS (scb h)) + of_nat (length d) + of_bool (HasAny (SegFlags seg) FlagFIN)"
proof -
  obtain t where t: "tcb_Send (scb h) seg = (t, None)"
    using assms(1,2) by (cases "tcb_Send (scb h) seg") (auto simp: sendEmit_def Let_def split: if_splits)
  let ?h = "h\<lparr>scb := t, requeueControl := False\<rparr>"
  let ?seg = "seg\<lparr>WND := wireWnd ?h seg\<rparr>"
  have ul: "unat (DATALEN seg) = length d" using assms(5-7) by (simp add: unat_of_nat)
  obtain b1 b2 b3 where w: "tcp_SetSourcePort (patch 20 d b) (localPort h) = Some b1"
    "tcp_SetDestinationPort b1 (remotePort h) = Some b2" "tcp_SetSegment b2 ?seg 5 = Some b3"
    "tcp_SetUrgentPtr b3 0 = Some b'" and n0: "n = int (unat (5 :: u8) * 4 + unat (DATALEN seg))" and h': "h' = ?h"
    using assms(1) unfolding sendEmit_eq [OF t assms(3,9,10)] bind_eq_Some_conv option.inject prod.inject by blast
  have n: "n = int (20 + length d)" unfolding n0 ul by simp
  have "nat n = 20 + length d" using n by simp
  moreover have "drop 20 (take (20 + length d) (patch 20 d b)) = d"
    using drop_patch_inside [of 20 d b] assms(6) by (simp add: take_drop add.commute)
  ultimately have "tcp_Seq (take (nat n) b') = Some (SEQ seg)" "tcp_Payload (take (nat n) b') = Some d"
    using header_written [OF w, of "20 + length d"] assms(6) by simp_all
  moreover have "sNXT (sndS t) = sNXT (sndS (scb h)) + of_nat (length d) + of_bool (HasAny (SegFlags seg) FlagFIN)"
    using tcb_Send_next [OF t assms(4)] assms(5,8,11) by (simp add: LEN_bits h_State_def flag_bits)
  ultimately show ?thesis using n h' by simp
qed

text \<open>The transmit ring and the control block agree on where the unsent data begin.\<close>

definition tx_sync :: "'p HandlerP \<Rightarrow> Value \<Rightarrow> bytes \<Rightarrow> bytes \<Rightarrow> bool" where
  "tx_sync h q S U \<longleftrightarrow> tx_is (bufTx h) q S U \<and> (S \<noteq> [] \<longrightarrow> sNXT (sndS (scb h)) = q + of_nat (length S))"

lemma sendClose_data:
  assumes "sendClose h = (h2, None)" "sends_data (scb h)"
  shows "policy h2 = policy h \<and> sends_data (scb h2) \<and> sndS (scb h2) = sndS (scb h) \<and> bufTx h2 = bufTx h"
proof -
  obtain t e where t: "tcb_Close (scb h) = (t, e)" by fastforce
  from assms(1) consider "h2 = h" | "h2 = h\<lparr>closing := False, scb := t\<rparr>" "e = None"
    using t by (auto simp: sendClose_def split: if_splits)
  then show ?thesis using assms(2) t tcb_Close_sends_data [of "scb h" t] by cases auto
qed

lemma h_Send_choice:
  assumes "h_Send h b = Some (h', b', n, None)" "0 < n" "policy h = None" "sends_data (scb h)" "\<not> requeueControl h"
  obtains h2 h3 b3 seg off where "policy h2 = None" "sends_data (scb h2)" "sndS (scb h2) = sndS (scb h)" "bufTx h2 = bufTx h"
    "sendSegment h2 b 5 TransmitUnlimited False False = Some (Emit h3 b3 seg off)"
    "sendEmit h3 b3 seg off = Some (h', b', n, None)"
proof -
  have st: "h_State h \<noteq> StateClosed" using assms(4) by (auto simp: sends_data_def h_State_def txQueuedDataOpen_def TxDataOpen_def)
  then have syn: "\<not> AwaitingSynSend h" by (simp add: AwaitingSynSend_def)
  let ?h = "sendAutoClose h"
  have a: "policy ?h = None" "scb ?h = scb h" "bufTx ?h = bufTx h" using assms(3) by (simp_all add: sendAutoClose_def)
  obtain h2 e where c: "sendClose ?h = (h2, e)" by fastforce
  obtain h3 b3 seg off where r: "e = None" "sendSegment h2 b 5 TransmitUnlimited False False = Some (Emit h3 b3 seg off)"
    "sendEmit h3 b3 seg off = Some (h', b', n, None)"
    using assms(1,2,3,5) c syn
    by (auto simp: h_Send_def sendPolicy_def sendFrom_def Let_def split: if_splits prod.splits option.splits
        bind_splits sendChoice.splits)
  have "policy h2 = None \<and> sends_data (scb h2) \<and> sndS (scb h2) = sndS (scb h) \<and> bufTx h2 = bufTx h"
    using sendClose_data [of ?h h2] c [unfolded r(1)] a assms(4) by simp
  then show ?thesis using that r by blast
qed

lemma handler_sends_next:
  assumes "h_Send h b = Some (h', b', n, None)" "0 < n" "policy h = None" "sends_data (scb h)" "\<not> requeueControl h"
    and "tx_sync h q S U" "length b < 2 ^ 32"
  shows "\<exists>d fin. d = take (length d) U \<and> n = int (20 + length d) \<and>
    tcp_Seq (take (nat n) b') = Some (sNXT (sndS (scb h))) \<and> tcp_Payload (take (nat n) b') = Some d \<and>
    sNXT (sndS (scb h')) = sNXT (sndS (scb h)) + of_nat (length d) + of_bool fin \<and>
    (\<not> fin \<longrightarrow> (\<exists>q'. tx_sync h' q' (S @ d) (drop (length d) U)))"
proof -
  obtain h2 h3 b3 seg off where h2: "policy h2 = None" "sends_data (scb h2)" "sndS (scb h2) = sndS (scb h)" "bufTx h2 = bufTx h"
    "sendSegment h2 b 5 TransmitUnlimited False False = Some (Emit h3 b3 seg off)"
    "sendEmit h3 b3 seg off = Some (h', b', n, None)"
    by (rule h_Send_choice [OF assms(1-5)])
  have len: "20 \<le> length b"
    using assms(1,2) by (auto simp: h_Send_def tcp_NewFrame_def sizeHeaderTCP_def split: if_splits)
  have offer: "0 \<le> sendOffer h2 b TransmitUnlimited" using len by (simp add: sendOffer_def Let_def)
  have st: "h_State h2 \<noteq> StateClosed" "h_State h2 \<noteq> StateTimeWait"
    using h2(2) by (auto simp: sends_data_def h_State_def txQueuedDataOpen_def TxDataOpen_def)
  have sync: "tx_is (bufTx h2) q S U" "S \<noteq> [] \<longrightarrow> sNXT (sndS (scb h2)) = q + of_nat (length S)"
    using assms(6) h2(3,4) by (simp_all add: tx_sync_def)
  have emit: ?thesis if "h3 = h2\<lparr>bufTx := tx\<rparr>" "b3 = patch 20 d b" "SEQ seg = sNXT (sndS (scb h))"
      "DATALEN seg = of_nat (length d)" "20 + length d \<le> length b" "off = 5" "d = take (length d) U"
      "tx_is tx q' (S @ d) (drop (length d) U)"
      "S @ d \<noteq> [] \<longrightarrow> q' + of_nat (length (S @ d)) = sNXT (sndS (scb h)) + of_nat (length d)"
      "\<not> HasAny (SegFlags seg) FlagRST" "\<not> HasAny (SegFlags seg) FlagSYN" for tx d q'
  proof -
    have "sendEmit (h2\<lparr>bufTx := tx\<rparr>) (patch 20 d b) seg 5 = Some (h', b', n, None)" using h2(6) that(1,2,6) by simp
    from sendEmit_data [OF this assms(2)] that st h2(1,3) assms(7) show ?thesis
      by (intro exI [of _ d] exI [of _ "HasAny (SegFlags seg) FlagFIN"]) (auto simp: tx_sync_def h_State_def)
  qed
  from h2(5) show ?thesis
  proof (cases rule: sendSegment_pending)
    case (data sg tx d)
    note p = PendingSegment_data [OF data(1) offer h2(2)]
    have k: "0 < unat (DATALEN sg)" using data(3) by (simp add: word_less_nat_alt)
    have seq: "S \<noteq> [] \<longrightarrow> SEQ sg = q + of_nat (length S)" using p(1) sync(2) by simp
    from MakePacket_next [OF sync(1) seq k data(5)] obtain q' where d: "d = take (unat (DATALEN sg)) U"
      "tx_is tx q' (S @ d) (drop (unat (DATALEN sg)) U)"
      "S @ d \<noteq> [] \<longrightarrow> q' + of_nat (length (S @ d)) = SEQ sg + of_nat (length d)" by blast
    have "d = take (length d) U" "drop (unat (DATALEN sg)) U = drop (length d) U"
      using d(1) by (auto simp: min_def)
    then show ?thesis using emit [of tx d q'] data d p h2(3) by (auto simp: flag_bits bit_simps)
  next
    case (plain sg)
    note p = PendingSegment_data [OF plain(1) offer h2(2)]
    obtain q' where "tx_is (bufTx h2) q' S U" "S \<noteq> [] \<longrightarrow> q' + of_nat (length S) = sNXT (sndS (scb h))"
      using sync h2(3) by auto
    then show ?thesis using emit [of "bufTx h2" "[]" q'] plain p h2(3) len by simp
  next
    case (syn sg b' words mss)
    then show ?thesis using PendingSegment_data(2) [OF syn(1) offer h2(2)] by (simp add: synack_def flag_bits bit_simps)
  qed simp_all
qed


text \<open>The handler of the example after the application has written three bytes.\<close>

definition demoSender :: "unit HandlerP" where
  "demoSender = fst (the (h_Write demoHandler [1, 2, 3]))"

lemma demoSender_sync: "tx_sync demoSender 4294967294 [] [1, 2, 3]"
proof -
  have tx: "bufTx demoHandler = demoTx 4" "length (rawbuf (demoTx 4)) = 8" by code_simp+
  have "tx_is (demoTx 4) 4294967294 [] []" by (rule tx_Reset_empty [OF demoTx_Reset]) simp
  from tx_Write_ok [OF this, of "[1, 2, 3]"] tx(2) obtain r where
    r: "tx_Write (demoTx 4) [1, 2, 3] = Some (r, 3, None)" "tx_is r 4294967294 [] [1, 2, 3]" by auto
  have "h_State demoHandler = StateEstablished" "\<not> closing demoHandler" by code_simp+
  then have "bufTx demoSender = r" using r(1) tx(1) by (simp add: demoSender_def h_Write_def TxDataOpen_def)
  then show ?thesis using r(2) by (simp add: tx_sync_def)
qed


end
