(* ===== verification/Ip_Internal.thy ===== *)
theory Ip_Internal
  imports Go_Binary
begin

text \<open>
  \<open>internal/ip.go\<close>: access to the addresses of an IP header of either version, by nodes that
  do not otherwise know about IP. Go checks a slice expression \<open>buf[i:j]\<close> against the capacity
  of \<open>buf\<close>, and the callers pass the header cut out of a frame, so \<open>buf\<close> here is the slice up to
  its capacity and \<open>n\<close> its length.
\<close>

section \<open>Model\<close>

definition GetIPAddr :: "bytes \<Rightarrow> nat \<Rightarrow> (bytes \<times> bytes \<times> u16 \<times> u16 \<times> goerror option) option" where
  "GetIPAddr buf n = do {
     b0 \<leftarrow> get8 (take n buf) 0;
     let version = drop_bit 4 b0;
     if version = 4 then do {
       ident \<leftarrow> get16 buf 4;
       src \<leftarrow> get_bytes 4 buf 12;
       dst \<leftarrow> get_bytes 4 buf 16;
       Some (src, dst, ident, 4 * ucast (b0 AND 0xf), None)
     }
     else if version = 6 then do {
       src \<leftarrow> get_bytes 16 buf 8;
       dst \<leftarrow> get_bytes 16 buf 24;
       Some (src, dst, 0, 40, None)
     }
     else Some ([], [], 0, 0, Some (Generic ErrUnsupported))
   }"

definition IsMulticastIPAddr :: "bytes \<Rightarrow> bool" where
  "IsMulticastIPAddr addr \<longleftrightarrow>
     (if length addr = 4 then addr ! 0 AND 0xf0 = 0xe0
      else if length addr = 16 then addr ! 0 = 0xff else False)"

text \<open>A nil address is \<open>None\<close> and leaves the field alone.\<close>

definition setAddrs :: "bytes \<Rightarrow> nat \<Rightarrow> nat \<Rightarrow> nat \<Rightarrow> bytes option \<Rightarrow> bytes option \<Rightarrow> bytes \<times> goerror option" where
  "setAddrs buf w isrc idst src dst =
     (if src \<noteq> None \<and> w \<noteq> length (the src) then (buf, Some (Generic ErrMismatchLen))
      else if dst \<noteq> None \<and> w \<noteq> length (the dst) then (buf, Some (Generic ErrMismatchLen))
      else let buf = (case src of None \<Rightarrow> buf | Some a \<Rightarrow> patch isrc a buf);
               buf = (case dst of None \<Rightarrow> buf | Some a \<Rightarrow> patch idst a buf)
           in (buf, None))"

definition SetIPAddrs ::
    "bytes \<Rightarrow> nat \<Rightarrow> u16 \<Rightarrow> bytes option \<Rightarrow> bytes option \<Rightarrow> (bytes \<times> goerror option) option" where
  "SetIPAddrs buf n ident src dst = do {
     b0 \<leftarrow> get8 (take n buf) 0;
     let version = drop_bit 4 b0;
     if version = 4 then do {
       _ \<leftarrow> get_bytes 4 buf 12;
       _ \<leftarrow> get_bytes 4 buf 16;
       buf \<leftarrow> (if ident > 0 then put16 buf 4 ident else Some buf);
       Some (setAddrs buf 4 12 16 src dst)
     }
     else if version = 6 then do {
       _ \<leftarrow> get_bytes 16 buf 8;
       _ \<leftarrow> get_bytes 16 buf 24;
       Some (setAddrs buf 16 8 24 src dst)
     }
     else Some (buf, Some (Generic ErrUnsupported))
   }"

text \<open>The destination address of the packet and the hardware address it maps to.\<close>

definition SetMulticast :: "bytes \<Rightarrow> int \<Rightarrow> bytes \<Rightarrow> (bytes \<times> goerror option) option" where
  "SetMulticast carrier ipOff addr = do {
     ip \<leftarrow> go_slice carrier ipOff (int (length carrier));
     _ \<leftarrow> get_bytes 6 carrier 0;
     b0 \<leftarrow> get8 ip 0;
     let version = drop_bit 4 b0;
     if version = 4 then
       if length addr \<noteq> 4 then Some (carrier, Some (Generic ErrMismatchLen))
       else do {
         carrier \<leftarrow> put_bytes carrier (nat ipOff + 16) addr;
         carrier \<leftarrow> put_bytes carrier 0 [0x01, 0x00, 0x5e, addr ! 1 AND 0x7f, addr ! 2, addr ! 3];
         Some (carrier, None)
       }
     else if version = 6 then
       if length addr \<noteq> 16 then Some (carrier, Some (Generic ErrMismatchLen))
       else do {
         carrier \<leftarrow> put_bytes carrier (nat ipOff + 24) addr;
         carrier \<leftarrow> put_bytes carrier 0 [0x33, 0x33, addr ! 12, addr ! 13, addr ! 14, addr ! 15];
         Some (carrier, None)
       }
     else Some (carrier, Some (Generic ErrUnsupported))
   }"

section \<open>Reading back what was set\<close>

text \<open>The simplifier writes the width of an octet as \<open>Suc 0\<close>.\<close>

lemma get8_patch_above:
  "0 < k \<Longrightarrow> k + length b \<le> length xs \<Longrightarrow> get_be (Suc 0) (patch k b xs) 0 = get_be (Suc 0) xs 0"
  by (simp add: get_be_patch_other)

lemma get8_take: "get_be (Suc 0) (take n xs) 0 = (if n = 0 then None else get_be (Suc 0) xs 0)"
  by (simp add: get_be_def)

lemma SetIPAddrs_writes:
  assumes "SetIPAddrs buf n ident src dst = Some (buf', err)"
  shows "length buf' = length buf" "get8 buf' 0 = get8 buf 0"
proof -
  have "length buf' = length buf \<and> get8 buf' 0 = get8 buf 0"
    using assms by (auto simp: SetIPAddrs_def Let_def setAddrs_def get_bytes_def put_be_def
        get8_patch_above split: bind_splits if_splits option.splits)
  then show "length buf' = length buf" "get8 buf' 0 = get8 buf 0" by simp_all
qed

text \<open>In an IPv4 header all that changes are the identification and the two addresses.\<close>

lemma SetIPAddrs_v4_nth:
  assumes "SetIPAddrs buf n ident src dst = Some (buf', err)" "get8 buf 0 = Some b0" "drop_bit 4 b0 = (4 :: u8)"
    and "i < length buf" "i < 4 \<or> 6 \<le> i \<and> i < 12 \<or> 20 \<le> i"
  shows "buf' ! i = buf ! i"
  using assms by (auto simp: SetIPAddrs_def Let_def setAddrs_def get_bytes_def put_be_def get8_take
      nth_patch split: bind_splits if_splits option.splits)

lemma SetIPAddrs_dst4:
  assumes "get8 buf 0 = Some b0" "drop_bit 4 b0 = (4 :: u8)" "20 \<le> length buf" "0 < n" "length addr = 4"
  shows "SetIPAddrs buf n 0 None (Some addr) = Some (patch 16 addr buf, None)"
  using assms by (simp add: SetIPAddrs_def setAddrs_def get_bytes_def get8_take)

text \<open>
  A source and destination that \<open>SetIPAddrs\<close> accepts are what \<open>GetIPAddr\<close> then finds, for either
  version.
\<close>

lemma set_get_addrs:
  assumes "SetIPAddrs buf n ident (Some src) (Some dst) = Some (buf', None)"
  shows "\<exists>ident' hl. GetIPAddr buf' n = Some (src, dst, ident', hl, None) \<and>
    (length src = 4 \<and> ident > 0 \<longrightarrow> ident' = ident)"
proof -
  obtain b0 where b0: "get8 (take n buf) 0 = Some b0" "n \<noteq> 0" "get8 buf 0 = Some b0"
    using assms by (auto simp: SetIPAddrs_def get8_take split: bind_splits if_splits)
  consider (v4) "drop_bit 4 b0 = 4" | (v6) "drop_bit 4 b0 = 6"
    using assms b0 by (auto simp: SetIPAddrs_def Let_def split: if_splits)
  then show ?thesis
  proof cases
    case v4
    then have len: "20 \<le> length buf" "length src = 4" "length dst = 4"
      using assms b0 by (auto simp: SetIPAddrs_def Let_def setAddrs_def get_bytes_def put_be_def
          split: bind_splits if_splits)
    let ?b = "if ident > 0 then patch 4 (be_enc 2 ident) buf else buf"
    have eq: "buf' = patch 16 dst (patch 12 src ?b)"
      using assms b0 v4 by (auto simp: SetIPAddrs_def Let_def setAddrs_def get_bytes_def put_be_def
          split: bind_splits if_splits)
    have b: "length ?b = length buf" "get8 ?b 0 = Some b0" "\<exists>w. get16 ?b 4 = Some w \<and> (ident > 0 \<longrightarrow> w = ident)"
      using len b0 get_be_Some [of 4 2 buf] by (auto simp: frame_access)
    show ?thesis
      using b len b0(2) v4 by (auto simp: eq GetIPAddr_def get8_take frame_access)
  next
    case v6
    then have len: "40 \<le> length buf" "length src = 16" "length dst = 16"
      "buf' = patch 24 dst (patch 8 src buf)"
      using assms b0 by (auto simp: SetIPAddrs_def Let_def setAddrs_def get_bytes_def split: bind_splits if_splits)
    then show ?thesis using b0 v6 by (auto simp: GetIPAddr_def get8_take frame_access)
  qed
qed

end
