(* ===== verification/Inet_Handlers.thy ===== *)
theory Inet_Handlers
  imports Go_Binary
begin

text \<open>
  \<open>internet/definitions.go\<close>: the table of protocol nodes a stack layer dispatches to. The
  interface \<open>lneto.StackNode\<close> (\<open>definitions.go\<close>) is a record of functions over the state of the
  node; a \<open>None\<close> of \<open>ifEncapsulate\<close> or \<open>ifDemux\<close> is a panic of the node. \<open>ifConnID\<close> is the
  value behind the pointer \<open>ConnectionID\<close> returns, \<open>None\<close> for a nil pointer. What \<open>Demux\<close>
  writes to the carrier buffer is not returned: no caller reads the buffer after it.
\<close>

section \<open>Model\<close>

record 'n StackNode =
  ifProtocol :: "'n \<Rightarrow> u64"
  ifLocalPort :: "'n \<Rightarrow> u16"
  ifConnID :: "'n \<Rightarrow> u64 option"
  ifEncapsulate :: "'n \<Rightarrow> bytes \<Rightarrow> int \<Rightarrow> int \<Rightarrow> ('n \<times> bytes \<times> int \<times> goerror option) option"
  ifDemux :: "'n \<Rightarrow> bytes \<Rightarrow> int \<Rightarrow> ('n \<times> goerror option) option"

text \<open>The zero value of \<open>callbacks\<close> is \<open>None\<close>.\<close>

record 'n node =
  currConnID :: u64
  callbacks :: "'n option"
  remoteAddr :: bytes
  ndProto :: u16
  lport :: u16

definition nd_IsInvalid :: "'n StackNode \<Rightarrow> 'n node \<Rightarrow> bool" where
  "nd_IsInvalid I nd \<longleftrightarrow>
     (case callbacks nd of None \<Rightarrow> True
      | Some s \<Rightarrow> (case ifConnID I s of None \<Rightarrow> False | Some c \<Rightarrow> currConnID nd \<noteq> c))"

definition nd_destroyed :: "'n node" where
  "nd_destroyed = \<lparr>currConnID = 0, callbacks = None, remoteAddr = [], ndProto = 0, lport = 0\<rparr>"

definition checkNodeErr :: "'n StackNode \<Rightarrow> 'n node \<Rightarrow> goerror option \<Rightarrow> bool" where
  "checkNodeErr I nd err \<longleftrightarrow> nd_IsInvalid I nd \<or> err = Some NetClosed"

definition nodeFromStackNode ::
    "'n StackNode \<Rightarrow> 'n \<Rightarrow> u16 \<Rightarrow> u64 \<Rightarrow> bytes \<Rightarrow> 'n node option" where
  "nodeFromStackNode I s port protocol raddr =
     (if protocol > 0xffff then None
      else Some \<lparr>currConnID = (case ifConnID I s of None \<Rightarrow> 0 | Some c \<Rightarrow> c), callbacks = Some s,
                 remoteAddr = raddr, ndProto = ucast protocol, lport = port\<rparr>)"

definition incLim :: "nat \<Rightarrow> nat \<Rightarrow> nat" where
  "incLim v m = (if v + 1 = m then 0 else v + 1)"

text \<open>\<open>hcap\<close> is the capacity of the slice \<open>nodes\<close>.\<close>

record 'n handlers =
  nodes :: "'n node list"
  hcap :: nat
  encapsIdx :: nat

text \<open>
  \<open>slices.Grow\<close> panics on a negative argument and guarantees room for \<open>maxNodes\<close> elements; the
  capacity it allocates is up to the Go runtime, here the parameter \<open>grow\<close>.
\<close>

definition hs_reset :: "(nat \<Rightarrow> nat) \<Rightarrow> 'n handlers \<Rightarrow> int \<Rightarrow> 'n handlers option" where
  "hs_reset grow h maxNodes =
     (if maxNodes < 0 then None
      else Some (h\<lparr>nodes := [], hcap := (if nat maxNodes \<le> hcap h then hcap h else grow (nat maxNodes))\<rparr>))"

definition hs_full :: "'n handlers \<Rightarrow> bool" where
  "hs_full h \<longleftrightarrow> hcap h = length (nodes h)"

definition hs_compact :: "'n StackNode \<Rightarrow> 'n handlers \<Rightarrow> 'n handlers" where
  "hs_compact I h = h\<lparr>nodes := filter (\<lambda>nd. \<not> nd_IsInvalid I nd) (nodes h)\<rparr>"

definition hs_prepAdd :: "'n StackNode \<Rightarrow> 'n handlers \<Rightarrow> 'n handlers \<times> goerror option" where
  "hs_prepAdd I h =
     (if hs_full h
      then let h = hs_compact I h in (h, if hs_full h then Some (Generic ErrExhausted) else None)
      else (h, None))"

fun find_index :: "('a \<Rightarrow> bool) \<Rightarrow> 'a list \<Rightarrow> nat option" where
  "find_index P [] = None"
| "find_index P (x # xs) = (if P x then Some 0 else map_option Suc (find_index P xs))"

text \<open>The three lookups return a pointer to the first match, here its index.\<close>

definition nodeByProto :: "'n StackNode \<Rightarrow> 'n handlers \<Rightarrow> u16 \<Rightarrow> nat option" where
  "nodeByProto I h proto = find_index (\<lambda>nd. ndProto nd = proto \<and> \<not> nd_IsInvalid I nd) (nodes h)"

definition nodeByPort :: "'n StackNode \<Rightarrow> 'n handlers \<Rightarrow> u16 \<Rightarrow> nat option" where
  "nodeByPort I h port = find_index (\<lambda>nd. lport nd = port \<and> \<not> nd_IsInvalid I nd) (nodes h)"

definition nodeByPortProto :: "'n StackNode \<Rightarrow> 'n handlers \<Rightarrow> u16 \<Rightarrow> u16 \<Rightarrow> nat option" where
  "nodeByPortProto I h port protocol =
     find_index (\<lambda>nd. lport nd = port \<and> ndProto nd = protocol \<and> \<not> nd_IsInvalid I nd) (nodes h)"

definition registerByProto :: "'n StackNode \<Rightarrow> 'n handlers \<Rightarrow> 'n node \<Rightarrow> 'n handlers \<times> goerror option" where
  "registerByProto I h nd =
     (case hs_prepAdd I h of
        (h, Some err) \<Rightarrow> (h, Some err)
      | (h, None) \<Rightarrow>
          if nodeByProto I h (ndProto nd) \<noteq> None then (h, Some (Generic ErrAlreadyRegistered))
          else (h\<lparr>nodes := nodes h @ [nd]\<rparr>, None))"

definition registerByPortProto :: "'n StackNode \<Rightarrow> 'n handlers \<Rightarrow> 'n node \<Rightarrow> 'n handlers \<times> goerror option" where
  "registerByPortProto I h nd =
     (case hs_prepAdd I h of
        (h, Some err) \<Rightarrow> (h, Some err)
      | (h, None) \<Rightarrow>
          if nodeByPortProto I h (lport nd) (ndProto nd) \<noteq> None
          then (h, Some (Generic ErrAlreadyRegistered))
          else (h\<lparr>nodes := nodes h @ [nd]\<rparr>, None))"

definition tryHandleError ::
    "'n StackNode \<Rightarrow> 'n node \<Rightarrow> goerror option \<Rightarrow> 'n node \<times> bool" where
  "tryHandleError I nd err =
     (if err \<noteq> None \<and> (err = Some NetClosed \<or> nd_IsInvalid I nd) then (nd_destroyed, True) else (nd, False))"

text \<open>
  The call of a callback of the node at index \<open>i\<close> and the handling of its error. A call on a
  destroyed node is a nil dereference.
\<close>

definition nodeDemux ::
    "'n StackNode \<Rightarrow> 'n handlers \<Rightarrow> nat \<Rightarrow> bytes \<Rightarrow> int \<Rightarrow> ('n handlers \<times> bool \<times> goerror option) option" where
  "nodeDemux I h i buf offset = do {
     s \<leftarrow> callbacks (nodes h ! i);
     (s, err) \<leftarrow> ifDemux I s buf offset;
     let (nd, gone) = tryHandleError I ((nodes h ! i)\<lparr>callbacks := Some s\<rparr>) err;
     Some (h\<lparr>nodes := (nodes h)[i := nd]\<rparr>, gone, if gone then None else err)
   }"

definition demuxByProto ::
    "'n StackNode \<Rightarrow> 'n handlers \<Rightarrow> bytes \<Rightarrow> int \<Rightarrow> u16 \<Rightarrow> ('n handlers \<times> nat option \<times> goerror option) option" where
  "demuxByProto I h buf offset proto =
     (case nodeByProto I h proto of
        None \<Rightarrow> Some (h, None, Some (Generic ErrPacketDrop))
      | Some i \<Rightarrow> do { (h, gone, err) \<leftarrow> nodeDemux I h i buf offset; Some (h, Some i, err) })"

definition demuxByPort ::
    "'n StackNode \<Rightarrow> 'n handlers \<Rightarrow> bytes \<Rightarrow> int \<Rightarrow> u16 \<Rightarrow> ('n handlers \<times> nat option \<times> goerror option) option" where
  "demuxByPort I h buf offset port =
     (case nodeByPort I h port of
        None \<Rightarrow> Some (h, None, Some (Generic ErrPacketDrop))
      | Some i \<Rightarrow> do { (h, gone, err) \<leftarrow> nodeDemux I h i buf offset; Some (h, if gone then None else Some i, err) })"

definition encapsulateNode ::
    "'n StackNode \<Rightarrow> 'n handlers \<Rightarrow> nat \<Rightarrow> bytes \<Rightarrow> int \<Rightarrow> int \<Rightarrow>
     ('n handlers \<times> bytes \<times> int \<times> goerror option) option" where
  "encapsulateNode I h i buf offsetIP offsetThisFrame =
     (if nd_IsInvalid I (nodes h ! i) then Some (h, buf, 0, None)
      else do {
        s \<leftarrow> callbacks (nodes h ! i);
        (s, buf, n, err) \<leftarrow> ifEncapsulate I s buf offsetIP offsetThisFrame;
        let (nd, gone) = tryHandleError I ((nodes h ! i)\<lparr>callbacks := Some s\<rparr>) err;
        let h = h\<lparr>nodes := (nodes h)[i := nd]\<rparr>;
        if n > 0 then Some (h, buf, n, if gone then None else err) else Some (h, buf, 0, None)
      })"

text \<open>The loop of \<open>encapsulateAny\<close> with \<open>k\<close> rounds to go; an index past the end panics.\<close>

fun encapsLoop ::
    "'n StackNode \<Rightarrow> nat \<Rightarrow> nat \<Rightarrow> 'n handlers \<Rightarrow> bytes \<Rightarrow> int \<Rightarrow> int \<Rightarrow>
     ('n handlers \<times> bytes \<times> nat option \<times> int \<times> goerror option) option" where
  "encapsLoop I 0 i h buf oip off = Some (h, buf, None, 0, None)"
| "encapsLoop I (Suc k) i h buf oip off =
     (if i \<ge> length (nodes h) then None
      else do {
        (h, buf, n, err) \<leftarrow> encapsulateNode I h i buf oip off;
        let i' = incLim i (length (nodes h));
        if n > 0 \<or> err \<noteq> None then Some (h\<lparr>encapsIdx := i'\<rparr>, buf, Some i, n, err)
        else encapsLoop I k i' h buf oip off
      })"

definition encapsulateAny ::
    "'n StackNode \<Rightarrow> 'n handlers \<Rightarrow> bytes \<Rightarrow> int \<Rightarrow> int \<Rightarrow>
     ('n handlers \<times> bytes \<times> nat option \<times> int \<times> goerror option) option" where
  "encapsulateAny I h buf oip off = encapsLoop I (length (nodes h)) (encapsIdx h) h buf oip off"

section \<open>Lookups\<close>

lemma find_index_Some:
  "find_index P xs = Some i \<longleftrightarrow> i < length xs \<and> P (xs ! i) \<and> (\<forall>j < i. \<not> P (xs ! j))"
proof (induction xs arbitrary: i)
  case (Cons x xs)
  show ?case
  proof (cases i)
    case (Suc i')
    then show ?thesis using Cons [of i'] by (auto simp: less_Suc_eq_0_disj)
  qed auto
qed simp

lemma find_index_None: "find_index P xs = None \<longleftrightarrow> (\<forall>x \<in> set xs. \<not> P x)"
  by (induction xs) auto

lemma destroyed_invalid [simp]: "nd_IsInvalid I nd_destroyed"
  by (simp add: nd_IsInvalid_def nd_destroyed_def)

lemma find_index_valid:
  "find_index (\<lambda>nd. P nd \<and> \<not> nd_IsInvalid I nd) ns = Some i \<Longrightarrow>
   i < length ns \<and> P (ns ! i) \<and> (\<exists>s. callbacks (ns ! i) = Some s)"
  by (auto simp: find_index_Some nd_IsInvalid_def split: option.splits)

section \<open>One node per key\<close>

text \<open>Valid nodes differ in their key: the pair of port and protocol.\<close>

definition node_keys :: "'n StackNode \<Rightarrow> 'n node list \<Rightarrow> (u16 \<times> u16) list" where
  "node_keys I ns = map (\<lambda>nd. (lport nd, ndProto nd)) (filter (\<lambda>nd. \<not> nd_IsInvalid I nd) ns)"

lemma node_keys_append [simp]:
  "node_keys I (xs @ ys) = node_keys I xs @ node_keys I ys"
  "node_keys I (nd # ns) = (if nd_IsInvalid I nd then [] else [(lport nd, ndProto nd)]) @ node_keys I ns"
  "node_keys I [] = []"
  by (simp_all add: node_keys_def)

lemma node_keys_compact [simp]: "node_keys I (nodes (hs_compact I h)) = node_keys I (nodes h)"
  by (simp add: node_keys_def hs_compact_def)

lemma distinct_keys_update:
  assumes "distinct (node_keys I ns)" "i < length ns"
    and "nd_IsInvalid I nd \<or> \<not> nd_IsInvalid I (ns ! i) \<and> lport nd = lport (ns ! i) \<and> ndProto nd = ndProto (ns ! i)"
  shows "distinct (node_keys I (ns[i := nd]))"
proof -
  have "distinct (node_keys I (take i ns @ (ns ! i) # drop (Suc i) ns))"
    using assms(1,2) by (simp add: id_take_nth_drop [symmetric])
  then show ?thesis using assms(2,3) by (auto simp: upd_conv_take_nth_drop)
qed

lemma nodeByPortProto_None:
  "nodeByPortProto I h port proto = None \<longleftrightarrow> (port, proto) \<notin> set (node_keys I (nodes h))"
  by (auto simp: nodeByPortProto_def find_index_None node_keys_def)

lemma tryHandleError_key:
  assumes "tryHandleError I nd err = (nd', gone)" "lport nd = p" "ndProto nd = q"
  shows "nd_IsInvalid I nd' \<or> \<not> nd_IsInvalid I nd' \<and> lport nd' = p \<and> ndProto nd' = q"
  using assms by (auto simp: tryHandleError_def split: if_splits)

lemma encapsulateNode_nodes:
  assumes "encapsulateNode I h i buf oip off = Some (h', buf', n, err)" "i < length (nodes h)"
  obtains nd where "h' = h\<lparr>nodes := (nodes h)[i := nd]\<rparr>"
    and "nd_IsInvalid I nd \<or> \<not> nd_IsInvalid I (nodes h ! i) \<and> lport nd = lport (nodes h ! i) \<and> ndProto nd = ndProto (nodes h ! i)"
proof (cases "nd_IsInvalid I (nodes h ! i)")
  case True
  then show ?thesis using assms that [of "nodes h ! i"] by (simp add: encapsulateNode_def)
next
  case False
  then obtain s' err' gone nd where "tryHandleError I ((nodes h ! i)\<lparr>callbacks := Some s'\<rparr>) err' = (nd, gone)"
    "h' = h\<lparr>nodes := (nodes h)[i := nd]\<rparr>"
    using assms(1) by (auto simp: encapsulateNode_def Let_def split: bind_splits prod.splits if_splits)
  then show ?thesis using that [of nd] tryHandleError_key False by fastforce
qed

text \<open>What a step of the table may do: replace nodes without making an invalid one valid.\<close>

definition table_ok :: "'n StackNode \<Rightarrow> 'n handlers \<Rightarrow> bool" where
  "table_ok I h \<longleftrightarrow> distinct (node_keys I (nodes h)) \<and> length (nodes h) \<le> hcap h"

lemma encapsLoop_keeps:
  assumes "encapsLoop I k i h buf oip off = Some (h', buf', hn, n, err)" "table_ok I h"
  shows "table_ok I h' \<and> length (nodes h') = length (nodes h)"
  using assms
proof (induction k arbitrary: i h buf)
  case (Suc k)
  then have i: "i < length (nodes h)" by (auto split: if_splits)
  then obtain h1 buf1 n1 err1 where e: "encapsulateNode I h i buf oip off = Some (h1, buf1, n1, err1)"
    using Suc.prems(1) by (auto split: bind_splits)
  then obtain nd where h1: "h1 = h\<lparr>nodes := (nodes h)[i := nd]\<rparr>" "table_ok I h1"
    using encapsulateNode_nodes [OF e i] distinct_keys_update [of I "nodes h" i] Suc.prems(2) i
    unfolding table_ok_def by (metis handlers.select_convs(1,2) handlers.surjective handlers.update_convs(1) length_list_update)
  show ?case
  proof (cases "n1 > 0 \<or> err1 \<noteq> None")
    case True
    then show ?thesis using Suc.prems(1) e i h1 by (auto simp: table_ok_def)
  next
    case False
    then have "encapsLoop I k (incLim i (length (nodes h1))) h1 buf1 oip off = Some (h', buf', hn, n, err)"
      using Suc.prems(1) e i by simp
    from Suc.IH [OF this h1(2)] show ?thesis using h1(1) by simp
  qed
qed simp

lemma nodeDemux_keeps:
  assumes "nodeDemux I h i buf off = Some (h', gone, err)" "i < length (nodes h)" "\<not> nd_IsInvalid I (nodes h ! i)"
    and "table_ok I h"
  shows "table_ok I h'"
proof -
  obtain s' e nd g where "tryHandleError I ((nodes h ! i)\<lparr>callbacks := Some s'\<rparr>) e = (nd, g)"
    "h' = h\<lparr>nodes := (nodes h)[i := nd]\<rparr>"
    using assms(1) by (auto simp: nodeDemux_def Let_def split: bind_splits prod.splits)
  then show ?thesis
    using assms(2-4) tryHandleError_key distinct_keys_update [of I "nodes h" i nd] by (fastforce simp: table_ok_def)
qed

lemma register_keeps:
  assumes "registerByPortProto I h nd = (h', err)" "table_ok I h"
  shows "table_ok I h'"
proof -
  obtain h1 e where h1: "hs_prepAdd I h = (h1, e)" by fastforce
  have ok: "table_ok I h1"
    using h1 assms(2) by (auto simp: hs_prepAdd_def table_ok_def Let_def hs_compact_def node_keys_def
        intro: order_trans [OF length_filter_le] split: if_splits)
  have room: "length (nodes h1) < hcap h1" if "e = None"
    using that h1 ok by (auto simp: hs_prepAdd_def table_ok_def hs_full_def Let_def split: if_splits)
  show ?thesis
  proof (cases e)
    case None
    then show ?thesis
      using assms(1) h1 ok room nodeByPortProto_None [of I h1 "lport nd" "ndProto nd"]
      by (auto simp: registerByPortProto_def table_ok_def split: if_splits)
  qed (use assms(1) h1 ok in \<open>simp add: registerByPortProto_def\<close>)
qed

text \<open>
  The steps of a table: the calls of the stack layer that owns it, and a change of the state of
  a node by its application, which may end the life of the node but not revive it.
\<close>

inductive table_step :: "'n StackNode \<Rightarrow> (nat \<Rightarrow> nat) \<Rightarrow> 'n handlers \<Rightarrow> 'n handlers \<Rightarrow> bool" for I grow where
  t_reset: "hs_reset grow h m = Some h' \<Longrightarrow> table_step I grow h h'"
| t_register: "registerByPortProto I h nd = (h', err) \<Longrightarrow> table_step I grow h h'"
| t_encapsulate: "encapsulateAny I h buf oip off = Some (h', buf', hn, n, err) \<Longrightarrow> table_step I grow h h'"
| t_proto: "demuxByProto I h buf off proto = Some (h', hn, err) \<Longrightarrow> table_step I grow h h'"
| t_port: "demuxByPort I h buf off port = Some (h', hn, err) \<Longrightarrow> table_step I grow h h'"
| t_application: "i < length (nodes h) \<Longrightarrow> nd = (nodes h ! i)\<lparr>callbacks := Some s\<rparr> \<Longrightarrow>
    nd_IsInvalid I (nodes h ! i) \<longrightarrow> nd_IsInvalid I nd \<Longrightarrow>
    table_step I grow h (h\<lparr>nodes := (nodes h)[i := nd]\<rparr>)"

inductive_cases table_stepE: "table_step I grow h h'"

lemma table_step_keeps:
  assumes "table_step I grow h h'" "table_ok I h"
  shows "table_ok I h'"
  using assms
proof (cases rule: table_stepE [consumes 1])
  case (1 m)
  then show ?thesis by (auto simp: hs_reset_def table_ok_def split: if_splits)
next
  case (2 nd err)
  then show ?thesis using register_keeps assms(2) by blast
next
  case (3 buf oip off buf' hn n err)
  then show ?thesis using encapsLoop_keeps assms(2) unfolding encapsulateAny_def by blast
next
  case (4 buf off proto hn err)
  then show ?thesis
    using nodeDemux_keeps [OF _ _ _ assms(2)] assms(2)
    by (auto simp: demuxByProto_def nodeByProto_def find_index_Some split: option.splits bind_splits)
next
  case (5 buf off port hn err)
  then show ?thesis
    using nodeDemux_keeps [OF _ _ _ assms(2)] assms(2)
    by (auto simp: demuxByPort_def nodeByPort_def find_index_Some split: option.splits bind_splits)
next
  case (6 i s)
  then show ?thesis
    using distinct_keys_update [of I "nodes h" i "(nodes h ! i)\<lparr>callbacks := Some s\<rparr>"] assms(2)
    by (auto simp: table_ok_def)
qed

lemma distinct_keys_index:
  assumes "distinct (node_keys I ns)" "i < length ns" "\<not> nd_IsInvalid I (ns ! i)"
  shows "find_index (\<lambda>nd. lport nd = lport (ns ! i) \<and> ndProto nd = ndProto (ns ! i) \<and> \<not> nd_IsInvalid I nd) ns = Some i"
proof -
  have "\<not> (lport (ns ! j) = lport (ns ! i) \<and> ndProto (ns ! j) = ndProto (ns ! i) \<and> \<not> nd_IsInvalid I (ns ! j))"
    if j: "j < i" for j
  proof
    assume same: "lport (ns ! j) = lport (ns ! i) \<and> ndProto (ns ! j) = ndProto (ns ! i) \<and> \<not> nd_IsInvalid I (ns ! j)"
    let ?k = "(lport (ns ! i), ndProto (ns ! i))"
    have "ns = take i ns @ ns ! i # drop (Suc i) ns" by (rule id_take_nth_drop [OF assms(2)])
    moreover have "ns ! j \<in> set (take i ns)" using j assms(2) by (auto simp: in_set_conv_nth)
    then have "?k \<in> set (node_keys I (take i ns))" 
      using same unfolding node_keys_def by (auto intro!: image_eqI [of _ _ "ns ! j"])
    ultimately show False
      using assms(1,3) node_keys_append(1) [of I "take i ns" "ns ! i # drop (Suc i) ns"] by auto
  qed
  then show ?thesis using assms(2,3) by (auto simp: find_index_Some)
qed

text \<open>
  C27. Whatever a stack layer does with its table of nodes, registering, dispatching packets to
  them, collecting packets from them, resetting it, and whatever the applications do with their
  connections meanwhile, no two live nodes have the same port and protocol, the table never
  outgrows the memory reserved for it, and the lookup by port and protocol finds exactly the
  node registered for it.
\<close>

theorem table_has_one_node_per_key:
  assumes "(table_step I grow)\<^sup>*\<^sup>* h0 h" "nodes h0 = []"
  shows "distinct (node_keys I (nodes h)) \<and> length (nodes h) \<le> hcap h \<and>
    (\<forall>i < length (nodes h). \<not> nd_IsInvalid I (nodes h ! i) \<longrightarrow>
       nodeByPortProto I h (lport (nodes h ! i)) (ndProto (nodes h ! i)) = Some i)"
proof -
  have "table_ok I h"
    using assms(1)
  proof (induction rule: rtranclp_induct)
    case base
    then show ?case using assms(2) by (simp add: table_ok_def)
  next
    case (step y z)
    then show ?case using table_step_keeps by blast
  qed
  then show ?thesis by (auto simp: table_ok_def nodeByPortProto_def intro: distinct_keys_index)
qed

section \<open>Round robin\<close>

text \<open>The distance from index \<open>i\<close> to index \<open>j\<close> going round a table of \<open>m\<close> nodes.\<close>

definition ring_dist :: "nat \<Rightarrow> nat \<Rightarrow> nat \<Rightarrow> nat" where
  "ring_dist m i j = (if i \<le> j then j - i else j + m - i)"

lemma ring_dist_less: "i < m \<Longrightarrow> j < m \<Longrightarrow> ring_dist m i j < m"
  by (auto simp: ring_dist_def)

lemma ring_dist_step: "i < m \<Longrightarrow> j < m \<Longrightarrow> i \<noteq> j \<Longrightarrow> Suc (ring_dist m (incLim i m) j) = ring_dist m i j"
  by (auto simp: ring_dist_def incLim_def)

lemma incLim_less: "i < m \<Longrightarrow> incLim i m < m"
  by (simp add: incLim_def)

text \<open>
  A node that always has something to send: from a state in \<open>R\<close> it sends, without an error,
  and stays in \<open>R\<close> and alive. \<open>no_panic\<close> says that the other nodes return.
\<close>

definition always_sends :: "'n StackNode \<Rightarrow> 'n set \<Rightarrow> bool" where
  "always_sends I R \<longleftrightarrow> (\<forall>s \<in> R. \<forall>buf oip off. \<exists>s' buf' n.
     ifEncapsulate I s buf oip off = Some (s', buf', n, None) \<and> n > 0 \<and> s' \<in> R \<and> ifConnID I s' = ifConnID I s)"

definition no_panic :: "'n StackNode \<Rightarrow> bool" where
  "no_panic I \<longleftrightarrow> (\<forall>s buf oip off. ifEncapsulate I s buf oip off \<noteq> None)"

definition node_ready :: "'n StackNode \<Rightarrow> 'n set \<Rightarrow> 'n node \<Rightarrow> bool" where
  "node_ready I R nd \<longleftrightarrow> \<not> nd_IsInvalid I nd \<and> (\<exists>s \<in> R. callbacks nd = Some s)"

lemma encapsulateNode_total:
  assumes "no_panic I" "i < length (nodes h)"
  shows "\<exists>h' buf' n err. encapsulateNode I h i buf oip off = Some (h', buf', n, err)"
proof (cases "nd_IsInvalid I (nodes h ! i)")
  case False
  then obtain s where s: "callbacks (nodes h ! i) = Some s" by (auto simp: nd_IsInvalid_def split: option.splits)
  obtain s' b' n' e' where "ifEncapsulate I s buf oip off = Some (s', b', n', e')"
    using assms(1) unfolding no_panic_def by (metis not_None_eq prod.exhaust)
  then show ?thesis using s False by (auto simp: encapsulateNode_def Let_def split: prod.splits)
qed (simp add: encapsulateNode_def)

lemma encapsulateNode_ready:
  assumes "always_sends I R" "node_ready I R (nodes h ! i)" "i < length (nodes h)"
  shows "\<exists>nd buf' n. encapsulateNode I h i buf oip off = Some (h\<lparr>nodes := (nodes h)[i := nd]\<rparr>, buf', n, None) \<and>
    n > 0 \<and> node_ready I R nd"
proof -
  obtain s where s: "s \<in> R" "callbacks (nodes h ! i) = Some s" "\<not> nd_IsInvalid I (nodes h ! i)"
    using assms(2) by (auto simp: node_ready_def)
  then obtain s' buf' n where e: "ifEncapsulate I s buf oip off = Some (s', buf', n, None)" "n > 0" "s' \<in> R"
    "ifConnID I s' = ifConnID I s"
    using assms(1) unfolding always_sends_def by blast
  let ?nd = "(nodes h ! i)\<lparr>callbacks := Some s'\<rparr>"
  have "node_ready I R ?nd" using s e by (auto simp: node_ready_def nd_IsInvalid_def split: option.splits)
  moreover have "encapsulateNode I h i buf oip off = Some (h\<lparr>nodes := (nodes h)[i := ?nd]\<rparr>, buf', n, None)"
    using s e by (simp add: encapsulateNode_def tryHandleError_def)
  ultimately show ?thesis using e(2) by blast
qed

lemma encapsLoop_reaches:
  assumes "no_panic I" "always_sends I R" "node_ready I R (nodes h ! j)" "j < length (nodes h)"
    and "i < length (nodes h)" "ring_dist (length (nodes h)) i j < k"
  shows "\<exists>h' buf' i' n err. encapsLoop I k i h buf oip off = Some (h', buf', Some i', n, err) \<and>
    length (nodes h') = length (nodes h) \<and> i' < length (nodes h) \<and> node_ready I R (nodes h' ! j) \<and>
    encapsIdx h' = incLim i' (length (nodes h)) \<and>
    (i' = j \<or> ring_dist (length (nodes h)) i' j \<le> ring_dist (length (nodes h)) i j)"
  using assms(3-6)
proof (induction k arbitrary: i h buf)
  case (Suc k)
  let ?m = "length (nodes h)"
  show ?case
  proof (cases "i = j")
    case True
    then obtain nd buf' n where
      "encapsulateNode I h j buf oip off = Some (h\<lparr>nodes := (nodes h)[j := nd]\<rparr>, buf', n, None)"
      "n > 0" "node_ready I R nd"
      using encapsulateNode_ready [OF assms(2) Suc.prems(1,2)] by blast
    then show ?thesis using True Suc.prems by simp
  next
    case False
    obtain h1 buf1 n1 err1 where e: "encapsulateNode I h i buf oip off = Some (h1, buf1, n1, err1)"
      using encapsulateNode_total [OF assms(1) Suc.prems(3)] by blast
    then obtain nd where h1: "h1 = h\<lparr>nodes := (nodes h)[i := nd]\<rparr>"
      using encapsulateNode_nodes [OF e Suc.prems(3)] by blast
    then have r: "node_ready I R (nodes h1 ! j)" "length (nodes h1) = ?m" using False Suc.prems(1) by simp_all
    show ?thesis
    proof (cases "n1 > 0 \<or> err1 \<noteq> None")
      case True
      then show ?thesis using e Suc.prems(3) r by auto
    next
      case go: False
      have d: "Suc (ring_dist ?m (incLim i ?m) j) = ring_dist ?m i j"
        using ring_dist_step False Suc.prems(2,3) by simp
      have "encapsLoop I (Suc k) i h buf oip off = encapsLoop I k (incLim i ?m) h1 buf1 oip off"
        using e go Suc.prems(3) r(2) by simp
      then show ?thesis
        using Suc.IH [of h1 "incLim i ?m" buf1] r d Suc.prems incLim_less [of i ?m] by fastforce
    qed
  qed
qed simp

text \<open>A sequence of calls of \<open>encapsulateAny\<close> and the nodes that got to send.\<close>

fun encaps_run ::
    "'n StackNode \<Rightarrow> 'n handlers \<Rightarrow> (bytes \<times> int \<times> int) list \<Rightarrow> ('n handlers \<times> nat option list) option" where
  "encaps_run I h [] = Some (h, [])"
| "encaps_run I h ((buf, oip, off) # xs) = do {
     (h, buf', hn, n, err) \<leftarrow> encapsulateAny I h buf oip off;
     (h, hns) \<leftarrow> encaps_run I h xs;
     Some (h, hn # hns)
   }"

lemma encaps_run_serves:
  assumes "no_panic I" "always_sends I R" "node_ready I R (nodes h ! j)" "j < length (nodes h)"
    and "encapsIdx h < length (nodes h)"
  shows "\<exists>h' hns. encaps_run I h xs = Some (h', hns) \<and>
    (ring_dist (length (nodes h)) (encapsIdx h) j < length xs \<longrightarrow> Some j \<in> set hns)"
  using assms(3-5)
proof (induction xs arbitrary: h)
  case (Cons x xs)
  obtain buf oip off where x: "x = (buf, oip, off)" by (cases x)
  let ?m = "length (nodes h)"
  obtain h1 buf1 i n err where e: "encapsulateAny I h buf oip off = Some (h1, buf1, Some i, n, err)"
    "length (nodes h1) = ?m" "i < ?m" "node_ready I R (nodes h1 ! j)" "encapsIdx h1 = incLim i ?m"
    "i = j \<or> ring_dist ?m i j \<le> ring_dist ?m (encapsIdx h) j"
    using encapsLoop_reaches [OF assms(1,2) Cons.prems, of ?m buf oip off]
      ring_dist_less [OF Cons.prems(3,2)] unfolding encapsulateAny_def by blast
  have "encapsIdx h1 < length (nodes h1)" using e incLim_less [of i ?m] by simp
  then obtain h' hns where r: "encaps_run I h1 xs = Some (h', hns)"
    "ring_dist ?m (incLim i ?m) j < length xs \<Longrightarrow> Some j \<in> set hns"
    using Cons.IH [of h1] e(2,4,5) Cons.prems(2) by auto
  have "Some j \<in> set (Some i # hns)" if "ring_dist ?m (encapsIdx h) j < length (x # xs)"
    using that r(2) e(3,6) ring_dist_step [of i ?m j] Cons.prems(2) by (cases "i = j") auto
  then show ?case using e(1) r(1) by (simp add: x)
qed simp


section \<open>Concrete tables\<close>

text \<open>A node on a port that either sends one byte whenever it is asked or never sends.\<close>

definition beacon :: "(u16 \<times> bool) StackNode" where
  "beacon = \<lparr>ifProtocol = (\<lambda>_. 17), ifLocalPort = fst, ifConnID = (\<lambda>_. None),
     ifEncapsulate = (\<lambda>s buf oip off. Some (s, buf, if snd s then 1 else 0, None)),
     ifDemux = (\<lambda>s buf off. Some (s, None))\<rparr>"

definition beacon_at :: "u16 \<Rightarrow> bool \<Rightarrow> (u16 \<times> bool) node" where
  "beacon_at port talks = the (nodeFromStackNode beacon (port, talks) port 17 [])"

definition beacons :: "(u16 \<times> bool) handlers" where
  "beacons = fst (registerByPortProto beacon
     (fst (registerByPortProto beacon \<lparr>nodes = [], hcap = 2, encapsIdx = 0\<rparr> (beacon_at 53 True)))
     (beacon_at 67 True))"

lemma beacon_props: "no_panic beacon" "always_sends beacon {s. snd s}"
  by (simp_all add: no_panic_def always_sends_def beacon_def)

lemma beacons_eq: "beacons = \<lparr>nodes = [beacon_at 53 True, beacon_at 67 True], hcap = 2, encapsIdx = 0\<rparr>"
  by code_simp

lemma beacon_ready: "node_ready beacon {s. snd s} (nodes beacons ! 1)"
proof -
  have "\<not> nd_IsInvalid beacon (nodes beacons ! 1)" "callbacks (nodes beacons ! 1) = Some (67, True)" by code_simp+
  then show ?thesis by (simp add: node_ready_def)
qed

theorem table_has_one_node_per_key_witness:
  "nodeByPortProto beacon beacons 67 17 = Some 1"
proof -
  let ?h0 = "\<lparr>nodes = [], hcap = 2, encapsIdx = 0\<rparr> :: (u16 \<times> bool) handlers"
  have "table_step beacon id ?h0 (fst (registerByPortProto beacon ?h0 (beacon_at 53 True)))"
    by (rule t_register, rule prod.collapse [symmetric])
  moreover have "table_step beacon id (fst (registerByPortProto beacon ?h0 (beacon_at 53 True))) beacons"
    unfolding beacons_def by (rule t_register, rule prod.collapse [symmetric])
  ultimately have "(table_step beacon id)\<^sup>*\<^sup>* ?h0 beacons"
    by (rule converse_rtranclp_into_rtranclp [OF _ r_into_rtranclp])
  from table_has_one_node_per_key [OF this]
  have "\<forall>i < length (nodes beacons). \<not> nd_IsInvalid beacon (nodes beacons ! i) \<longrightarrow>
      nodeByPortProto beacon beacons (lport (nodes beacons ! i)) (ndProto (nodes beacons ! i)) = Some i"
    by simp
  from spec [OF this, of 1] have "1 < length (nodes beacons) \<longrightarrow> \<not> nd_IsInvalid beacon (nodes beacons ! 1) \<longrightarrow>
      nodeByPortProto beacon beacons (lport (nodes beacons ! 1)) (ndProto (nodes beacons ! 1)) = Some 1" .
  moreover have "1 < length (nodes beacons)" "\<not> nd_IsInvalid beacon (nodes beacons ! 1)"
    "lport (nodes beacons ! 1) = 67" "ndProto (nodes beacons ! 1) = 17" by code_simp+
  ultimately show ?thesis by simp
qed


text \<open>
  The index of the round robin outlives the nodes it points into: after a reset of the table, as
  \<open>StackPorts.Reset\<close> and the other layers do it, or after \<open>compact\<close> has dropped nodes, the next
  \<open>encapsulateAny\<close> reads past the end of the shorter table and panics.
\<close>

lemma reset_leaves_stale_index:
  "do {
     (h, buf, hn, n, err) \<leftarrow> encapsulateAny beacon beacons [] 0 0;
     h \<leftarrow> hs_reset id h 2;
     Some (nodes h, encapsulateAny beacon (fst (registerByPortProto beacon h (beacon_at 53 True))) [] 0 0)
   } = Some ([], None)"
  by code_simp

end
