(* ===== verification/Tcp_Conn.thy ===== *)
theory Tcp_Conn
  imports Tcp_Handler_Tx Ip_Internal Inet_Handlers
begin

text \<open>
  \<open>tcp/conn.go\<close>: the connection that users and the stack share. A goroutine that calls \<open>Write\<close>,
  \<open>Flush\<close>, \<open>Close\<close> or \<open>Read\<close> takes several steps, each of them the body of one critical section of
  the mutex or one atomic operation on \<open>writeLock\<close>; between the steps of one goroutine any other
  goroutine, and the stack through \<open>Demux\<close> and \<open>Encapsulate\<close>, may take steps. Backing off has no
  effect on the state. A point in time is an integer; the zero \<open>time.Time\<close> of an unset deadline
  is \<open>None\<close>. Logging is not modelled.
\<close>

section \<open>The connection\<close>

record 'p Conn =
  cnH :: "'p HandlerP"
  cnRaddr :: bytes
  writeLock :: u64
  rdead :: "int option"
  wdead :: "int option"
  abortErr :: "goerror option"
  cnIpID :: u16

definition cn_reset :: "'p Conn \<Rightarrow> 'p HandlerP \<Rightarrow> 'p Conn" where
  "cn_reset c h = c\<lparr>cnH := h, cnRaddr := [], rdead := None, wdead := None, abortErr := None, cnIpID := 0,
     writeLock := 0\<rparr>"

text \<open>\<open>Configure\<close>; whether there is a backoff strategy is the argument \<open>hasBackoff\<close>.\<close>

definition cn_Configure ::
    "'p Conn \<Rightarrow> bool \<Rightarrow> bytes option \<Rightarrow> bytes option \<Rightarrow> int \<Rightarrow> ('p Policy \<times> 'p) option \<Rightarrow> 'p Conn \<times> goerror option" where
  "cn_Configure c hasBackoff txBuf rxBuf npackets pol =
     (if \<not> hasBackoff then (c, Some (Generic ErrMissingHALConfig))
      else case h_SetBuffers (cnH c) txBuf rxBuf npackets of
        (h, Some err) \<Rightarrow> (c\<lparr>cnH := h\<rparr>, Some err)
      | (h, None) \<Rightarrow> (c\<lparr>cnH := h\<lparr>policy := pol\<rparr>\<rparr>, None))"

text \<open>A \<open>netip.AddrPort\<close>: the bytes of the address and the port, \<open>None\<close> if it is not valid.\<close>

definition cn_OpenActive ::
    "'p Conn \<Rightarrow> u16 \<Rightarrow> (bytes \<times> u16) option \<Rightarrow> Value \<Rightarrow> 'p Conn \<times> goerror option" where
  "cn_OpenActive c port remote iss =
     (case remote of
        None \<Rightarrow> (c, Some (Generic ErrInvalidAddr))
      | Some (raddr, rport) \<Rightarrow>
          (case h_OpenActive (cnH c) port rport iss of
             (h, Some err) \<Rightarrow> (c\<lparr>cnH := h\<rparr>, Some err)
           | (h, None) \<Rightarrow>
               ((cn_reset c h)\<lparr>cnRaddr := (if length raddr = 4 \<or> length raddr = 16 then raddr else [])\<rparr>, None)))"

definition cn_OpenListen :: "'p Conn \<Rightarrow> u16 \<Rightarrow> Value \<Rightarrow> 'p Conn \<times> goerror option" where
  "cn_OpenListen c port iss =
     (case h_OpenListen (cnH c) port iss of
        (h, Some err) \<Rightarrow> (c\<lparr>cnH := h\<rparr>, Some err)
      | (h, None) \<Rightarrow> (cn_reset c h, None))"

definition cn_checkPipeOpen :: "'p Conn \<Rightarrow> goerror option" where
  "cn_checkPipeOpen c =
     (if abortErr c \<noteq> None then abortErr c
      else if IsClosed (h_State (cnH c)) then Some NetClosed else None)"

definition cn_CloseRead :: "'p Conn \<Rightarrow> 'p Conn \<times> goerror option" where
  "cn_CloseRead c =
     (case cn_checkPipeOpen c of
        Some err \<Rightarrow> (c, Some err)
      | None \<Rightarrow> (c\<lparr>cnH := h_ShutdownRead (cnH c)\<rparr>, None))"

definition cn_Abort :: "'p Conn \<Rightarrow> 'p Conn" where
  "cn_Abort c = cn_reset c (h_Abort (cnH c))"

definition cn_setReadDeadline :: "'p Conn \<Rightarrow> int option \<Rightarrow> 'p Conn \<times> goerror option" where
  "cn_setReadDeadline c t = (let err = cn_checkPipeOpen c in (if err = None then c\<lparr>rdead := t\<rparr> else c, err))"

definition cn_setWriteDeadline :: "'p Conn \<Rightarrow> int option \<Rightarrow> 'p Conn \<times> goerror option" where
  "cn_setWriteDeadline c t = (let err = cn_checkPipeOpen c in (if err = None then c\<lparr>wdead := t\<rparr> else c, err))"

definition cn_SetDeadline :: "'p Conn \<Rightarrow> int option \<Rightarrow> 'p Conn \<times> goerror option" where
  "cn_SetDeadline c t =
     (case cn_setReadDeadline c t of
        (c, Some err) \<Rightarrow> (c, Some err)
      | (c, None) \<Rightarrow> cn_setWriteDeadline c t)"

definition cn_deadlineExceeded :: "int \<Rightarrow> int option \<Rightarrow> bool" where
  "cn_deadlineExceeded now deadline \<longleftrightarrow> (case deadline of None \<Rightarrow> False | Some t \<Rightarrow> now - t > 0)"

text \<open>A nil pointer to a deadline and an unset deadline are both \<open>None\<close>.\<close>

definition cn_checkPipe :: "int \<Rightarrow> 'p Conn \<Rightarrow> u64 \<Rightarrow> int option \<Rightarrow> goerror option" where
  "cn_checkPipe now c connID deadline =
     (if abortErr c \<noteq> None then abortErr c
      else if connID \<noteq> connid (cnH c) \<or> IsClosed (h_State (cnH c)) then Some NetClosed
      else if cn_deadlineExceeded now deadline then Some OsDeadlineExceeded else None)"

section \<open>The connection as a node of the stack\<close>

definition cn_Demux :: "'p Conn \<Rightarrow> bytes \<Rightarrow> int \<Rightarrow> ('p Conn \<times> goerror option) option" where
  "cn_Demux c buf off =
     (if off \<ge> int (length buf) then Some (c, Some (Generic ErrTruncatedFrame))
      else do {
        _ \<leftarrow> go_slice buf 0 off;
        (raddr, _, ident, _, err) \<leftarrow> GetIPAddr buf (nat off);
        if err \<noteq> None then Some (c, err)
        else if cnRaddr c \<noteq> [] \<and> cnRaddr c \<noteq> raddr then Some (c, Some (Generic ErrMismatch))
        else do {
          (h, err) \<leftarrow> h_Recv (cnH c) (drop (nat off) buf);
          let c = c\<lparr>cnH := h\<rparr>;
          if err \<noteq> None then Some (c, err)
          else if cnRaddr c = [] \<and> remotePort h \<noteq> 0
          then Some (c\<lparr>cnRaddr := raddr, cnIpID := NOT (ident - 1)\<rparr>, None)
          else Some (c, None)
        }
      })"

definition cn_Encapsulate ::
    "'p Conn \<Rightarrow> bytes \<Rightarrow> int \<Rightarrow> int \<Rightarrow> ('p Conn \<times> bytes \<times> int \<times> goerror option) option" where
  "cn_Encapsulate c carrierData offsetToIP offsetToFrame =
     (if cnRaddr c = [] \<or> offsetToIP < 0 then Some (c, carrierData, 0, Some (TcpErr errNoRemoteAddr))
      else do {
        _ \<leftarrow> go_slice carrierData offsetToIP offsetToFrame;
        (raddr, _, _, _, err) \<leftarrow> GetIPAddr (drop (nat offsetToIP) carrierData) (nat (offsetToFrame - offsetToIP));
        if err \<noteq> None then Some (c, carrierData, 0, err)
        else if length raddr \<noteq> length (cnRaddr c) then Some (c, carrierData, 0, Some (Generic ErrMismatchLen))
        else do {
          (h, frm, n, err) \<leftarrow> h_Send (cnH c) (drop (nat offsetToFrame) carrierData);
          let c = c\<lparr>cnH := h\<rparr>;
          let carrierData = take (nat offsetToFrame) carrierData @ frm;
          if err \<noteq> None \<or> n = 0 then Some (c, carrierData, 0, err)
          else do {
            (ip, err) \<leftarrow> SetIPAddrs (drop (nat offsetToIP) carrierData) (nat (offsetToFrame - offsetToIP))
               (cnIpID c) None (Some (cnRaddr c));
            let carrierData = take (nat offsetToIP) carrierData @ ip;
            if err \<noteq> None then Some (c, carrierData, 0, err)
            else Some (c\<lparr>cnIpID := cnIpID c + 1\<rparr>, carrierData, n, None)
          }
        }
      })"

definition cn_node :: "'p Conn StackNode" where
  "cn_node = \<lparr>ifProtocol = (\<lambda>_. 6), ifLocalPort = (\<lambda>c. localPort (cnH c)),
     ifConnID = (\<lambda>c. Some (connid (cnH c))), ifEncapsulate = cn_Encapsulate, ifDemux = cn_Demux\<rparr>"

section \<open>Goroutines\<close>

text \<open>
  Where a goroutine is in \<open>Write\<close>, \<open>Flush\<close> or \<open>Close\<close>. All three first acquire the write lock
  (\<open>AtStart\<close>, \<open>AtCheck\<close>, \<open>AtCas\<close>) and in the end release it (\<open>AtRelease\<close>).
\<close>

datatype call = CallWrite bytes | CallFlush | CallClose

datatype place =
    AtStart | AtCheck | AtCas
  | AtDeadline | AtLoop | AtWrite | AtFull
  | AtFlush | AtFlushCheck
  | AtClose
  | AtRelease | AtReturn

record goroutine =
  gCall :: call
  gAt :: place
  gConnID :: u64
  gLeft :: bytes
  gN :: nat
  gErr :: "goerror option"

definition go_start :: "call \<Rightarrow> goroutine" where
  "go_start cl = \<lparr>gCall = cl, gAt = AtStart, gConnID = 0, gLeft = (case cl of CallWrite b \<Rightarrow> b | _ \<Rightarrow> []),
     gN = 0, gErr = None\<rparr>"

text \<open>\<open>acquireWriteLock\<close> and \<open>releaseWriteLock\<close>; \<open>Close\<close> acquires without a deadline.\<close>

definition acquire_step :: "int \<Rightarrow> 'p Conn \<Rightarrow> goroutine \<Rightarrow> 'p Conn \<times> goroutine" where
  "acquire_step now c g =
     (case gAt g of
        AtStart \<Rightarrow> (c, g\<lparr>gConnID := connid (cnH c), gAt := AtCheck\<rparr>)
      | AtCheck \<Rightarrow>
          (case cn_checkPipe now c (gConnID g) (if gCall g = CallClose then None else wdead c) of
             Some err \<Rightarrow> (c, g\<lparr>gErr := Some err, gAt := AtReturn\<rparr>)
           | None \<Rightarrow> (c, g\<lparr>gAt := AtCas\<rparr>))
      | AtCas \<Rightarrow>
          (if writeLock c = 0
           then (c\<lparr>writeLock := gConnID g\<rparr>,
                 g\<lparr>gAt := (case gCall g of CallWrite _ \<Rightarrow> AtDeadline | CallFlush \<Rightarrow> AtFlush | CallClose \<Rightarrow> AtClose)\<rparr>)
           else (c, g\<lparr>gAt := AtCheck\<rparr>))
      | AtRelease \<Rightarrow>
          (c\<lparr>writeLock := (if writeLock c = gConnID g then 0 else writeLock c)\<rparr>, g\<lparr>gAt := AtReturn\<rparr>)
      | _ \<Rightarrow> (c, g))"

text \<open>
  The loop of \<open>Write\<close>. The bytes are handed to the handler in the critical section after the one
  that checked the connection. \<open>None\<close> is the panic on a short write.
\<close>

definition write_step :: "int \<Rightarrow> 'p Conn \<Rightarrow> goroutine \<Rightarrow> ('p Conn \<times> goroutine) option" where
  "write_step now c g =
     (case gAt g of
        AtDeadline \<Rightarrow>
          Some (if cn_deadlineExceeded now (wdead c) then (c, g\<lparr>gErr := Some OsDeadlineExceeded, gAt := AtRelease\<rparr>)
                else if gLeft g = [] then (c, g\<lparr>gAt := AtRelease\<rparr>)
                else (c, g\<lparr>gAt := AtLoop\<rparr>))
      | AtLoop \<Rightarrow>
          Some (if gLeft g = [] then (c, g\<lparr>gAt := AtRelease\<rparr>)
                else case cn_checkPipe now c (gConnID g) (wdead c) of
                  Some err \<Rightarrow> (c, g\<lparr>gErr := Some err, gAt := AtRelease\<rparr>)
                | None \<Rightarrow> (c, g\<lparr>gAt := AtWrite\<rparr>))
      | AtWrite \<Rightarrow>
          (let towrite = min (tx_Free (bufTx (cnH c))) (int (length (gLeft g))) in
           if towrite > 0 then do {
             (h, ngot, err) \<leftarrow> h_Write (cnH c) (take (nat towrite) (gLeft g));
             let c = c\<lparr>cnH := h\<rparr>;
             let g = g\<lparr>gErr := err\<rparr>;
             if err \<noteq> None \<and> err \<noteq> Some (Generic ErrBufferFull) then Some (c, g\<lparr>gAt := AtRelease\<rparr>)
             else if ngot \<noteq> towrite then None
             else Some (c, g\<lparr>gN := gN g + nat ngot, gLeft := drop (nat ngot) (gLeft g), gAt := AtLoop\<rparr>)
           }
           else Some (c, g\<lparr>gAt := AtFull\<rparr>))
      | AtFull \<Rightarrow>
          Some (if cn_deadlineExceeded now (wdead c) then (c, g\<lparr>gErr := Some OsDeadlineExceeded, gAt := AtRelease\<rparr>)
                else (c, g\<lparr>gAt := AtLoop\<rparr>))
      | _ \<Rightarrow> Some (c, g))"

definition flush_step :: "int \<Rightarrow> 'p Conn \<Rightarrow> goroutine \<Rightarrow> 'p Conn \<times> goroutine" where
  "flush_step now c g =
     (case gAt g of
        AtFlush \<Rightarrow> (c, g\<lparr>gAt := (if BufferedUnsent (bufTx (cnH c)) \<noteq> 0 then AtFlushCheck else AtRelease)\<rparr>)
      | AtFlushCheck \<Rightarrow>
          (case cn_checkPipe now c (gConnID g) (wdead c) of
             Some err \<Rightarrow> (c, g\<lparr>gErr := Some err, gAt := AtRelease\<rparr>)
           | None \<Rightarrow> (c, g\<lparr>gAt := AtFlush\<rparr>))
      | _ \<Rightarrow> (c, g))"

definition close_step :: "'p Conn \<Rightarrow> goroutine \<Rightarrow> 'p Conn \<times> goroutine" where
  "close_step c g =
     (case h_Close (cnH c) of (h, err) \<Rightarrow> (c\<lparr>cnH := h\<rparr>, g\<lparr>gErr := err, gAt := AtRelease\<rparr>))"

definition go_step :: "int \<Rightarrow> 'p Conn \<Rightarrow> goroutine \<Rightarrow> ('p Conn \<times> goroutine) option" where
  "go_step now c g =
     (if gAt g \<in> {AtStart, AtCheck, AtCas, AtRelease} then Some (acquire_step now c g)
      else if gAt g \<in> {AtDeadline, AtLoop, AtWrite, AtFull} then write_step now c g
      else if gAt g \<in> {AtFlush, AtFlushCheck} then Some (flush_step now c g)
      else if gAt g = AtClose then Some (close_step c g)
      else Some (c, g))"

text \<open>
  One turn of the loop of \<open>Read\<close> into \<open>k\<close> bytes, of which \<open>n\<close> have been read: \<open>Inl\<close> to go on,
  \<open>Inr\<close> to return.
\<close>

definition read_step ::
    "int \<Rightarrow> 'p Conn \<Rightarrow> u64 \<Rightarrow> nat \<Rightarrow> nat \<Rightarrow> ('p Conn \<times> bytes \<times> (unit + goerror option)) option" where
  "read_step now c connID k n =
     (if k = 0 then Some (c, [], Inr None)
      else if connID \<noteq> connid (cnH c) then Some (c, [], Inr (Some NetClosed))
      else if ring_Buffered (bufRx (cnH c)) > 0 then do {
        (h, b, err) \<leftarrow> h_Read (cnH c) k;
        Some (c\<lparr>cnH := h\<rparr>, b, if err \<noteq> None then Inr err else Inl ())
      }
      else if n > 0 then Some (c, [], Inr None)
      else if IsClosed (h_State (cnH c)) then Some (c, [], Inr (Some NetClosed))
      else if \<not> RxDataOpen (h_State (cnH c)) \<or> shutdownRx (cnH c) then Some (c, [], Inr (Some IoEOF))
      else if cn_deadlineExceeded now (rdead c) then Some (c, [], Inr (Some OsDeadlineExceeded))
      else Some (c, [], Inl ()))"

end
