(* ===== verification/Lneto_Crc.thy ===== *)
theory Lneto_Crc
  imports Go_Binary
begin

text \<open>
  \<open>crc.go\<close>: the Internet checksum of RFC 791. The running sum is a 32-bit word that is folded
  to 16 bits at the end; the reference is the one's complement sum with end-around carry.
\<close>

section \<open>Model\<close>

record CRC791 =
  crcSum :: u32

definition sum16 :: "u32 \<Rightarrow> u16" where
  "sum16 s =
     (let s = (s AND 0xffff) + drop_bit 16 s in NOT (ucast (s + drop_bit 16 s)))"

text \<open>\<open>binary.BigEndian.Uint16\<close> of a slice of one byte panics.\<close>

fun sumWriteEven :: "u32 \<Rightarrow> bytes \<Rightarrow> u32 option" where
  "sumWriteEven s [] = Some s"
| "sumWriteEven s [b] = None"
| "sumWriteEven s (a # b # buff) = sumWriteEven (s + ucast (be_dec [a, b] :: u16)) buff"

definition crc_WriteEven :: "CRC791 \<Rightarrow> bytes \<Rightarrow> CRC791 option" where
  "crc_WriteEven c buff = map_option CRC791.make (sumWriteEven (crcSum c) buff)"

definition crc_AddUint16 :: "CRC791 \<Rightarrow> u16 \<Rightarrow> CRC791" where
  "crc_AddUint16 c v = c\<lparr>crcSum := crcSum c + ucast v\<rparr>"

definition crc_AddUint32 :: "CRC791 \<Rightarrow> u32 \<Rightarrow> CRC791" where
  "crc_AddUint32 c v = crc_AddUint16 (crc_AddUint16 c (ucast (drop_bit 16 v))) (ucast v)"

definition crc_Sum16 :: "CRC791 \<Rightarrow> u16" where
  "crc_Sum16 c = sum16 (crcSum c)"

definition crc_PayloadSum16 :: "CRC791 \<Rightarrow> bytes \<Rightarrow> u16 option" where
  "crc_PayloadSum16 c buff = do {
     let odd = length buff mod 2;
     s \<leftarrow> sumWriteEven (crcSum c) (take (length buff - odd) buff);
     let s = (if odd > 0 then s + push_bit 8 (ucast (last buff)) else s);
     Some (sum16 s)
   }"

definition crc_Reset :: CRC791 where
  "crc_Reset = \<lparr>crcSum = 0\<rparr>"

definition NeverZeroSum :: "u16 \<Rightarrow> u16" where
  "NeverZeroSum s = (if s = 0 then 0xffff else s)"

section \<open>The reference: one's complement addition\<close>

definition oc_add :: "u16 \<Rightarrow> u16 \<Rightarrow> u16" where
  "oc_add a b = (if a + b < a then a + b + 1 else a + b)"

definition oc_sum :: "u16 list \<Rightarrow> u16" where
  "oc_sum ws = foldl oc_add 0 ws"

text \<open>The 16-bit words of a buffer, the last one padded with a zero octet.\<close>

fun words16 :: "bytes \<Rightarrow> u16 list" where
  "words16 [] = []"
| "words16 [b] = [be_dec [b, 0]]"
| "words16 (a # b # bs) = be_dec [a, b] # words16 bs"

text \<open>
  What both sides compute: a number modulo \<open>65535\<close> in which a sum that is not zero never
  becomes zero.
\<close>

definition fold16 :: "nat \<Rightarrow> nat" where
  "fold16 n = (if n = 0 then 0 else (n - 1) mod 65535 + 1)"

lemma fold16_le: "fold16 n \<le> 65535"
  using mod_less_divisor [of 65535 "n - 1"] by (auto simp: fold16_def less_Suc_eq_le simp del: mod_less_divisor)

lemma fold16_small: "n \<le> 65535 \<Longrightarrow> fold16 n = n"
  by (simp add: fold16_def)

lemma fold16_wrap: "65536 \<le> n \<Longrightarrow> n \<le> 131070 \<Longrightarrow> fold16 n = n - 65535"
  by (cases n) (simp_all add: fold16_def le_mod_geq)

lemma fold16_cong:
  assumes "a mod 65535 = b mod 65535" "a = 0 \<longleftrightarrow> b = 0"
  shows "fold16 a = fold16 b"
proof (cases a)
  case (Suc a')
  then obtain b' where b: "b = Suc b'" using assms(2) by (cases b) auto
  have "int a' mod 65535 = int b' mod 65535"
  proof -
    have "(int a' + 1) mod 65535 = (int b' + 1) mod 65535"
      using assms(1) Suc b by (metis of_nat_Suc zmod_int of_nat_numeral add.commute)
    then have "(int a' + 1 - 1) mod 65535 = (int b' + 1 - 1) mod 65535"
      by (rule mod_diff_cong) simp
    then show ?thesis by simp
  qed
  then have "a' mod 65535 = b' mod 65535" by (metis of_nat_eq_iff zmod_int of_nat_numeral)
  then show ?thesis using Suc b by (simp add: fold16_def)
qed (use assms in simp)

lemma fold16_mod: "fold16 n mod 65535 = n mod 65535"
  by (cases n) (auto simp: fold16_def mod_Suc_eq)

lemma fold16_0_iff [simp]: "fold16 n = 0 \<longleftrightarrow> n = 0"
  by (simp add: fold16_def)

lemma fold16_add: "fold16 (fold16 a + b) = fold16 (a + b)"
  by (rule fold16_cong) (auto simp: mod_add_left_eq [symmetric, of "fold16 a"] fold16_mod mod_add_left_eq)

lemma fold16_full: "0 < n \<Longrightarrow> n mod 65535 = 0 \<Longrightarrow> fold16 n = 65535"
  using fold16_cong [of n 65535] by (simp add: fold16_def)

lemma fold16_complement: "fold16 (n + (65535 - fold16 n)) = 65535"
proof (rule fold16_full)
  have "(fold16 n + (65535 - fold16 n)) mod 65535 = 0" using fold16_le [of n] by simp
  then show "(n + (65535 - fold16 n)) mod 65535 = 0"
    by (metis fold16_mod mod_add_left_eq)
qed (cases "n = 0"; simp add: fold16_def)

lemma unat_width:
  "unat (a :: u8) < 256" "unat (b :: u16) < 65536" "unat (b :: u16) \<le> 65535"
  "unat (c :: u32) < 4294967296"
proof -
  show "unat a < 256" "unat b < 65536" "unat c < 4294967296"
    using unsigned_less [of a] unsigned_less [of b] unsigned_less [of c] by simp_all
  then show "unat b \<le> 65535" by simp
qed

section \<open>Both compute \<open>fold16\<close>\<close>

lemma unat_oc_add: "unat (oc_add a b) = fold16 (unat a + unat b)"
proof (cases "unat a + unat b < 65536")
  case True
  then have "unat (a + b) = unat a + unat b" by (simp add: unat_word_ariths)
  then have "oc_add a b = a + b" "unat (a + b) = unat a + unat b"
    by (simp_all add: oc_add_def word_less_nat_alt)
  then show ?thesis using True by (simp add: fold16_small)
next
  case False
  have lt: "unat a < 65536" "unat b < 65536" using unat_width(2) [of a] unat_width(2) [of b] by simp_all
  have s: "unat (a + b) = unat a + unat b - 65536"
    using False lt by (simp add: unat_word_ariths mod_if)
  then have "unat (a + b) < unat a" using lt False by linarith
  moreover have "unat (a + b + 1) = unat a + unat b - 65535"
    using s lt False by (simp add: unat_word_ariths mod_if) linarith
  ultimately have "unat (oc_add a b) = unat a + unat b - 65535"
    by (simp add: oc_add_def word_less_nat_alt)
  then show ?thesis using fold16_wrap lt False by simp
qed

lemma unat_oc_foldl: "unat (foldl oc_add a ws) = fold16 (unat a + sum_list (map unat ws))"
proof (induction ws arbitrary: a)
  case Nil
  then show ?case using unat_width(2) [of a] by (simp add: fold16_small)
next
  case (Cons w ws)
  then show ?case by (simp add: unat_oc_add fold16_add add.assoc)
qed

lemma unat_oc_sum: "unat (oc_sum ws) = fold16 (sum_list (map unat ws))"
  by (simp add: oc_sum_def unat_oc_foldl)

lemma unat_NOT16: "unat (NOT w :: u16) = 65535 - unat w"
proof -
  have "NOT w = 0xffff - w" by (simp add: not_eq_complement)
  moreover have "w \<le> 0xffff" using unat_width(3) [of w] by (simp add: word_le_nat_alt)
  ultimately show ?thesis by (simp add: unat_sub)
qed

lemma unat_sum16: "unat (sum16 s) = 65535 - fold16 (unat s)"
proof -
  define lo hi where "lo = unat s mod 65536" and "hi = unat s div 65536"
  have s: "unat s = 65536 * hi + lo" "lo < 65536" by (simp_all add: lo_def hi_def)
  have hi: "hi < 65536" using unat_width(4) [of s] by (simp add: hi_def)
  have and_lo: "unat (s AND 0xffff) = lo"
  proof -
    have "s AND 0xffff = take_bit 16 s" by (simp add: take_bit_eq_mask mask_eq_exp_minus_1)
    then have "unat (s AND 0xffff) = take_bit 16 (unat s)" by (simp only: unsigned_take_bit_eq)
    then show ?thesis by (simp add: take_bit_eq_mod lo_def)
  qed
  have dr: "unat (drop_bit 16 x) = unat x div 65536" for x :: u32
    using unat_drop_bit_eq [of 16 x] by (simp add: drop_bit_eq_div)
  define t where "t = (s AND 0xffff) + drop_bit 16 s"
  have t: "unat t = lo + hi" using s(2) hi by (simp add: t_def unat_word_ariths and_lo dr hi_def)
  then have u: "unat (t + drop_bit 16 t) = lo + hi + (lo + hi) div 65536"
    using s(2) hi by (simp add: unat_word_ariths dr)
  have "unat (ucast (t + drop_bit 16 t) :: u16) = (lo + hi + (lo + hi) div 65536) mod 65536"
    by (simp add: unsigned_ucast_eq u take_bit_eq_mod)
  also have "\<dots> = fold16 (lo + hi)"
  proof (cases "lo + hi < 65536")
    case False
    then have "(lo + hi) div 65536 = 1" using s(2) hi by (simp add: div_nat_eqI)
    then show ?thesis using False s(2) hi fold16_wrap [of "lo + hi"] by (simp add: mod_if)
  qed (simp add: fold16_small)
  also have "\<dots> = fold16 (unat s)"
  proof (rule fold16_cong)
    have "65536 * hi + lo = (lo + hi) + 65535 * hi" by simp
    then show "(lo + hi) mod 65535 = unat s mod 65535" using s(1) by (metis mod_mult_self2)
  qed (auto simp: s)
  finally have "unat (ucast (t + drop_bit 16 t) :: u16) = fold16 (unat s)" .
  then show ?thesis by (simp add: sum16_def Let_def t_def [symmetric] unat_NOT16)
qed

section \<open>Buffers\<close>

text \<open>The running sum \<open>c\<close> has absorbed exactly the words \<open>ws\<close>.\<close>

abbreviation wsum :: "u16 list \<Rightarrow> nat" where
  "wsum ws \<equiv> sum_list (map unat ws)"

definition crc_holds :: "CRC791 \<Rightarrow> u16 list \<Rightarrow> bool" where
  "crc_holds c ws \<longleftrightarrow> crcSum c = of_nat (wsum ws)"

lemma wsum_le: "wsum ws \<le> 65535 * length ws"
proof (induction ws)
  case (Cons w ws)
  then show ?case using unat_width(3) [of w] by simp
qed simp

lemma length_words16: "length (words16 bs) = (length bs + 1) div 2"
  by (induction bs rule: words16.induct) simp_all

lemma of_nat_unat_ucast: "of_nat (unat (w :: u16)) = (ucast w :: u32)"
  by (simp add: unsigned_ucast_eq)

lemma sumWriteEven_words:
  "even (length bs) \<Longrightarrow> sumWriteEven s bs = Some (s + of_nat (wsum (words16 bs)))"
  by (induction s bs rule: sumWriteEven.induct) (simp_all add: of_nat_unat_ucast add.assoc)

lemma sumWriteEven_odd: "odd (length bs) \<Longrightarrow> sumWriteEven s bs = None"
  by (induction s bs rule: sumWriteEven.induct) simp_all

lemma words16_append: "even (length xs) \<Longrightarrow> words16 (xs @ ys) = words16 xs @ words16 ys"
  by (induction xs rule: words16.induct) simp_all

lemma octet_high: "ucast (be_dec [b, 0] :: u16) = (push_bit 8 (ucast b) :: u32)"
proof (rule bit_word_eqI)
  fix n assume "n < LENGTH(32)"
  then show "bit (ucast (be_dec [b, 0] :: u16) :: u32) n \<longleftrightarrow> bit (push_bit 8 (ucast b) :: u32) n"
    using bit_u8 [of b "n - 8"] by (auto simp: be_dec_def bit_simps)
qed

lemma crc_PayloadSum16_words:
  "crc_PayloadSum16 c buff = Some (sum16 (crcSum c + of_nat (wsum (words16 buff))))"
proof (cases "even (length buff)")
  case True
  then show ?thesis by (simp add: crc_PayloadSum16_def sumWriteEven_words even_iff_mod_2_eq_zero)
next
  case False
  then obtain bs b where b: "buff = bs @ [b]" "even (length bs)" by (cases buff rule: rev_cases) auto
  moreover have "length buff mod 2 = 1" using False by presburger
  ultimately show ?thesis
    using b by (simp add: crc_PayloadSum16_def sumWriteEven_words words16_append of_nat_unat_ucast
        octet_high add.assoc)
qed

lemma crc_holds_simps:
  "crc_holds crc_Reset []"
  "crc_holds c ws \<Longrightarrow> crc_holds (crc_AddUint16 c v) (ws @ [v])"
  "crc_holds c ws \<Longrightarrow> crc_holds (crc_AddUint32 c u) (ws @ [ucast (drop_bit 16 u), ucast u])"
  by (simp_all add: crc_holds_def crc_Reset_def crc_AddUint16_def crc_AddUint32_def of_nat_unat_ucast
      add.assoc)

lemma crc_WriteEven_holds:
  assumes "crc_holds c ws" "even (length buff)"
  obtains c' where "crc_WriteEven c buff = Some c'" "crc_holds c' (ws @ words16 buff)"
  using assms that [of "CRC791.make (crcSum c + of_nat (wsum (words16 buff)))"]
  by (simp add: crc_WriteEven_def sumWriteEven_words crc_holds_def CRC791.defs)

lemma unat_of_wsum: "length ws \<le> 65537 \<Longrightarrow> unat (of_nat (wsum ws) :: u32) = wsum ws"
  using wsum_le [of ws] by (simp add: unat_of_nat)

lemma unat_crc_sum:
  assumes "crc_holds c ws" "length ws + (length buff + 1) div 2 \<le> 65537"
  shows "\<exists>r. crc_PayloadSum16 c buff = Some r \<and> unat r = 65535 - fold16 (wsum (ws @ words16 buff))"
proof -
  have "crcSum c + of_nat (wsum (words16 buff)) = of_nat (wsum (ws @ words16 buff))"
    using assms(1) by (simp add: crc_holds_def)
  then show ?thesis
    using assms(2) unat_of_wsum [of "ws @ words16 buff"]
    by (simp add: crc_PayloadSum16_words unat_sum16 length_words16)
qed

lemma unat_crc_Sum16:
  assumes "crc_holds c ws" "length ws \<le> 65537"
  shows "unat (crc_Sum16 c) = 65535 - fold16 (wsum ws)"
  using assms unat_of_wsum [of ws] by (simp add: crc_Sum16_def crc_holds_def unat_sum16)

text \<open>
  C24. The checksum is the one of RFC 791 and RFC 1071: with \<open>ws\<close> absorbed before, the result of
  \<open>PayloadSum16\<close> on a buffer is the complement of the one's complement sum, with end-around
  carry, of those words and the words of the buffer, an odd last octet padded with zero. The
  32-bit accumulator is enough for 65537 words, more than an IP packet and its pseudo header
  have.
\<close>

theorem crc_is_ones_complement_sum:
  assumes "crc_holds c ws" "length ws + (length buff + 1) div 2 \<le> 65537"
  shows "crc_PayloadSum16 c buff = Some (NOT (oc_sum (ws @ words16 buff)))"
proof -
  obtain r where "crc_PayloadSum16 c buff = Some r" "unat r = 65535 - fold16 (wsum (ws @ words16 buff))"
    using unat_crc_sum [OF assms] by blast
  moreover from this(2) have "r = NOT (oc_sum (ws @ words16 buff))"
    by (simp only: word_unat_eq_iff unat_NOT16 unat_oc_sum)
  ultimately show ?thesis by simp
qed

theorem crc_is_ones_complement_sum_witness:
  "crc_PayloadSum16 (crc_AddUint16 crc_Reset 0xffff) [0x45, 0, 0x12] = Some 0xa8ff"
proof -
  have "crc_PayloadSum16 (crc_AddUint16 crc_Reset 0xffff) [0x45, 0, 0x12] =
      Some (NOT (oc_sum ([0xffff] @ words16 [0x45, 0, 0x12])))"
    using crc_holds_simps(2) [OF crc_holds_simps(1), where v = "0xffff"]
    by (intro crc_is_ones_complement_sum) simp_all
  also have "NOT (oc_sum ([0xffff] @ words16 [0x45, 0, 0x12])) = 0xa8ff" by code_simp
  finally show ?thesis .
qed

section \<open>Verifying a checksum\<close>

text \<open>The checksum makes the sum of everything come out as zero.\<close>

lemma sum16_zero_iff: "unat r = 65535 - fold16 n \<Longrightarrow> r = (0 :: u16) \<longleftrightarrow> fold16 n = 65535"
  using fold16_le [of n] by (auto simp: unat_eq_0 [symmetric])

lemma checksum_closes:
  assumes "unat r = 65535 - fold16 (wsum ws)"
  shows "fold16 (wsum (ws @ [r])) = 65535" "fold16 (wsum (ws @ [NeverZeroSum r])) = 65535"
proof -
  show c: "fold16 (wsum (ws @ [r])) = 65535" using assms fold16_complement by simp
  show "fold16 (wsum (ws @ [NeverZeroSum r])) = 65535"
  proof (cases "r = 0")
    case True
    then have "fold16 (wsum ws) = 65535" using assms fold16_le [of "wsum ws"] by simp
    then have "wsum ws mod 65535 = 0" using fold16_mod [of "wsum ws"] by simp
    then show ?thesis using True by (intro fold16_full) (simp_all add: NeverZeroSum_def)
  qed (use c in \<open>simp add: NeverZeroSum_def\<close>)
qed

text \<open>One changed word is noticed, unless it swaps the two representations of zero.\<close>

lemma one_word_detected:
  assumes "fold16 (wsum ws) = 65535" "fold16 (wsum (ws[i := w])) = 65535" "i < length ws" "w \<noteq> ws ! i"
  shows "{w, ws ! i} = {0, 0xffff}"
proof -
  have sp: "wsum (ws[i := x]) = wsum (take i ws) + unat x + wsum (drop (Suc i) ws)" for x
    using assms(3) by (simp add: upd_conv_take_nth_drop)
  let ?r = "wsum (take i ws) + wsum (drop (Suc i) ws)"
  have "wsum ws = wsum (ws[i := ws ! i])" by simp
  then have "wsum ws = ?r + unat (ws ! i)" using sp [of "ws ! i"] by simp
  moreover have "wsum (ws[i := w]) = ?r + unat w" using sp [of w] by simp
  moreover have "wsum ws mod 65535 = wsum (ws[i := w]) mod 65535"
    using assms(1,2) fold16_mod [of "wsum ws"] fold16_mod [of "wsum (ws[i := w])"] by simp
  ultimately have "unat (ws ! i) mod 65535 = unat w mod 65535" by (simp add: nat_mod_eq_iff) 
  moreover have "unat w \<noteq> unat (ws ! i)" using assms(4) by (simp only: word_unat_eq_iff not_False_eq_True)
  ultimately have "(unat w = 0 \<and> unat (ws ! i) = 65535) \<or> (unat w = 65535 \<and> unat (ws ! i) = 0)"
    using unat_width(3) [of w] unat_width(3) [of "ws ! i"] by (auto simp: mod_if split: if_splits)
  moreover have "x = 0xffff" if "unat x = 65535" for x :: u16
    using that by (simp add: word_unat_eq_iff)
  ultimately show ?thesis by (auto simp: unat_eq_0)
qed

section \<open>A checksum field inside the buffer\<close>

lemma words16_patch:
  assumes "even k" "k + 2 \<le> length P"
  shows "words16 (patch k (be_enc 2 w) P) = (words16 P)[k div 2 := w]"
proof -
  obtain x y where xy: "drop k P = x # y # drop (k + 2) P"
    using assms(2) by (metis Cons_nth_drop_Suc Suc_leD Suc_le_lessD add_2_eq_Suc' )
  obtain a b where ab: "be_enc 2 w = [a, b]" by (simp add: numeral_2_eq_2)
  have P: "P = take k P @ x # y # drop (k + 2) P" using xy by (metis append_take_drop_id)
  have len: "length (words16 (take k P)) = k div 2" using assms by (simp add: length_words16)
  have "words16 P = words16 (take k P) @ be_dec [x, y] # words16 (drop (k + 2) P)"
    using P words16_append [of "take k P" "x # y # drop (k + 2) P"] assms by simp
  moreover have "words16 (patch k (be_enc 2 w) P) = words16 (take k P) @ be_dec [a, b] # words16 (drop (k + 2) P)"
    using words16_append [of "take k P" "a # b # drop (k + 2) P"] assms ab by (simp add: patch_def)
  moreover have "be_dec [a, b] = w" using be_dec_enc_full [of 2 w] ab by simp
  ultimately show ?thesis using len by (simp add: list_update_append)
qed

lemma wsum_field:
  assumes "i < length ws"
  shows "wsum (ws[i := w]) + unat (ws ! i) = wsum ws + unat w"
proof -
  have "wsum ws = wsum (ws[i := ws ! i])" by simp
  also have "\<dots> = wsum (take i ws) + unat (ws ! i) + wsum (drop (Suc i) ws)"
    using assms by (subst upd_conv_take_nth_drop) simp_all
  finally show ?thesis using assms by (simp add: upd_conv_take_nth_drop)
qed

text \<open>
  A checksum computed with its field zeroed and then stored in it, as it is or kept from being
  zero, makes the checksum of the whole come out as zero.
\<close>

lemma checksum_field_verifies:
  assumes "crc_holds c ws" "even k" "k + 2 \<le> length P" "length ws + (length P + 1) div 2 \<le> 65537"
    and "crc_PayloadSum16 c (patch k (be_enc 2 (0 :: u16)) P) = Some r" "r' = r \<or> r' = NeverZeroSum r"
  shows "crc_PayloadSum16 c (patch k (be_enc 2 r') P) = Some 0"
proof -
  let ?W = "words16 P" and ?i = "k div 2"
  have i: "?i < length ?W" using assms(2,3) by (auto simp: length_words16)
  have w: "words16 (patch k (be_enc 2 v) P) = ?W[?i := v]" for v
    using words16_patch assms(2,3) by blast
  have "unat r = 65535 - fold16 (wsum (ws @ ?W[?i := 0]))"
    using unat_crc_sum [OF assms(1), of "patch k (be_enc 2 (0 :: u16)) P"] assms(3-5) by (auto simp: w)
  then have "fold16 (wsum ((ws @ ?W[?i := 0]) @ [r'])) = 65535"
    using checksum_closes assms(6) by blast
  moreover have "wsum ((ws @ ?W[?i := 0]) @ [r']) = wsum (ws @ ?W[?i := r'])"
    using wsum_field [of ?i "?W[?i := 0]" r'] i by simp
  ultimately have "fold16 (wsum (ws @ ?W[?i := r'])) = 65535" by simp
  then show ?thesis
    using unat_crc_sum [OF assms(1), of "patch k (be_enc 2 r') P"] assms(3,4) by (auto simp: w unat_eq_0)
qed

lemma crc_WriteEven_PayloadSum16:
  "even (length buff) \<Longrightarrow> map_option crc_Sum16 (crc_WriteEven c buff) = crc_PayloadSum16 c buff"
  by (simp add: crc_WriteEven_def sumWriteEven_words crc_PayloadSum16_words crc_Sum16_def CRC791.defs)

end
