(* ===== verification/Net_Frames.thy ===== *)
theory Net_Frames
  imports Lneto_Crc Validation
begin

text \<open>
  The link, network and datagram headers as views of byte buffers: \<open>ethernet/frame.go\<close>,
  \<open>ethernet/definitions.go\<close>, \<open>ipv4/frame.go\<close>, \<open>ipv4/definitions.go\<close>, \<open>ipv6/frame.go\<close> and
  \<open>udp/frame.go\<close>. A frame is its buffer, a setter returns the changed buffer, and \<open>None\<close> is a
  panic. A Go array pointer into the buffer is read with \<open>get_bytes\<close> and assigned with
  \<open>put_bytes\<close> at its place.
\<close>

section \<open>Ethernet\<close>

type_synonym EtherType = u16

definition TypeIPv4 :: EtherType where "TypeIPv4 = 0x0800"
definition TypeARP :: EtherType where "TypeARP = 0x0806"
definition TypeIPv6 :: EtherType where "TypeIPv6 = 0x86DD"
definition TypeVLAN :: EtherType where "TypeVLAN = 0x8100"

definition eth_IsSize :: "EtherType \<Rightarrow> bool" where
  "eth_IsSize et \<longleftrightarrow> et \<le> 1500"

definition eth_BroadcastAddr :: bytes where
  "eth_BroadcastAddr = replicate 6 0xff"

definition MulticastAddrFrom4 :: "bytes \<Rightarrow> bytes \<times> bool" where
  "MulticastAddrFrom4 ip =
     (if ip ! 0 AND 0xf0 \<noteq> 0xe0 then (replicate 6 0, False)
      else ([0x01, 0x00, 0x5e, ip ! 1 AND 0x7f, ip ! 2, ip ! 3], True))"

definition eth_NewFrame :: "bytes \<Rightarrow> bytes \<times> goerror option" where
  "eth_NewFrame buf =
     (if length buf < 14 then ([], Some (Generic ErrTruncatedFrame)) else (buf, None))"

definition eth_EtherTypeOrSize :: "bytes \<Rightarrow> EtherType option" where
  "eth_EtherTypeOrSize frm = get16 frm 12"

definition eth_SetEtherType :: "bytes \<Rightarrow> EtherType \<Rightarrow> bytes option" where
  "eth_SetEtherType frm v = put16 frm 12 v"

definition eth_IsVLAN :: "bytes \<Rightarrow> bool option" where
  "eth_IsVLAN frm = do { et \<leftarrow> eth_EtherTypeOrSize frm; Some (et = TypeVLAN) }"

definition eth_HeaderLength :: "bytes \<Rightarrow> int option" where
  "eth_HeaderLength frm = do { vlan \<leftarrow> eth_IsVLAN frm; Some (if vlan then 18 else 14) }"

definition eth_Payload :: "bytes \<Rightarrow> bytes option" where
  "eth_Payload frm = do {
     hl \<leftarrow> eth_HeaderLength frm;
     et \<leftarrow> eth_EtherTypeOrSize frm;
     if eth_IsSize et then go_slice frm hl (hl + uint et) else go_slice frm hl (int (length frm))
   }"

definition eth_DestinationHardwareAddr :: "bytes \<Rightarrow> bytes option" where
  "eth_DestinationHardwareAddr frm = get_bytes 6 frm 0"

definition eth_SourceHardwareAddr :: "bytes \<Rightarrow> bytes option" where
  "eth_SourceHardwareAddr frm = get_bytes 6 frm 6"

definition eth_IsBroadcast :: "bytes \<Rightarrow> bool option" where
  "eth_IsBroadcast frm = do {
     a \<leftarrow> get8 frm 0; b \<leftarrow> get8 frm 1; c \<leftarrow> get8 frm 2; d \<leftarrow> get8 frm 3; e \<leftarrow> get8 frm 4; f \<leftarrow> get8 frm 5;
     Some (a = 0xff \<and> b = 0xff \<and> c = 0xff \<and> d = 0xff \<and> e = 0xff \<and> f = 0xff)
   }"

definition eth_SetVLAN :: "bytes \<Rightarrow> u16 \<Rightarrow> EtherType \<Rightarrow> bytes option" where
  "eth_SetVLAN frm tag vlanType = do {
     frm \<leftarrow> eth_SetEtherType frm TypeVLAN;
     frm \<leftarrow> put16 frm 14 tag;
     put16 frm 16 vlanType
   }"

definition eth_VLAN :: "bytes \<Rightarrow> (u16 \<times> EtherType) option" where
  "eth_VLAN frm = do { vt \<leftarrow> get16 frm 14; et \<leftarrow> get16 frm 16; Some (vt, et) }"

definition eth_ClearHeader :: "bytes \<Rightarrow> bytes option" where
  "eth_ClearHeader frm = put_bytes frm 0 (replicate 14 0)"

definition eth_ValidateSize :: "bytes \<Rightarrow> Validator \<Rightarrow> Validator option" where
  "eth_ValidateSize frm v = do {
     sz \<leftarrow> eth_EtherTypeOrSize frm;
     let v = (if eth_IsSize sz \<and> int (length frm) < uint sz
              then vld_AddError (Generic ErrInvalidLengthField) v else v);
     let v = (if sz = TypeVLAN \<and> length frm < 18 then vld_AddError (Generic ErrTruncatedFrame) v else v);
     Some v
   }"

text \<open>The tag accessors of \<open>VLANTag\<close>.\<close>

definition vlan_DropEligibleIndicator :: "u16 \<Rightarrow> bool" where
  "vlan_DropEligibleIndicator vt \<longleftrightarrow> vt AND push_bit 3 1 \<noteq> 0"

definition vlan_PriorityCodePoint :: "u16 \<Rightarrow> u8" where
  "vlan_PriorityCodePoint vt = ucast (vt AND 7)"

definition vlan_VLANIdentifier :: "u16 \<Rightarrow> u16" where
  "vlan_VLANIdentifier vt = drop_bit 4 vt"

section \<open>IPv4\<close>

definition ip4_MinimumMTU :: int where "ip4_MinimumMTU = 68"
definition ip4_sizeHeader :: int where "ip4_sizeHeader = 20"

type_synonym IPProto = u8

definition IPProtoICMP :: IPProto where "IPProtoICMP = 1"
definition IPProtoTCP :: IPProto where "IPProtoTCP = 6"
definition IPProtoUDP :: IPProto where "IPProtoUDP = 17"

definition ip4_IsMulticast :: "bytes \<Rightarrow> bool" where
  "ip4_IsMulticast addr \<longleftrightarrow> addr ! 0 AND 0xf0 = 0xe0"

definition ip4_BroadcastAddr :: bytes where "ip4_BroadcastAddr = replicate 4 255"

definition ip4_IsBroadcast :: "bytes \<Rightarrow> bool" where
  "ip4_IsBroadcast addr \<longleftrightarrow> addr = ip4_BroadcastAddr"

definition ip4_IsLinkLocal :: "bytes \<Rightarrow> bool" where
  "ip4_IsLinkLocal addr \<longleftrightarrow> addr ! 0 = 169 \<and> addr ! 1 = 254"

definition NewToS :: "u8 \<Rightarrow> u8 \<Rightarrow> u8 option" where
  "NewToS ECN DS = (if ECN > 3 \<or> DS > 63 then None else Some (ECN OR push_bit 2 DS))"

definition tos_DS :: "u8 \<Rightarrow> u8" where "tos_DS tos = drop_bit 2 tos"
definition tos_ECN :: "u8 \<Rightarrow> u8" where "tos_ECN tos = tos AND 3"

definition flagIsEvilPos :: nat where "flagIsEvilPos = 13"
definition flagDontFragPos :: nat where "flagDontFragPos = 14"
definition flagMoreFragPos :: nat where "flagMoreFragPos = 15"
definition FlagOffsetMask :: u16 where "FlagOffsetMask = push_bit flagIsEvilPos 1 - 1"

definition NewFlags :: "u16 \<Rightarrow> bool \<Rightarrow> bool \<Rightarrow> u16 option" where
  "NewFlags fragOffset dontFrag moreFrag =
     (if fragOffset > FlagOffsetMask then None
      else Some (fragOffset OR push_bit flagDontFragPos (of_bool dontFrag) OR
                 push_bit flagMoreFragPos (of_bool moreFrag)))"

definition flg_IsEvil :: "u16 \<Rightarrow> bool" where
  "flg_IsEvil f \<longleftrightarrow> f AND push_bit flagIsEvilPos 1 \<noteq> 0"

definition flg_DontFragment :: "u16 \<Rightarrow> bool" where
  "flg_DontFragment f \<longleftrightarrow> f AND push_bit flagDontFragPos 1 \<noteq> 0"

definition flg_MoreFragments :: "u16 \<Rightarrow> bool" where
  "flg_MoreFragments f \<longleftrightarrow> f AND push_bit flagMoreFragPos 1 \<noteq> 0"

definition flg_FragmentOffset :: "u16 \<Rightarrow> u16" where
  "flg_FragmentOffset f = f AND FlagOffsetMask"

definition ip4_NewFrame :: "bytes \<Rightarrow> bytes \<times> goerror option" where
  "ip4_NewFrame buf =
     (if int (length buf) < ip4_sizeHeader then ([], Some (Generic ErrTruncatedFrame)) else (buf, None))"

definition ip4_ihl :: "bytes \<Rightarrow> u8 option" where
  "ip4_ihl frm = do { v \<leftarrow> get8 frm 0; Some (v AND 0xf) }"

definition ip4_version :: "bytes \<Rightarrow> u8 option" where
  "ip4_version frm = do { v \<leftarrow> get8 frm 0; Some (drop_bit 4 v) }"

definition ip4_HeaderLength :: "bytes \<Rightarrow> int option" where
  "ip4_HeaderLength frm = do { ihl \<leftarrow> ip4_ihl frm; Some (uint ihl * 4) }"

definition ip4_VersionAndIHL :: "bytes \<Rightarrow> (u8 \<times> u8) option" where
  "ip4_VersionAndIHL frm = do { v \<leftarrow> get8 frm 0; Some (drop_bit 4 v, v AND 0xf) }"

definition ip4_SetVersionAndIHL :: "bytes \<Rightarrow> u8 \<Rightarrow> u8 \<Rightarrow> bytes option" where
  "ip4_SetVersionAndIHL frm version IHL = put8 frm 0 (push_bit 4 version OR (IHL AND 0xf))"

definition ip4_ToS :: "bytes \<Rightarrow> u8 option" where "ip4_ToS frm = get8 frm 1"
definition ip4_SetToS :: "bytes \<Rightarrow> u8 \<Rightarrow> bytes option" where "ip4_SetToS frm tos = put8 frm 1 tos"
definition ip4_TotalLength :: "bytes \<Rightarrow> u16 option" where "ip4_TotalLength frm = get16 frm 2"
definition ip4_SetTotalLength :: "bytes \<Rightarrow> u16 \<Rightarrow> bytes option" where
  "ip4_SetTotalLength frm l = put16 frm 2 l"
definition ip4_ID :: "bytes \<Rightarrow> u16 option" where "ip4_ID frm = get16 frm 4"
definition ip4_SetID :: "bytes \<Rightarrow> u16 \<Rightarrow> bytes option" where "ip4_SetID frm i = put16 frm 4 i"
definition ip4_Flags :: "bytes \<Rightarrow> u16 option" where "ip4_Flags frm = get16 frm 6"
definition ip4_SetFlags :: "bytes \<Rightarrow> u16 \<Rightarrow> bytes option" where "ip4_SetFlags frm f = put16 frm 6 f"
definition ip4_TTL :: "bytes \<Rightarrow> u8 option" where "ip4_TTL frm = get8 frm 8"
definition ip4_SetTTL :: "bytes \<Rightarrow> u8 \<Rightarrow> bytes option" where "ip4_SetTTL frm ttl = put8 frm 8 ttl"
definition ip4_Protocol :: "bytes \<Rightarrow> IPProto option" where "ip4_Protocol frm = get8 frm 9"
definition ip4_SetProtocol :: "bytes \<Rightarrow> IPProto \<Rightarrow> bytes option" where
  "ip4_SetProtocol frm proto = put8 frm 9 proto"
definition ip4_CRC :: "bytes \<Rightarrow> u16 option" where "ip4_CRC frm = get16 frm 10"
definition ip4_SetCRC :: "bytes \<Rightarrow> u16 \<Rightarrow> bytes option" where "ip4_SetCRC frm cs = put16 frm 10 cs"

definition ip4_CRCWriteHeader :: "bytes \<Rightarrow> CRC791 \<Rightarrow> CRC791 option" where
  "ip4_CRCWriteHeader frm crc = do { hdr \<leftarrow> get_bytes 20 frm 0; crc_WriteEven crc hdr }"

definition ip4_CalculateHeaderCRC :: "bytes \<Rightarrow> u16 option" where
  "ip4_CalculateHeaderCRC frm = do { crc \<leftarrow> ip4_CRCWriteHeader frm crc_Reset; Some (crc_Sum16 crc) }"

definition ip4_sourceAndDestinationAddr :: "bytes \<Rightarrow> bytes option" where
  "ip4_sourceAndDestinationAddr frm = get_bytes 8 frm 12"

definition ip4_CRCWriteTCPPseudo :: "bytes \<Rightarrow> CRC791 \<Rightarrow> CRC791 option" where
  "ip4_CRCWriteTCPPseudo frm crc = do {
     addrs \<leftarrow> ip4_sourceAndDestinationAddr frm;
     crc \<leftarrow> crc_WriteEven crc addrs;
     tl \<leftarrow> ip4_TotalLength frm;
     hl \<leftarrow> ip4_HeaderLength frm;
     proto \<leftarrow> ip4_Protocol frm;
     Some (crc_AddUint16 (crc_AddUint16 crc (tl - word_of_int hl)) (ucast proto))
   }"

definition ip4_CRCWriteUDPPseudo :: "bytes \<Rightarrow> CRC791 \<Rightarrow> u16 \<Rightarrow> CRC791 option" where
  "ip4_CRCWriteUDPPseudo frm crc udpLength = do {
     addrs \<leftarrow> ip4_sourceAndDestinationAddr frm;
     crc \<leftarrow> crc_WriteEven crc addrs;
     proto \<leftarrow> ip4_Protocol frm;
     Some (crc_AddUint16 (crc_AddUint16 crc udpLength) (ucast proto))
   }"

definition ip4_SourceAddr :: "bytes \<Rightarrow> bytes option" where "ip4_SourceAddr frm = get_bytes 4 frm 12"
definition ip4_DestinationAddr :: "bytes \<Rightarrow> bytes option" where
  "ip4_DestinationAddr frm = get_bytes 4 frm 16"

definition ip4_Payload :: "bytes \<Rightarrow> bytes option" where
  "ip4_Payload frm = do {
     off \<leftarrow> ip4_HeaderLength frm;
     l \<leftarrow> ip4_TotalLength frm;
     go_slice frm off (uint l)
   }"

definition ip4_Options :: "bytes \<Rightarrow> bytes option" where
  "ip4_Options frm = do { off \<leftarrow> ip4_HeaderLength frm; go_slice frm ip4_sizeHeader off }"

definition ip4_ClearHeader :: "bytes \<Rightarrow> bytes option" where
  "ip4_ClearHeader frm = put_bytes frm 0 (replicate 20 0)"

definition ip4_ValidateSize :: "bytes \<Rightarrow> Validator \<Rightarrow> Validator option" where
  "ip4_ValidateSize frm v = do {
     ihl \<leftarrow> ip4_ihl frm;
     tl \<leftarrow> ip4_TotalLength frm;
     let v = (if uint tl < ip4_sizeHeader then vld_AddError (Generic ErrInvalidLengthField) v else v);
     let v = (if uint tl > int (length frm) then vld_AddError (Generic ErrTruncatedFrame) v else v);
     let v = (if ihl < 5 \<or> ucast ihl * 4 > tl then vld_AddError (Generic ErrInvalidLengthField) v else v);
     Some v
   }"

definition ip4_ValidateExceptCRC :: "bytes \<Rightarrow> Validator \<Rightarrow> Validator option" where
  "ip4_ValidateExceptCRC frm v = do {
     v \<leftarrow> ip4_ValidateSize frm v;
     flags \<leftarrow> ip4_Flags frm;
     version \<leftarrow> ip4_version frm;
     let v = (if version \<noteq> 4 then vld_AddError (Generic ErrInvalidField) v else v);
     let v = (if vldFlags v AND ValidateEvilBit \<noteq> 0 \<and> flg_IsEvil flags
              then vld_AddError (Generic ErrPacketDrop) v else v);
     Some v
   }"

section \<open>IPv6\<close>

definition ip6_sizeHeader :: int where "ip6_sizeHeader = 40"

definition ip6_NewFrame :: "bytes \<Rightarrow> bytes \<times> goerror option" where
  "ip6_NewFrame buf =
     (if int (length buf) < ip6_sizeHeader then ([], Some (Generic ErrTruncatedFrame)) else (buf, None))"

definition ip6_PayloadLength :: "bytes \<Rightarrow> u16 option" where "ip6_PayloadLength frm = get16 frm 4"
definition ip6_SetPayloadLength :: "bytes \<Rightarrow> u16 \<Rightarrow> bytes option" where
  "ip6_SetPayloadLength frm pl = put16 frm 4 pl"

text \<open>The constant \<open>sizeHeader\<close> takes the type of \<open>pl\<close>, so the upper bound is a \<open>uint16\<close> sum.\<close>

definition ip6_Payload :: "bytes \<Rightarrow> bytes option" where
  "ip6_Payload frm = do {
     pl \<leftarrow> ip6_PayloadLength frm;
     go_slice frm ip6_sizeHeader (uint (word_of_int ip6_sizeHeader + pl))
   }"

definition ip6_VersionTrafficAndFlow :: "bytes \<Rightarrow> (u8 \<times> u8 \<times> u32) option" where
  "ip6_VersionTrafficAndFlow frm = do {
     v \<leftarrow> get32 frm 0;
     Some (ucast (drop_bit 28 v), ucast (drop_bit 20 v), v AND 0xfffff)
   }"

definition ip6_SetVersionTrafficAndFlow :: "bytes \<Rightarrow> u8 \<Rightarrow> u8 \<Rightarrow> u32 \<Rightarrow> bytes option" where
  "ip6_SetVersionTrafficAndFlow frm version tos flow =
     put32 frm 0 (flow OR push_bit 20 (ucast tos) OR push_bit 28 (ucast version))"

definition ip6_NextHeader :: "bytes \<Rightarrow> IPProto option" where "ip6_NextHeader frm = get8 frm 6"
definition ip6_SetNextHeader :: "bytes \<Rightarrow> IPProto \<Rightarrow> bytes option" where
  "ip6_SetNextHeader frm proto = put8 frm 6 proto"
definition ip6_HopLimit :: "bytes \<Rightarrow> u8 option" where "ip6_HopLimit frm = get8 frm 7"
definition ip6_SetHopLimit :: "bytes \<Rightarrow> u8 \<Rightarrow> bytes option" where "ip6_SetHopLimit frm hop = put8 frm 7 hop"
definition ip6_SourceAddr :: "bytes \<Rightarrow> bytes option" where "ip6_SourceAddr frm = get_bytes 16 frm 8"
definition ip6_DestinationAddr :: "bytes \<Rightarrow> bytes option" where
  "ip6_DestinationAddr frm = get_bytes 16 frm 24"
definition ip6_sourceAndDestinationAddr :: "bytes \<Rightarrow> bytes option" where
  "ip6_sourceAndDestinationAddr frm = get_bytes 32 frm 8"

definition ip6_CRCWritePseudo :: "bytes \<Rightarrow> CRC791 \<Rightarrow> CRC791 option" where
  "ip6_CRCWritePseudo frm crc = do {
     addrs \<leftarrow> ip6_sourceAndDestinationAddr frm;
     crc \<leftarrow> crc_WriteEven crc addrs;
     pl \<leftarrow> ip6_PayloadLength frm;
     nh \<leftarrow> ip6_NextHeader frm;
     Some (crc_AddUint32 (crc_AddUint32 crc (ucast pl)) (ucast nh))
   }"

definition ip6_ClearHeader :: "bytes \<Rightarrow> bytes option" where
  "ip6_ClearHeader frm = put_bytes frm 0 (replicate 40 0)"

definition ip6_ValidateSize :: "bytes \<Rightarrow> Validator \<Rightarrow> Validator option" where
  "ip6_ValidateSize frm v = do {
     tl \<leftarrow> ip6_PayloadLength frm;
     Some (if uint tl + ip6_sizeHeader > int (length frm)
           then vld_AddError (Generic ErrInvalidLengthField) v else v)
   }"

section \<open>UDP\<close>

definition udp_sizeHeader :: int where "udp_sizeHeader = 8"

definition udp_NewFrame :: "bytes \<Rightarrow> bytes \<times> goerror option" where
  "udp_NewFrame buf =
     (buf, if int (length buf) < udp_sizeHeader then Some (Generic ErrTruncatedFrame) else None)"

definition udp_SourcePort :: "bytes \<Rightarrow> u16 option" where "udp_SourcePort frm = get16 frm 0"
definition udp_SetSourcePort :: "bytes \<Rightarrow> u16 \<Rightarrow> bytes option" where
  "udp_SetSourcePort frm src = put16 frm 0 src"
definition udp_DestinationPort :: "bytes \<Rightarrow> u16 option" where "udp_DestinationPort frm = get16 frm 2"
definition udp_SetDestinationPort :: "bytes \<Rightarrow> u16 \<Rightarrow> bytes option" where
  "udp_SetDestinationPort frm dst = put16 frm 2 dst"
definition udp_Length :: "bytes \<Rightarrow> u16 option" where "udp_Length frm = get16 frm 4"
definition udp_SetLength :: "bytes \<Rightarrow> u16 \<Rightarrow> bytes option" where "udp_SetLength frm l = put16 frm 4 l"
definition udp_CRC :: "bytes \<Rightarrow> u16 option" where "udp_CRC frm = get16 frm 6"
definition udp_SetCRC :: "bytes \<Rightarrow> u16 \<Rightarrow> bytes option" where "udp_SetCRC frm cs = put16 frm 6 cs"

definition udp_Payload :: "bytes \<Rightarrow> bytes option" where
  "udp_Payload frm = do { l \<leftarrow> udp_Length frm; go_slice frm udp_sizeHeader (uint l) }"

definition udp_ClearHeader :: "bytes \<Rightarrow> bytes option" where
  "udp_ClearHeader frm = put_bytes frm 0 (replicate 8 0)"

definition udp_ValidateSize :: "bytes \<Rightarrow> Validator \<Rightarrow> Validator option" where
  "udp_ValidateSize frm v = do {
     ul \<leftarrow> udp_Length frm;
     let v = (if uint ul < udp_sizeHeader then vld_AddError (Generic ErrInvalidLengthField) v else v);
     let v = (if uint ul > int (length frm) then vld_AddError (Generic ErrTruncatedFrame) v else v);
     Some v
   }"

section \<open>Validated frames\<close>

lemmas ip4_field_defs = ip4_ihl_def ip4_version_def ip4_HeaderLength_def ip4_ToS_def ip4_SetToS_def
  ip4_TotalLength_def ip4_SetTotalLength_def ip4_ID_def ip4_SetID_def ip4_Flags_def ip4_SetFlags_def
  ip4_TTL_def ip4_SetTTL_def ip4_Protocol_def ip4_SetProtocol_def ip4_CRC_def ip4_SetCRC_def
  ip4_SetVersionAndIHL_def ip4_SourceAddr_def ip4_DestinationAddr_def ip4_sourceAndDestinationAddr_def

lemma low_nibble: "unat ((v :: u8) AND 0xf) < 16"
proof -
  have "v AND 0xf = take_bit 4 v" by (simp add: take_bit_eq_mask mask_eq_exp_minus_1)
  then have "unat (v AND 0xf) = take_bit 4 (unat v)" by (simp only: unsigned_take_bit_eq)
  then show ?thesis by (simp add: take_bit_eq_mod)
qed

lemma uint_int_unat: "uint w = int (unat w)"
  by simp

text \<open>A frame that passes \<open>ValidateSize\<close> has its header, options and payload inside the buffer.\<close>

lemma ip4_ValidateSize_clean:
  assumes "ip4_ValidateSize frm v = Some v'" "vld_clean v'"
  obtains hl l where "ip4_HeaderLength frm = Some (int hl)" "ip4_TotalLength frm = Some l"
    and "20 \<le> hl" "hl \<le> unat l" "unat l \<le> length frm"
proof -
  obtain b l where b: "get8 frm 0 = Some b" "get16 frm 2 = Some l"
    using assms(1) by (auto simp: ip4_ValidateSize_def ip4_field_defs split: bind_splits)
  let ?ihl = "b AND 0xf"
  have c: "\<not> uint l < 20" "\<not> uint l > int (length frm)" "\<not> (?ihl < 5 \<or> ucast ?ihl * 4 > l)"
    using assms b by (auto simp: ip4_ValidateSize_def ip4_field_defs ip4_sizeHeader_def Let_def split: if_splits)
  have n: "unat ?ihl < 16" by (rule low_nibble)
  have "unat (ucast ?ihl * 4 :: u16) = unat ?ihl * 4"
    using n by (simp add: unat_word_ariths unsigned_ucast_eq take_bit_nat_eq_self)
  then have "unat ?ihl * 4 \<le> unat l" using c(3) by (simp add: word_less_nat_alt linorder_not_less)
  moreover have "5 \<le> unat ?ihl" using c(3) by (simp add: word_less_nat_alt linorder_not_less)
  moreover have "unat l \<le> length frm" using c(2) uint_int_unat [of l] by linarith
  moreover have "ip4_HeaderLength frm = Some (int (unat ?ihl * 4))" using b by (simp add: ip4_field_defs)
  ultimately show ?thesis using that [of "unat ?ihl * 4" l] b by (simp add: ip4_field_defs)
qed

lemma ip4_validated_parts:
  assumes "ip4_ValidateSize frm v = Some v'" "vld_clean v'"
  shows "\<exists>opts payload rest. ip4_Options frm = Some opts \<and> ip4_Payload frm = Some payload \<and>
    frm = take 20 frm @ opts @ payload @ rest \<and> ip4_TotalLength frm = Some (of_nat (20 + length opts + length payload))"
proof -
  obtain hl l where h: "ip4_HeaderLength frm = Some (int hl)" "ip4_TotalLength frm = Some l"
    "20 \<le> hl" "hl \<le> unat l" "unat l \<le> length frm"
    using ip4_ValidateSize_clean [OF assms] by blast
  have "ip4_Options frm = Some (take (hl - 20) (drop 20 frm))"
    using h go_slice_int [of frm 20 hl] by (simp add: ip4_Options_def ip4_sizeHeader_def)
  moreover have "ip4_Payload frm = Some (take (unat l - hl) (drop hl frm))"
    using h go_slice_int [of frm hl "unat l"] by (simp add: ip4_Payload_def)
  moreover have "frm = take 20 frm @ take (hl - 20) (drop 20 frm) @ take (unat l - hl) (drop hl frm) @ drop (unat l) frm"
    using h(3,4) by (metis append_take_drop_id drop_drop le_add_diff_inverse2)
  ultimately show ?thesis using h by auto
qed

text \<open>
  The size check of an Ethernet frame compares the length field with the whole frame, header
  included, so a frame that passes it can still make \<open>Payload\<close> panic.
\<close>

lemma eth_validated_payload_panics:
  "\<exists>frm v. eth_ValidateSize frm v = Some v \<and> vld_clean v \<and> eth_Payload frm = None"
proof (intro exI conjI)
  let ?frm = "replicate 12 0 @ [0, 20] @ replicate 10 0 :: bytes"
  let ?v = "\<lparr>accum = [], accumBitpos = [], vldFlags = 0\<rparr>"
  show "eth_ValidateSize ?frm ?v = Some ?v" "vld_clean ?v" "eth_Payload ?frm = None" by code_simp+
qed

text \<open>
  The end of an IPv6 payload is a \<open>uint16\<close> sum: a packet with a payload of more than 65495
  octets passes \<open>ValidateSize\<close> and makes \<open>Payload\<close> panic.
\<close>

lemma ip6_validated_payload_panics:
  assumes "ip6_PayloadLength frm = Some pl" "unat pl > 65495" "unat pl + 40 \<le> length frm"
  shows "ip6_ValidateSize frm v = Some v" "ip6_Payload frm = None"
proof -
  have "\<not> uint pl + 40 > int (length frm)" using assms(3) uint_int_unat [of pl] by linarith
  then show "ip6_ValidateSize frm v = Some v" using assms by (simp add: ip6_ValidateSize_def ip6_sizeHeader_def)
  have "unat (40 + pl) = unat pl + 40 - 65536"
    using assms(2) unat_width(2) [of pl] by (simp add: unat_word_ariths mod_if)
  then have "uint (40 + pl) < 40" using unat_width(2) [of pl] uint_int_unat [of "40 + pl"] by linarith
  then show "ip6_Payload frm = None"
    using assms(1) by (simp add: ip6_Payload_def ip6_sizeHeader_def go_slice_def)
qed

lemma ip6_validated_payload:
  assumes "ip6_ValidateSize frm v = Some v'" "vld_clean v'" "ip6_PayloadLength frm = Some pl" "unat pl \<le> 65495"
  shows "ip6_Payload frm = Some (take (unat pl) (drop 40 frm))"
proof -
  have "\<not> uint pl + 40 > int (length frm)"
    using assms(1-3) by (auto simp: ip6_ValidateSize_def ip6_sizeHeader_def split: if_splits)
  then have "unat pl + 40 \<le> length frm" using uint_int_unat [of pl] by linarith
  moreover have "unat (40 + pl) = 40 + unat pl" using assms(4) by (simp add: unat_word_ariths)
  then have "uint (40 + pl) = int (40 + unat pl)" using uint_int_unat [of "40 + pl"] by linarith
  ultimately show ?thesis
    using assms(3) go_slice_int [of frm 40 "40 + unat pl"]
    by (simp add: ip6_Payload_def ip6_sizeHeader_def)
qed

text \<open>
  RFC 791 puts ``more fragments'' at bit 13 and keeps bit 15 reserved (RFC 3514 calls it the
  evil bit); the constants of the code have the two the other way round, so a fragment of a
  larger datagram is taken for an evil packet.
\<close>

lemma more_fragments_is_evil:
  "flg_IsEvil 0x2000" "\<not> flg_MoreFragments 0x2000" "flg_MoreFragments 0x8000" "\<not> flg_IsEvil 0x8000"
  by code_simp+

section \<open>The checksum of the IPv4 header\<close>

lemma ip4_CalculateHeaderCRC_eq:
  "20 \<le> length frm \<Longrightarrow> ip4_CalculateHeaderCRC frm = crc_PayloadSum16 crc_Reset (take 20 frm)"
proof -
  assume "20 \<le> length frm"
  then have "even (length (take 20 frm))" "get_bytes 20 frm 0 = Some (take 20 frm)"
    by (simp_all add: get_bytes_def)
  then show ?thesis
    using crc_WriteEven_PayloadSum16 [of "take 20 frm" crc_Reset]
    by (cases "crc_WriteEven crc_Reset (take 20 frm)")
      (simp_all add: ip4_CalculateHeaderCRC_def ip4_CRCWriteHeader_def)
qed

lemma take_patch_inside: "i + length b \<le> n \<Longrightarrow> n \<le> length xs \<Longrightarrow> take n (patch i b xs) = patch i b (take n xs)"
  by (rule nth_equalityI) (auto simp: nth_patch)

lemma ip4_header_crc_set:
  assumes "20 \<le> length frm" "ip4_CalculateHeaderCRC (patch 10 (be_enc 2 (0 :: u16)) frm) = Some c"
  shows "ip4_CalculateHeaderCRC (patch 10 (be_enc 2 c) frm) = Some 0"
  using assms checksum_field_verifies [OF crc_holds_simps(1), of 10 "take 20 frm" c c]
  by (simp add: ip4_CalculateHeaderCRC_eq take_patch_inside)

end
