(* ===== verification/Inet_Ip4.thy ===== *)
theory Inet_Ip4
  imports Net_Frames Inet_Handlers Tcp_Frame
begin

text \<open>
  \<open>internet/stack-ip4.go\<close>: the IPv4 layer. \<open>demux4\<close> checks a packet and hands it to the node of
  its protocol; \<open>encapsulate4\<close> collects a segment from a node and completes the headers and
  checksums around it. Slices of one buffer share memory in Go: a frame view is the part of the
  carrier buffer it covers and is put back after it has been written.
\<close>

section \<open>Model\<close>

text \<open>\<open>internal/prand.go\<close>\<close>

definition Prand16 :: "u16 \<Rightarrow> u16" where
  "Prand16 seed =
     (let s = seed XOR push_bit 7 seed; s = s XOR drop_bit 9 s in s XOR push_bit 8 s)"

record 'n stackip4 =
  si4Handlers :: "'n handlers"
  si4Vld :: Validator
  ipID :: u16
  ip4Addr :: bytes
  si4Multicast :: bool
  si4Broadcast :: bool

definition si4_reset4 ::
    "(nat \<Rightarrow> nat) \<Rightarrow> 'n stackip4 \<Rightarrow> Validator \<Rightarrow> int \<Rightarrow> 'n stackip4 option" where
  "si4_reset4 grow si vld maxNodes = do {
     h \<leftarrow> hs_reset grow (si4Handlers si) maxNodes;
     Some \<lparr>si4Handlers = h, si4Vld = vld, ipID = 1, ip4Addr = replicate 4 0, si4Multicast = False,
           si4Broadcast = False\<rparr>
   }"

definition si4_Register4 ::
    "'n StackNode \<Rightarrow> 'n stackip4 \<Rightarrow> 'n \<Rightarrow> ('n stackip4 \<times> goerror option) option" where
  "si4_Register4 I si s =
     (if ifProtocol I s > 255 then Some (si, Some (Generic ErrInvalidConfig))
      else do {
        nd \<leftarrow> nodeFromStackNode I s (ifLocalPort I s) (ifProtocol I s) [];
        let (h, err) = registerByPortProto I (si4Handlers si) nd;
        Some (si\<lparr>si4Handlers := h\<rparr>, err)
      })"

definition si4_IsRegistered4 :: "'n StackNode \<Rightarrow> 'n stackip4 \<Rightarrow> IPProto \<Rightarrow> bool" where
  "si4_IsRegistered4 I si proto \<longleftrightarrow> nodeByProto I (si4Handlers si) (ucast proto) \<noteq> None"

definition si4_SetAcceptMulticast4 :: "'n stackip4 \<Rightarrow> bool \<Rightarrow> 'n stackip4" where
  "si4_SetAcceptMulticast4 si accept = si\<lparr>si4Multicast := accept\<rparr>"

definition si4_SetAcceptBroadcast4 :: "'n stackip4 \<Rightarrow> bool \<Rightarrow> 'n stackip4" where
  "si4_SetAcceptBroadcast4 si accept = si\<lparr>si4Broadcast := accept\<rparr>"

definition si4_SetAddr4 :: "'n stackip4 \<Rightarrow> bytes \<Rightarrow> 'n stackip4" where
  "si4_SetAddr4 si addr = si\<lparr>ip4Addr := addr\<rparr>"

text \<open>Is the packet for this stack? A zero address accepts everything.\<close>

definition ip4_forUs :: "'n stackip4 \<Rightarrow> bytes \<Rightarrow> bool" where
  "ip4_forUs si dst \<longleftrightarrow>
     ip4Addr si = replicate 4 0 \<or> dst = ip4Addr si \<or>
     si4Multicast si \<and> ip4_IsMulticast dst \<or> si4Broadcast si \<and> ip4_IsBroadcast dst"

text \<open>The checks of the TCP and UDP checksums.\<close>

definition demux4Transport ::
    "Validator \<Rightarrow> bytes \<Rightarrow> IPProto \<Rightarrow> (Validator \<times> goerror option) option" where
  "demux4Transport vld ifrm proto =
     (if proto = IPProtoTCP then do {
        crc \<leftarrow> ip4_CRCWriteTCPPseudo ifrm crc_Reset;
        payload \<leftarrow> ip4_Payload ifrm;
        r \<leftarrow> crc_PayloadSum16 crc payload;
        Some (vld, if r \<noteq> 0 then Some (Generic ErrBadCRC) else None)
      }
      else if proto = IPProtoUDP then do {
        payload \<leftarrow> ip4_Payload ifrm;
        case udp_NewFrame payload of
          (_, Some err) \<Rightarrow> Some (vld, Some err)
        | (ufrm, None) \<Rightarrow> do {
            vld \<leftarrow> udp_ValidateSize ufrm vld;
            let (vld, err) = vld_ErrPop vld;
            if err \<noteq> None then Some (vld, err)
            else do {
              frameLen \<leftarrow> udp_Length ufrm;
              crc \<leftarrow> ip4_CRCWriteUDPPseudo ifrm crc_Reset frameLen;
              seg \<leftarrow> go_slice ufrm 0 (uint frameLen);
              r \<leftarrow> crc_PayloadSum16 crc seg;
              Some (vld, if r \<noteq> 0 then Some (Generic ErrBadCRC) else None)
            }
          }
      }
      else Some (vld, None))"

text \<open>\<open>demux4\<close> after the address test.\<close>

definition demux4Valid ::
    "'n StackNode \<Rightarrow> 'n stackip4 \<Rightarrow> bytes \<Rightarrow> ('n stackip4 \<times> goerror option) option" where
  "demux4Valid I si ifrm = do {
     vld \<leftarrow> ip4_ValidateExceptCRC ifrm (vld_ResetErr (si4Vld si));
     let (vld, err) = vld_ErrPop vld;
     let si = si\<lparr>si4Vld := vld\<rparr>;
     if err \<noteq> None then Some (si, err)
     else do {
       crc \<leftarrow> ip4_CalculateHeaderCRC ifrm;
       if crc \<noteq> 0 then Some (si, Some (Generic ErrBadCRC))
       else do {
         off \<leftarrow> ip4_HeaderLength ifrm;
         proto \<leftarrow> ip4_Protocol ifrm;
         case nodeByProto I (si4Handlers si) (ucast proto) of
           None \<Rightarrow> Some (si, Some (Generic ErrPacketDrop))
         | Some i \<Rightarrow> do {
             (vld, err) \<leftarrow> demux4Transport vld ifrm proto;
             let si = si\<lparr>si4Vld := vld\<rparr>;
             if err \<noteq> None then Some (si, err)
             else do {
               totalLen \<leftarrow> ip4_TotalLength ifrm;
               pkt \<leftarrow> go_slice ifrm 0 (uint totalLen);
               (h, gone, err) \<leftarrow> nodeDemux I (si4Handlers si) i pkt off;
               Some (si\<lparr>si4Handlers := h\<rparr>, err)
             }
           }
       }
     }
   }"

definition demux4 ::
    "'n StackNode \<Rightarrow> 'n stackip4 \<Rightarrow> bytes \<Rightarrow> int \<Rightarrow> ('n stackip4 \<times> goerror option) option" where
  "demux4 I si carrierData offset = do {
     frame \<leftarrow> go_slice carrierData offset (int (length carrierData));
     case ip4_NewFrame frame of
       (_, Some err) \<Rightarrow> Some (si, Some err)
     | (ifrm, None) \<Rightarrow> do {
         dst \<leftarrow> ip4_DestinationAddr ifrm;
         if \<not> ip4_forUs si dst then Some (si, Some (Generic ErrPacketDrop))
         else demux4Valid I si ifrm
       }
   }"

text \<open>The header fields that are set before a node is asked for its segment.\<close>

definition encaps4Header :: "u16 \<Rightarrow> bytes \<Rightarrow> bytes \<Rightarrow> bytes option" where
  "encaps4Header ident addr frame = do {
     frame \<leftarrow> ip4_SetVersionAndIHL frame 4 5;
     frame \<leftarrow> ip4_SetToS frame 0;
     frame \<leftarrow> ip4_SetID frame ident;
     frame \<leftarrow> ip4_SetFlags frame 0x4000;
     frame \<leftarrow> ip4_SetTTL frame 64;
     put_bytes frame 12 addr
   }"

text \<open>The checksum of the transport header, in the payload of a completed IP header.\<close>

definition encaps4Transport :: "bytes \<Rightarrow> IPProto \<Rightarrow> int \<Rightarrow> bytes \<Rightarrow> bytes option" where
  "encaps4Transport ifrm proto n payload =
     (if proto = IPProtoTCP then do {
        crc \<leftarrow> ip4_CRCWriteTCPPseudo ifrm crc_Reset;
        tfrm \<leftarrow> tcp_SetCRC (fst (tcp_NewFrame payload)) 0;
        r \<leftarrow> crc_PayloadSum16 crc tfrm;
        tcp_SetCRC tfrm r
      }
      else if proto = IPProtoUDP then do {
        crc \<leftarrow> ip4_CRCWriteUDPPseudo ifrm crc_Reset (word_of_int n);
        ufrm \<leftarrow> udp_SetLength (fst (udp_NewFrame payload)) (word_of_int n);
        ufrm \<leftarrow> udp_SetCRC ufrm 0;
        r \<leftarrow> crc_PayloadSum16 crc ufrm;
        udp_SetCRC ufrm (NeverZeroSum r)
      }
      else Some payload)"

text \<open>The completion of the headers around the \<open>n\<close> bytes a node of protocol \<open>proto\<close> has written.\<close>

definition encaps4Finish :: "IPProto \<Rightarrow> int \<Rightarrow> bytes \<Rightarrow> bytes option" where
  "encaps4Finish proto n frame = do {
     frame \<leftarrow> ip4_SetTotalLength frame (word_of_int (n + 20));
     frame \<leftarrow> ip4_SetProtocol frame proto;
     frame \<leftarrow> ip4_SetCRC frame 0;
     crcValue \<leftarrow> ip4_CalculateHeaderCRC frame;
     frame \<leftarrow> ip4_SetCRC frame crcValue;
     payload \<leftarrow> ip4_Payload frame;
     hl \<leftarrow> ip4_HeaderLength frame;
     payload \<leftarrow> encaps4Transport frame proto n payload;
     Some (patch (nat hl) payload frame)
   }"

definition encapsulate4 ::
    "'n StackNode \<Rightarrow> 'n stackip4 \<Rightarrow> bytes \<Rightarrow> int \<Rightarrow> ('n stackip4 \<times> bytes \<times> int \<times> goerror option) option" where
  "encapsulate4 I si carrierData offsetToIP = do {
     frame \<leftarrow> go_slice carrierData offsetToIP (int (length carrierData));
     if int (length frame) < ip4_MinimumMTU then Some (si, carrierData, 0, Some IoShortBuffer)
     else do {
       let ident = Prand16 ((ipID si + 1) XOR ucast (ip4Addr si ! 0));
       frame \<leftarrow> encaps4Header ident (ip4Addr si) frame;
       (h, carrierData, hn, n, err) \<leftarrow> encapsulateAny I (si4Handlers si)
          (take (nat offsetToIP) carrierData @ frame) offsetToIP (offsetToIP + 20);
       let si = si\<lparr>ipID := ident, si4Handlers := h\<rparr>;
       if n = 0 then Some (si, carrierData, 0, err)
       else do {
         i \<leftarrow> hn;
         frame \<leftarrow> go_slice carrierData offsetToIP (int (length carrierData));
         frame \<leftarrow> encaps4Finish (ucast (ndProto (nodes h ! i))) n frame;
         Some (si, take (nat offsetToIP) carrierData @ frame, n + 20, err)
       }
     }
   }"

text \<open>The exported node \<open>StackIPv4\<close>.\<close>

record 'n StackIPv4 = "'n stackip4" +
  si4ConnID :: u64

definition sip4_Reset ::
    "(nat \<Rightarrow> nat) \<Rightarrow> 'n StackIPv4 \<Rightarrow> Validator \<Rightarrow> int \<Rightarrow> ('n StackIPv4 \<times> goerror option) option" where
  "sip4_Reset grow s vld maxNodes = do {
     si \<leftarrow> si4_reset4 grow (stackip4.truncate s) vld maxNodes;
     Some (stackip4.extend si (StackIPv4.fields (si4ConnID s + 1)), None)
   }"

definition sip4_Encapsulate ::
    "'n StackNode \<Rightarrow> 'n StackIPv4 \<Rightarrow> bytes \<Rightarrow> int \<Rightarrow> int \<Rightarrow> ('n StackIPv4 \<times> bytes \<times> int \<times> goerror option) option" where
  "sip4_Encapsulate I s carrierData offsetToIP offsetToFrame =
     (if offsetToFrame \<noteq> offsetToIP then Some (s, carrierData, 0, Some (Generic ErrBug))
      else do {
        (si, carrierData, n, err) \<leftarrow> encapsulate4 I (stackip4.truncate s) carrierData offsetToIP;
        Some (stackip4.extend si (StackIPv4.fields (si4ConnID s)), carrierData, n, err)
      })"

definition sip4_Demux ::
    "'n StackNode \<Rightarrow> 'n StackIPv4 \<Rightarrow> bytes \<Rightarrow> int \<Rightarrow> ('n StackIPv4 \<times> goerror option) option" where
  "sip4_Demux I s carrierData offset = do {
     (si, err) \<leftarrow> demux4 I (stackip4.truncate s) carrierData offset;
     Some (stackip4.extend si (StackIPv4.fields (si4ConnID s)), err)
   }"

text \<open>\<open>StackIPv4\<close> as a node of the layer below.\<close>

definition sip4_node :: "'n StackNode \<Rightarrow> 'n StackIPv4 StackNode" where
  "sip4_node I = \<lparr>ifProtocol = (\<lambda>_. ucast TypeIPv4), ifLocalPort = (\<lambda>_. 0),
     ifConnID = (\<lambda>s. Some (si4ConnID s)), ifEncapsulate = sip4_Encapsulate I, ifDemux = sip4_Demux I\<rparr>"

end
