(* ===== verification/Inet_Clients.thy ===== *)
theory Inet_Clients
  imports Inet_Handlers
begin

text \<open>
  What a layer of the stack needs of the nodes in its table, whatever the layer. The parameter
  \<open>pre\<close> says for which length of the buffer and which offsets the layer calls a node, \<open>keeps\<close> what
  the node leaves alone in the buffer. The layers extend or interpret this locale.
\<close>

definition nodes_inv :: "('n \<Rightarrow> bool) \<Rightarrow> 'n handlers \<Rightarrow> bool" where
  "nodes_inv okS h \<longleftrightarrow> (\<forall>nd \<in> set (nodes h). \<forall>s. callbacks nd = Some s \<longrightarrow> okS s)"

locale node_client =
  fixes I :: "'n StackNode" and okS :: "'n \<Rightarrow> bool" and pre :: "nat \<Rightarrow> int \<Rightarrow> int \<Rightarrow> bool"
    and keeps :: "int \<Rightarrow> bytes \<Rightarrow> bytes \<Rightarrow> bool"
  assumes node_writes: "ifEncapsulate I s buf oip off = Some (s', buf', n, err) \<Longrightarrow> okS s \<Longrightarrow> pre (length buf) oip off \<Longrightarrow>
      okS s' \<and> length buf' = length buf \<and> 0 \<le> n \<and> off + n \<le> int (length buf) \<and> keeps oip buf buf'"
    and pre_inside: "pre len oip off \<Longrightarrow> off \<le> int len"
    and keeps_refl: "keeps oip b b"
    and keeps_trans: "keeps oip b b' \<Longrightarrow> keeps oip b' b'' \<Longrightarrow> keeps oip b b''"
begin

lemma node_encapsulates:
  assumes "encapsulateNode I h i buf oip off = Some (h', buf', n, err)" "i < length (nodes h)"
    and "pre (length buf) oip off" "nodes_inv okS h"
  shows "length buf' = length buf \<and> 0 \<le> n \<and> off + n \<le> int (length buf) \<and> keeps oip buf buf' \<and>
    length (nodes h') = length (nodes h) \<and> nodes_inv okS h'"
proof (cases "nd_IsInvalid I (nodes h ! i)")
  case True
  then show ?thesis using assms pre_inside [OF assms(3)] by (auto simp: encapsulateNode_def keeps_refl)
next
  case False
  then obtain s s' n' err' where s: "callbacks (nodes h ! i) = Some s" "ifEncapsulate I s buf oip off = Some (s', buf', n', err')"
    and h': "h' = h\<lparr>nodes := (nodes h)[i := fst (tryHandleError I ((nodes h ! i)\<lparr>callbacks := Some s'\<rparr>) err')]\<rparr>"
    and n: "n = (if n' > 0 then n' else 0)"
    using assms(1) by (auto simp: encapsulateNode_def Let_def split: if_splits bind_splits prod.splits)
  have "okS s" using assms(2,4) s(1) nth_mem by (auto simp: nodes_inv_def)
  note w = node_writes [OF s(2) this assms(3)]
  have "okS t" if "callbacks (fst (tryHandleError I ((nodes h ! i)\<lparr>callbacks := Some s'\<rparr>) err')) = Some t" for t
    using that w by (auto simp: tryHandleError_def nd_destroyed_def split: if_splits)
  then have "nodes_inv okS h'"
    using assms(4) by (auto simp: nodes_inv_def h' dest!: set_update_subset_insert [THEN subsetD])
  then show ?thesis using w n h' pre_inside [OF assms(3)] by auto
qed

lemma loop_encapsulates:
  assumes "encapsLoop I k i h buf oip off = Some (h', buf', hn, n, err)" "pre (length buf) oip off" "nodes_inv okS h"
  shows "length buf' = length buf \<and> 0 \<le> n \<and> off + n \<le> int (length buf) \<and> keeps oip buf buf' \<and>
    (n \<noteq> 0 \<longrightarrow> hn \<noteq> None) \<and> nodes_inv okS h'"
  using assms
proof (induction k arbitrary: i h buf)
  case 0
  then show ?case using pre_inside [OF 0(2)] by (simp add: keeps_refl)
next
  case (Suc k)
  then obtain h1 buf1 n1 err1 where e: "encapsulateNode I h i buf oip off = Some (h1, buf1, n1, err1)"
    and i: "i < length (nodes h)"
    by (auto split: if_splits bind_splits)
  note w = node_encapsulates [OF e i Suc.prems(2,3)]
  show ?case
  proof (cases "n1 > 0 \<or> err1 \<noteq> None")
    case True
    then show ?thesis using Suc.prems(1) e w i by (auto simp: nodes_inv_def)
  next
    case False
    then have l: "encapsLoop I k (incLim i (length (nodes h1))) h1 buf1 oip off = Some (h', buf', hn, n, err)"
      using Suc.prems(1) e by (auto split: if_splits)
    have "pre (length buf1) oip off" "nodes_inv okS h1" using w Suc.prems(2) by auto
    from Suc.IH [OF l this] show ?thesis using w keeps_trans by auto
  qed
qed

end

end
