(* ===== verification/Inet_Ip4_Props.thy ===== *)
theory Inet_Ip4_Props
  imports Inet_Ip4 Inet_Clients
begin

text \<open>
  Properties of the IPv4 layer: what \<open>demux4\<close> lets through, and that whatever one stack sends is
  accepted by the stack it is sent to. The locale \<open>ip_client\<close> is what the IPv4 layer needs of the
  nodes registered with it.
\<close>

section \<open>Headers\<close>

lemma patch_patch_same:
  "length b = length b' \<Longrightarrow> k + length b \<le> length xs \<Longrightarrow> patch k b (patch k b' xs) = patch k b xs"
  by (rule nth_equalityI) (auto simp: nth_patch)

lemma get_be_header: "i + n \<le> k \<Longrightarrow> k \<le> length xs \<Longrightarrow> get_be n (take k xs @ ys) i = get_be n xs i"
  by (auto simp: get_be_def drop_take min_def)

lemma get_bytes_header: "i + n \<le> k \<Longrightarrow> k \<le> length xs \<Longrightarrow> get_bytes n (take k xs @ ys) i = get_bytes n xs i"
  by (auto simp: get_bytes_def drop_take min_def)

text \<open>The two checksums with a pseudo header, as sums over words.\<close>

lemma tcp_pseudo_words:
  assumes "20 \<le> length frm"
  obtains c ws where "ip4_CRCWriteTCPPseudo frm crc_Reset = Some c" "crc_holds c ws" "length ws = 6"
proof -
  have addrs: "even (length (take 8 (drop 12 frm)))" "length (words16 (take 8 (drop 12 frm))) = 4"
    using assms by (simp_all add: length_words16)
  obtain c1 where c1: "crc_WriteEven crc_Reset (take 8 (drop 12 frm)) = Some c1"
    "crc_holds c1 ([] @ words16 (take 8 (drop 12 frm)))"
    using crc_WriteEven_holds [OF crc_holds_simps(1) addrs(1)] by blast
  obtain b l p where g: "get8 frm 0 = Some b" "get16 frm 2 = Some l" "get8 frm 9 = Some p"
    using assms get_be_Some [of 0 1 frm] get_be_Some [of 2 2 frm] get_be_Some [of 9 1 frm] by fastforce
  show ?thesis
    using that [OF _ crc_holds_simps(2) [OF crc_holds_simps(2) [OF c1(2)]]] c1 g assms addrs(2)
    by (simp add: ip4_CRCWriteTCPPseudo_def ip4_field_defs get_bytes_def)
qed

lemma udp_pseudo_words:
  assumes "20 \<le> length frm"
  obtains c ws where "ip4_CRCWriteUDPPseudo frm crc_Reset l = Some c" "crc_holds c ws" "length ws = 6"
proof -
  have addrs: "even (length (take 8 (drop 12 frm)))" "length (words16 (take 8 (drop 12 frm))) = 4"
    using assms by (simp_all add: length_words16)
  obtain c1 where c1: "crc_WriteEven crc_Reset (take 8 (drop 12 frm)) = Some c1"
    "crc_holds c1 ([] @ words16 (take 8 (drop 12 frm)))"
    using crc_WriteEven_holds [OF crc_holds_simps(1) addrs(1)] by blast
  obtain p where g: "get8 frm 9 = Some p" using assms get_be_Some [of 9 1 frm] by fastforce
  show ?thesis
    using that [OF _ crc_holds_simps(2) [OF crc_holds_simps(2) [OF c1(2)]]] c1 g assms addrs(2)
    by (simp add: ip4_CRCWriteUDPPseudo_def ip4_field_defs get_bytes_def)
qed

lemma pseudo_of_header:
  assumes "20 \<le> length frm"
  shows "ip4_CRCWriteTCPPseudo (take 20 frm @ p) crc = ip4_CRCWriteTCPPseudo frm crc"
    and "ip4_CRCWriteUDPPseudo (take 20 frm @ p) crc l = ip4_CRCWriteUDPPseudo frm crc l"
  using assms by (simp_all add: ip4_CRCWriteTCPPseudo_def ip4_CRCWriteUDPPseudo_def ip4_field_defs
      get_be_header get_bytes_header)

text \<open>A transport checksum set by the sender satisfies the receiver.\<close>

lemma encaps4Transport_accepted:
  assumes "encaps4Transport H proto (int (length payload)) payload = Some payload'" "20 \<le> length H"
    and "length payload \<le> 65515" "vld_clean v"
    and "ip4_Payload (take 20 H @ payload') = Some payload'"
  shows "length payload' = length payload \<and> demux4Transport v (take 20 H @ payload') proto = Some (v, None)"
proof (cases "proto = IPProtoTCP")
  case True
  obtain c ws where c: "ip4_CRCWriteTCPPseudo H crc_Reset = Some c" "crc_holds c ws" "length ws = 6"
    using tcp_pseudo_words [OF assms(2)] by blast
  have len: "20 \<le> length payload"
    using assms(1) True c by (auto simp: encaps4Transport_def tcp_NewFrame_def tcp_SetCRC_def put_be_def
        sizeHeaderTCP_def split: bind_splits if_splits)
  then obtain r where r: "crc_PayloadSum16 c (patch 16 (be_enc 2 (0 :: u16)) payload) = Some r"
    "payload' = patch 16 (be_enc 2 r) payload"
    using assms(1) True c by (auto simp: encaps4Transport_def tcp_NewFrame_def tcp_SetCRC_def put_be_def
        sizeHeaderTCP_def patch_patch_same split: bind_splits if_splits)
  have "crc_PayloadSum16 c payload' = Some 0"
    unfolding r(2) by (rule checksum_field_verifies [OF c(2) _ _ _ r(1)]) (use c(3) len assms(3) in simp_all)
  then show ?thesis
    using True c(1) r(2) len assms(5) pseudo_of_header [OF assms(2)] by (simp add: demux4Transport_def)
next
  case notTCP: False
  show ?thesis
  proof (cases "proto = IPProtoUDP")
    case True
    define l :: u16 where "l = of_nat (length payload)"
    have l: "unat l = length payload" using assms(3) by (simp add: l_def unat_of_nat)
    obtain c ws where c: "ip4_CRCWriteUDPPseudo H crc_Reset l = Some c" "crc_holds c ws" "length ws = 6"
      using udp_pseudo_words [OF assms(2)] by blast
    have len: "8 \<le> length payload"
      using assms(1) True notTCP by (auto simp: encaps4Transport_def udp_NewFrame_def udp_SetCRC_def
          udp_SetLength_def put_be_def split: bind_splits if_splits)
    let ?P = "patch 4 (be_enc 2 l) payload"
    obtain r where r: "crc_PayloadSum16 c (patch 6 (be_enc 2 (0 :: u16)) ?P) = Some r"
      "payload' = patch 6 (be_enc 2 (NeverZeroSum r)) ?P"
      using assms(1) True notTCP c len by (auto simp: encaps4Transport_def udp_NewFrame_def udp_SetCRC_def
          udp_SetLength_def put_be_def patch_patch_same l_def split: bind_splits if_splits)
    have sum: "crc_PayloadSum16 c payload' = Some 0"
      unfolding r(2) by (rule checksum_field_verifies [OF c(2) _ _ _ r(1)]) (use c(3) len assms(3) in simp_all)
    have len': "length payload' = length payload" using r(2) len by simp
    have ul: "udp_Length payload' = Some l" using r(2) len by (simp add: udp_Length_def frame_access)
    have "\<not> uint l < 8" "\<not> uint l > int (length payload')" using l len len' uint_int_unat [of l] by linarith+
    then have "udp_ValidateSize payload' v = Some v"
      using ul by (simp add: udp_ValidateSize_def udp_sizeHeader_def)
    moreover have "vld_ErrPop v = (v, None)" using assms(4) by (simp add: vld_ErrPop_def vld_clean_def)
    moreover have "go_slice payload' 0 (uint l) = Some payload'"
    proof -
      have "uint l = int (length payload')" using l len' uint_int_unat [of l] by linarith
      then show ?thesis using go_slice_int [of payload' 0 "length payload'"] by simp
    qed
    ultimately show ?thesis
      using True notTCP ul sum c(1) len len' assms(5) pseudo_of_header [OF assms(2)]
      by (simp add: demux4Transport_def udp_NewFrame_def udp_sizeHeader_def)
  next
    case False
    then show ?thesis using assms(1) notTCP by (simp add: encaps4Transport_def demux4Transport_def)
  qed
qed

text \<open>The version and header length every packet is given.\<close>

lemma version_ihl:
  assumes "get8 frm 0 = Some 0x45"
  shows "ip4_HeaderLength frm = Some 20" "ip4_version frm = Some 4" "ip4_ihl frm = Some 5"
proof -
  have "(0x45 :: u8) AND 0xf = 5" "drop_bit 4 (0x45 :: u8) = 4" by code_simp+
  then show "ip4_HeaderLength frm = Some 20" "ip4_version frm = Some 4" "ip4_ihl frm = Some 5"
    using assms by (simp_all add: ip4_field_defs)
qed

lemma encaps4Header_ok:
  assumes "length addr = 4" "20 \<le> length frame"
  shows "\<exists>fr. encaps4Header ident addr frame = Some fr \<and> length fr = length frame \<and> get8 fr 0 = Some 0x45"
proof -
  have "(push_bit 4 4 OR (5 AND 0xf) :: u8) = 0x45" by code_simp
  then show ?thesis
    using assms by (simp add: encaps4Header_def ip4_SetVersionAndIHL_def ip4_SetToS_def ip4_SetID_def
        ip4_SetFlags_def ip4_SetTTL_def put_bytes_def frame_access del: be_enc.simps One_nat_def)
qed

text \<open>What \<open>encaps4Finish\<close> makes of a frame: a complete packet.\<close>

definition ip4_complete :: "IPProto \<Rightarrow> bytes \<Rightarrow> bool" where
  "ip4_complete proto pkt \<longleftrightarrow>
     20 \<le> length pkt \<and> length pkt \<le> 65535 \<and> get8 pkt 0 = Some 0x45 \<and>
     ip4_TotalLength pkt = Some (of_nat (length pkt)) \<and> ip4_Protocol pkt = Some proto \<and>
     ip4_CalculateHeaderCRC pkt = Some 0 \<and>
     (\<forall>v. vld_clean v \<longrightarrow> demux4Transport v pkt proto = Some (v, None))"

lemma encaps4Finish_complete:
  assumes "encaps4Finish proto (int n) frame = Some F" "get8 frame 0 = Some 0x45"
    and "n + 20 \<le> length frame" "n + 20 \<le> 65535"
  shows "length F = length frame \<and> ip4_complete proto (take (n + 20) F) \<and>
    length (take (n + 20) F) = n + 20 \<and> get_bytes 4 (take (n + 20) F) 16 = get_bytes 4 frame 16"
proof -
  define l :: u16 where "l = of_nat (n + 20)"
  have l: "unat l = n + 20" using assms(4) by (simp add: l_def unat_of_nat del: of_nat_add)
  define B where "B = patch 9 (be_enc 1 proto) (patch 2 (be_enc 2 l) frame)"
  have lenB: "length B = length frame" using assms(3) by (simp add: B_def)
  obtain c where c: "ip4_CalculateHeaderCRC (patch 10 (be_enc 2 (0 :: u16)) B) = Some c"
    using unat_crc_sum [OF crc_holds_simps(1), of "take 20 (patch 10 (be_enc 2 (0 :: u16)) B)"] assms(3) lenB
    by (auto simp: ip4_CalculateHeaderCRC_eq)
  define H where "H = patch 10 (be_enc 2 c) B"
  have lenH: "length H = length frame" "20 \<le> length H" using assms(3) lenB by (simp_all add: H_def)
  have fields: "get8 H 0 = Some 0x45" "get16 H 2 = Some l" "get8 H 9 = Some proto"
    "get_bytes 4 H 16 = get_bytes 4 frame 16"
    using assms(2,3) by (simp_all add: H_def B_def frame_access del: One_nat_def be_enc.simps)
  have crcH: "ip4_CalculateHeaderCRC H = Some 0"
    unfolding H_def using ip4_header_crc_set c assms(3) lenB by simp
  let ?payload = "take n (drop 20 H)"
  have ul: "uint l = int (n + 20)" using l uint_int_unat [of l] by linarith
  have pay: "ip4_Payload H = Some ?payload"
    using version_ihl(1) [OF fields(1)] fields(2) ul go_slice_int [of H 20 "n + 20"] assms(3) lenH(1)
    by (simp add: ip4_Payload_def ip4_TotalLength_def)
  have lenP: "length ?payload = n" using assms(3) lenH(1) by simp
  have fin: "encaps4Finish proto (int n) frame = do {
      payload \<leftarrow> encaps4Transport H proto (int n) ?payload; Some (patch 20 payload H) }"
  proof -
    have "ip4_SetTotalLength frame (word_of_int (int n + 20)) = Some (patch 2 (be_enc 2 l) frame)"
      using assms(3) by (simp add: ip4_SetTotalLength_def put_be_def l_def)
    moreover have "ip4_SetProtocol (patch 2 (be_enc 2 l) frame) proto = Some B"
      using assms(3) by (simp add: ip4_SetProtocol_def put_be_def B_def del: be_enc.simps One_nat_def)
    moreover have "ip4_SetCRC B 0 = Some (patch 10 (be_enc 2 (0 :: u16)) B)"
      "ip4_SetCRC (patch 10 (be_enc 2 (0 :: u16)) B) c = Some H"
      using assms(3) lenB by (simp_all add: ip4_SetCRC_def put_be_def H_def patch_patch_same)
    ultimately show ?thesis
      using c version_ihl(1) [OF fields(1)] pay by (simp add: encaps4Finish_def)
  qed
  then obtain P where P: "encaps4Transport H proto (int (length ?payload)) ?payload = Some P" "F = patch 20 P H"
    using assms(1) lenP by (auto split: bind_splits)
  let ?pkt = "take 20 H @ P"
  have hdr: "get8 ?pkt 0 = Some 0x45" "get16 ?pkt 2 = Some l" "get8 ?pkt 9 = Some proto"
    "get_bytes 4 ?pkt 16 = get_bytes 4 frame 16"
    using fields lenH by (simp_all add: get_be_header get_bytes_header)
  have lenP': "length P = n"
    using P(1) lenP by (auto simp: encaps4Transport_def tcp_SetCRC_def tcp_NewFrame_def udp_NewFrame_def
        udp_SetLength_def udp_SetCRC_def put_be_def sizeHeaderTCP_def split: if_splits bind_splits)
  have pktpay: "ip4_Payload ?pkt = Some P"
    using version_ihl(1) [OF hdr(1)] hdr(2) ul go_slice_int [of ?pkt 20 "n + 20"] lenP' lenH
    by (simp add: ip4_Payload_def ip4_TotalLength_def)
  have "demux4Transport v ?pkt proto = Some (v, None)" if "vld_clean v" for v
    using encaps4Transport_accepted [OF P(1) lenH(2) _ that pktpay] assms(4) lenP by simp
  moreover have "ip4_CalculateHeaderCRC ?pkt = Some 0"
    using crcH lenH by (simp add: ip4_CalculateHeaderCRC_eq)
  moreover have "take (n + 20) F = ?pkt" "length F = length frame"
    using P(2) lenP' lenH assms(3) by (simp_all add: patch_def)
  ultimately show ?thesis
    using hdr lenP' lenH assms(4) by (simp add: ip4_complete_def ip4_field_defs l_def add.commute)
qed

section \<open>What the IPv4 layer needs of its nodes\<close>

text \<open>
  A node in a state of its invariant writes its segment into the part of the buffer it is given,
  reports as many bytes as fit there, and leaves the version and header length of the IP header
  alone. It may rely on \<open>room\<close> bytes: the layer refuses frames shorter than the smallest MTU. A
  Go slice keeps its length when it is written to.
\<close>

locale ip_client =
  fixes I :: "'n StackNode" and okS :: "'n \<Rightarrow> bool" and room :: nat
  assumes client_writes: "ifEncapsulate I s buf oip off = Some (s', buf', n, err) \<Longrightarrow> okS s \<Longrightarrow>
      0 \<le> oip \<Longrightarrow> oip + 20 \<le> off \<Longrightarrow> off + int room \<le> int (length buf) \<Longrightarrow>
      okS s' \<and> length buf' = length buf \<and> 0 \<le> n \<and> off + n \<le> int (length buf) \<and>
      buf' ! nat oip = buf ! nat oip"

sublocale ip_client \<subseteq> node_client I okS "\<lambda>len oip off. 0 \<le> oip \<and> oip + 20 \<le> off \<and> off + int room \<le> int len"
    "\<lambda>oip b b'. b' ! nat oip = b ! nat oip"
  by unfold_locales (use client_writes in auto)

context ip_client
begin

lemma encapsLoop_writes:
  assumes "encapsLoop I k i h buf oip off = Some (h', buf', hn, n, err)"
    and "0 \<le> oip" "oip + 20 \<le> off" "off + int room \<le> int (length buf)" "nodes_inv okS h"
  shows "length buf' = length buf \<and> 0 \<le> n \<and> off + n \<le> int (length buf) \<and> buf' ! nat oip = buf ! nat oip \<and>
    (n \<noteq> 0 \<longrightarrow> hn \<noteq> None) \<and> nodes_inv okS h'"
  using loop_encapsulates [OF assms(1)] assms(2-5) by simp

lemma encapsulate4_complete:
  assumes "encapsulate4 I si buf (int off) = Some (si', buf', tot, err)" "tot \<noteq> 0" "length (ip4Addr si) = 4"
    and "length buf - off \<le> 65535" "room \<le> 48" "nodes_inv okS (si4Handlers si)"
  shows "\<exists>proto. ip4_complete proto (take (nat tot) (drop off buf')) \<and> length buf' = length buf"
proof -
  have off: "off + 68 \<le> length buf"
    using assms(1,2) by (auto simp: encapsulate4_def go_slice_def ip4_MinimumMTU_def Let_def
        split: if_splits bind_splits)
  let ?id = "Prand16 ((ipID si + 1) XOR ucast (ip4Addr si ! 0))"
  obtain fr where fr: "encaps4Header ?id (ip4Addr si) (drop off buf) = Some fr"
    "length fr = length buf - off" "get8 fr 0 = Some 0x45"
  proof -
    have "20 \<le> length (drop off buf)" using off by simp
    from encaps4Header_ok [OF assms(3) this, of ?id] show ?thesis using that by auto
  qed
  obtain h bufn hn n e where any: "encapsulateAny I (si4Handlers si) (take off buf @ fr) (int off) (int off + 20) =
      Some (h, bufn, hn, n, e)" and n: "tot = n + 20" "n \<noteq> 0"
    and fin: "\<exists>i F. hn = Some i \<and> encaps4Finish (ucast (ndProto (nodes h ! i))) n (drop off bufn) = Some F \<and>
      buf' = take off bufn @ F \<and> length bufn \<ge> off"
    using assms(1,2) off fr(1) by (auto simp: encapsulate4_def go_slice_def ip4_MinimumMTU_def Let_def
        split: if_splits bind_splits)
  have w: "length bufn = length buf" "0 \<le> n" "int off + 20 + n \<le> int (length buf)" "bufn ! off = fr ! 0"
    using encapsLoop_writes [OF any [unfolded encapsulateAny_def]] off fr(2) assms(5,6) by (auto simp: nth_append)
  obtain m where m: "n = int m" using w(2) nonneg_int_cases by blast
  have "get8 (drop off bufn) 0 = Some 0x45"
    using fr(3) w(1,4) off fr(2) by (simp add: get8_nth del: One_nat_def split: if_splits)
  moreover obtain i F where "encaps4Finish (ucast (ndProto (nodes h ! i))) (int m) (drop off bufn) = Some F"
    "buf' = take off bufn @ F" using fin m by blast
  moreover have "m + 20 \<le> length (drop off bufn)" "m + 20 \<le> 65535" using w(1,3) m assms(4) by auto
  moreover have "nat tot = m + 20" using n(1) m by simp
  ultimately show ?thesis using encaps4Finish_complete [of _ m "drop off bufn" F] w(1) off by auto
qed

end

section \<open>The receiving side\<close>

lemma ip4_complete_validates:
  assumes "ip4_complete proto pkt" "vldFlags v AND ValidateEvilBit = 0"
  shows "ip4_ValidateExceptCRC pkt v = Some v"
proof -
  let ?l = "of_nat (length pkt) :: u16"
  have len: "20 \<le> length pkt" "length pkt \<le> 65535" "ip4_TotalLength pkt = Some ?l"
    and b0: "get8 pkt 0 = Some 0x45"
    using assms(1) by (auto simp: ip4_complete_def)
  have l: "unat ?l = length pkt" using len(2) by (simp add: unat_of_nat)
  have "\<not> uint ?l < 20" "\<not> uint ?l > int (length pkt)" using l len(1) uint_int_unat [of ?l] by linarith+
  moreover have "\<not> (ucast (5 :: u8) * 4 > ?l)"
    using l len(1) by (simp add: word_less_nat_alt)
  ultimately have "ip4_ValidateSize pkt v = Some v"
    using len(3) version_ihl(3) [OF b0] by (simp add: ip4_ValidateSize_def ip4_sizeHeader_def)
  moreover obtain f where "get16 pkt 6 = Some f" using len(1) get_be_Some [of 6 2 pkt] by fastforce
  ultimately show ?thesis
    using version_ihl(2) [OF b0] assms(2) by (simp add: ip4_ValidateExceptCRC_def ip4_Flags_def)
qed

lemma demux4_complete:
  assumes "ip4_complete proto pkt" "ip4_DestinationAddr pkt = Some dst" "ip4_forUs R dst"
    and "vldFlags (si4Vld R) AND ValidateEvilBit = 0" "nodeByProto J (si4Handlers R) (ucast proto) = Some i"
  shows "demux4 J R pkt 0 = do {
    (h, gone, err) \<leftarrow> nodeDemux J (si4Handlers R) i pkt 20;
    Some (R\<lparr>si4Vld := vld_ResetErr (si4Vld R), si4Handlers := h\<rparr>, err) }"
proof -
  let ?v = "vld_ResetErr (si4Vld R)" and ?l = "of_nat (length pkt) :: u16"
  have c: "20 \<le> length pkt" "length pkt \<le> 65535" "get8 pkt 0 = Some 0x45" "ip4_TotalLength pkt = Some ?l"
    "ip4_Protocol pkt = Some proto" "ip4_CalculateHeaderCRC pkt = Some 0"
    using assms(1) by (auto simp: ip4_complete_def)
  have clean: "vld_clean ?v" "vldFlags ?v AND ValidateEvilBit = 0" "vld_ErrPop ?v = (?v, None)"
    using assms(4) by (simp_all add: vld_ResetErr_def vld_clean_def vld_ErrPop_def)
  have t: "demux4Transport ?v pkt proto = Some (?v, None)"
    using assms(1) clean(1) by (simp add: ip4_complete_def)
  have "uint ?l = int (length pkt)" using c(2) uint_int_unat [of ?l] by (simp add: unat_of_nat)
  then have sl: "go_slice pkt 0 (uint ?l) = Some pkt" "go_slice pkt 0 (int (length pkt)) = Some pkt"
    using go_slice_int [of pkt 0 "length pkt"] by simp_all
  have nf: "ip4_NewFrame pkt = (pkt, None)" using c(1) by (simp add: ip4_NewFrame_def ip4_sizeHeader_def)
  show ?thesis
    using sl nf assms(2,3,5) clean(3) t c(4-6) version_ihl(1) [OF c(3)]
      ip4_complete_validates [OF assms(1) clean(2)]
    by (simp add: demux4_def demux4Valid_def)
qed

text \<open>
  C25. What one stack sends, the other accepts: every packet \<open>encapsulate4\<close> produces, for whatever
  node it collected the segment from, passes all the checks of \<open>demux4\<close> in a stack that the packet
  is addressed to (header checksum, length and version fields, TCP or UDP checksum) and is handed,
  unchanged and whole, to the node registered there for its protocol.
\<close>

theorem ip4_sent_packet_is_accepted:
  assumes "ip_client I okS room" "encapsulate4 I si buf (int off) = Some (si', buf', tot, err)" "tot \<noteq> 0"
    and "length (ip4Addr si) = 4" "length buf - off \<le> 65535" "room \<le> 48" "nodes_inv okS (si4Handlers si)"
    and "pkt = take (nat tot) (drop off buf')" "ip4_Protocol pkt = Some proto"
    and "ip4_DestinationAddr pkt = Some dst" "ip4_forUs R dst" "vldFlags (si4Vld R) AND ValidateEvilBit = 0"
    and "nodeByProto J (si4Handlers R) (ucast proto) = Some i"
  shows "demux4 J R pkt 0 = do {
    (h, gone, err) \<leftarrow> nodeDemux J (si4Handlers R) i pkt 20;
    Some (R\<lparr>si4Vld := vld_ResetErr (si4Vld R), si4Handlers := h\<rparr>, err) }"
proof -
  obtain proto' where "ip4_complete proto' pkt"
    using ip_client.encapsulate4_complete [OF assms(1-7)] assms(8) by blast
  moreover from this have "proto' = proto" using assms(9) by (simp add: ip4_complete_def)
  ultimately show ?thesis using demux4_complete assms(10-13) by blast
qed

section \<open>What gets through\<close>

lemma AddError_clean_iff: "vld_clean (if c then vld_AddError e v else v) \<longleftrightarrow> \<not> c \<and> vld_clean v"
  by simp

lemma udp_ValidateSize_clean: "udp_ValidateSize u v = Some v' \<Longrightarrow> vld_clean v' \<Longrightarrow> v' = v"
  by (auto simp: udp_ValidateSize_def Let_def split: bind_splits if_splits)

lemma demux4Transport_ok:
  assumes "demux4Transport v frm proto = Some (v', None)" "vld_clean v"
  shows "v' = v"
proof -
  have pop: "w' = w" if "vld_ErrPop w = (w', None)" for w w'
    using that by (auto simp: vld_ErrPop_def split: list.splits)
  have "w' = v" if "udp_ValidateSize u v = Some w" "vld_ErrPop w = (w', None)" for u w w'
    using that pop [OF that(2)] udp_ValidateSize_clean [of u v w] ErrPop_None_iff [of w] by simp
  then show ?thesis
    using assms by (auto simp: demux4Transport_def split: if_splits bind_splits prod.splits option.splits)
qed

text \<open>The packet is the first part of the frame, and all the fields lie in it.\<close>

lemma ip4_prefix_fields:
  assumes "20 \<le> k" "k \<le> length frm"
  shows "get8 (take k frm) 0 = get8 frm 0" "get16 (take k frm) 2 = get16 frm 2" "get8 (take k frm) 9 = get8 frm 9"
    and "get_bytes 8 (take k frm) 12 = get_bytes 8 frm 12" "get_bytes 4 (take k frm) 16 = get_bytes 4 frm 16"
    and "ip4_CalculateHeaderCRC (take k frm) = ip4_CalculateHeaderCRC frm"
  using assms get_be_header [of 0 1 k frm "[]"] get_be_header [of 2 2 k frm "[]"] get_be_header [of 9 1 k frm "[]"]
    get_bytes_header [of 12 8 k frm "[]"] get_bytes_header [of 16 4 k frm "[]"]
  by (simp_all add: ip4_CalculateHeaderCRC_eq min_def)

lemma demux4Transport_prefix:
  assumes "20 \<le> unat l" "unat l \<le> length frm" "ip4_TotalLength frm = Some l"
  shows "demux4Transport v (take (unat l) frm) proto = demux4Transport v frm proto"
proof -
  note f = ip4_prefix_fields [OF assms(1,2)]
  have "uint l \<le> int (length frm)" using assms(2) uint_int_unat [of l] by linarith
  moreover have "ip4_HeaderLength (take (unat l) frm) = ip4_HeaderLength frm"
    "ip4_TotalLength (take (unat l) frm) = Some l"
    using f(1,2) assms(3) by (simp_all add: ip4_field_defs)
  moreover have "go_slice (take (unat l) frm) x (uint l) = go_slice frm x (uint l)" if "uint l \<le> int (length frm)" for x
    using that assms(2) by (cases "0 \<le> x \<and> x \<le> uint l") (auto simp: go_slice_def drop_take nat_diff_distrib)
  ultimately have p: "ip4_Payload (take (unat l) frm) = ip4_Payload frm"
    using assms(3) by (simp add: ip4_Payload_def)
  have c: "ip4_CRCWriteTCPPseudo (take (unat l) frm) c = ip4_CRCWriteTCPPseudo frm c"
    "ip4_CRCWriteUDPPseudo (take (unat l) frm) c x = ip4_CRCWriteUDPPseudo frm c x" for c x
    using f by (simp_all add: ip4_CRCWriteTCPPseudo_def ip4_CRCWriteUDPPseudo_def ip4_field_defs)
  show ?thesis unfolding demux4Transport_def p c ..
qed

lemma demux4Valid_delivers:
  assumes "demux4Valid I si frm = Some (si', err)" "si4Handlers si' \<noteq> si4Handlers si" "20 \<le> length frm"
  obtains v hl l proto i gone where "ip4_ValidateExceptCRC frm (vld_ResetErr (si4Vld si)) = Some v" "vld_clean v"
    and "ip4_CalculateHeaderCRC frm = Some 0" "ip4_HeaderLength frm = Some hl" "ip4_Protocol frm = Some proto"
    and "nodeByProto I (si4Handlers si) (ucast proto) = Some i" "demux4Transport v frm proto = Some (v, None)"
    and "ip4_TotalLength frm = Some l"
    and "nodeDemux I (si4Handlers si) i (take (unat l) frm) hl = Some (si4Handlers si', gone, err)"
proof -
  obtain v where v: "ip4_ValidateExceptCRC frm (vld_ResetErr (si4Vld si)) = Some v"
    using assms(1) by (auto simp: demux4Valid_def split: bind_splits)
  have clean: "vld_clean v" "vld_ErrPop v = (v, None)"
    using assms(1,2) v by (auto simp: demux4Valid_def vld_ErrPop_def vld_clean_def split: list.splits)
  obtain hl proto l where f: "ip4_HeaderLength frm = Some hl" "ip4_Protocol frm = Some proto" "ip4_TotalLength frm = Some l"
  proof -
    obtain b p w where "get8 frm 0 = Some b" "get8 frm 9 = Some p" "get16 frm 2 = Some w"
      using assms(3) get_be_Some [of 0 1 frm] get_be_Some [of 9 1 frm] get_be_Some [of 2 2 frm] by auto
    then show ?thesis using that by (simp add: ip4_field_defs)
  qed
  obtain i v' pkt gone where r: "ip4_CalculateHeaderCRC frm = Some 0"
    "nodeByProto I (si4Handlers si) (ucast proto) = Some i" "demux4Transport v frm proto = Some (v', None)"
    "go_slice frm 0 (uint l) = Some pkt" "nodeDemux I (si4Handlers si) i pkt hl = Some (si4Handlers si', gone, err)"
    using assms(1,2) v clean f by (auto simp: demux4Valid_def Let_def split: bind_splits if_splits option.splits)
  moreover have "v' = v" using demux4Transport_ok [OF r(3) clean(1)] .
  moreover have "pkt = take (unat l) frm" using r(4) by (simp add: go_slice_Some_iff)
  ultimately show ?thesis using that v clean(1) f by blast
qed


end
