(* ===== verification/Rst_Queue.thy ===== *)
theory Rst_Queue
  imports Ip_Internal Tcp_Frame
begin

text \<open>
  \<open>tcp/rst.go\<close>: the queue of resets that answer segments for which there is no connection.
  \<open>Drain\<close> writes one of them into a frame whose IP header the layer below has begun.
\<close>

section \<open>Model\<close>

record rstEntry =
  rstAddr :: bytes
  rstRemotePort :: u16
  rstLocalPort :: u16
  rstSeq :: Value
  rstAck :: Value
  rstFlags :: Flags

text \<open>\<open>rstBuf\<close> is an array of four entries.\<close>

record RSTQueue =
  rstBuf :: "rstEntry list"
  rstLen :: u8

definition rstQueue_zero :: RSTQueue where
  "rstQueue_zero = \<lparr>rstBuf = replicate 4 \<lparr>rstAddr = replicate 4 0, rstRemotePort = 0, rstLocalPort = 0,
     rstSeq = 0, rstAck = 0, rstFlags = 0\<rparr>, rstLen = 0\<rparr>"

definition rst_Queue ::
    "RSTQueue \<Rightarrow> bytes \<Rightarrow> u16 \<Rightarrow> u16 \<Rightarrow> Value \<Rightarrow> Value \<Rightarrow> Flags \<Rightarrow> RSTQueue" where
  "rst_Queue q srcaddr rport lport seq ack flags =
     (if length srcaddr = 4 \<and> rstLen q < of_nat (length (rstBuf q))
      then q\<lparr>rstBuf := (rstBuf q)[unat (rstLen q) := \<lparr>rstAddr = srcaddr, rstRemotePort = rport,
               rstLocalPort = lport, rstSeq = seq, rstAck = ack, rstFlags = flags\<rparr>],
             rstLen := rstLen q + 1\<rparr>
      else q)"

definition rst_Pending :: "RSTQueue \<Rightarrow> int" where
  "rst_Pending q = uint (rstLen q)"

text \<open>The TCP header of a reset.\<close>

definition rst_header :: "rstEntry \<Rightarrow> bytes \<Rightarrow> bytes option" where
  "rst_header e frm = do {
     frm \<leftarrow> tcp_SetSourcePort frm (rstLocalPort e);
     frm \<leftarrow> tcp_SetDestinationPort frm (rstRemotePort e);
     frm \<leftarrow> tcp_SetSegment frm \<lparr>SEQ = rstSeq e, ACK = rstAck e, DATALEN = 0, WND = 0, SegFlags = rstFlags e\<rparr> 5;
     tcp_SetUrgentPtr frm 0
   }"

definition rst_Drain ::
    "RSTQueue \<Rightarrow> bytes \<Rightarrow> int \<Rightarrow> int \<Rightarrow> (RSTQueue \<times> bytes \<times> int \<times> goerror option) option" where
  "rst_Drain q carrier oip off =
     (if rstLen q = 0 \<or> oip < 0 then Some (q, carrier, 0, None)
      else do {
        let q = q\<lparr>rstLen := rstLen q - 1\<rparr>;
        let e = rstBuf q ! unat (rstLen q);
        frm \<leftarrow> go_slice carrier off (int (length carrier));
        if snd (tcp_NewFrame frm) \<noteq> None then Some (q, carrier, 0, None)
        else do {
          frm \<leftarrow> rst_header e frm;
          let carrier = take (nat off) carrier @ frm;
          _ \<leftarrow> go_slice carrier oip off;
          (ip, err) \<leftarrow> SetIPAddrs (drop (nat oip) carrier) (nat (off - oip)) 0 None (Some (rstAddr e));
          let carrier = take (nat oip) carrier @ ip;
          Some (q, carrier, if err \<noteq> None then 0 else sizeHeaderTCP, None)
        }
      })"

section \<open>Invariant\<close>

text \<open>Four entries of IPv4 addresses, of which the first \<open>len\<close> are pending.\<close>

definition rst_ok :: "RSTQueue \<Rightarrow> bool" where
  "rst_ok q \<longleftrightarrow> length (rstBuf q) = 4 \<and> unat (rstLen q) \<le> 4 \<and> (\<forall>e \<in> set (rstBuf q). length (rstAddr e) = 4)"

definition rst_pending :: "RSTQueue \<Rightarrow> rstEntry list" where
  "rst_pending q = take (unat (rstLen q)) (rstBuf q)"

lemma rst_ok_zero [simp]: "rst_ok rstQueue_zero" "rst_pending rstQueue_zero = []"
  by (simp_all add: rst_ok_def rst_pending_def rstQueue_zero_def)

lemma rst_Queue_pending:
  assumes "rst_ok q"
  shows "rst_ok (rst_Queue q a rp lp s k f)"
    and "rst_pending (rst_Queue q a rp lp s k f) =
      (if length a = 4 \<and> length (rst_pending q) < 4
       then rst_pending q @ [\<lparr>rstAddr = a, rstRemotePort = rp, rstLocalPort = lp, rstSeq = s, rstAck = k, rstFlags = f\<rparr>]
       else rst_pending q)"
proof -
  let ?e = "\<lparr>rstAddr = a, rstRemotePort = rp, rstLocalPort = lp, rstSeq = s, rstAck = k, rstFlags = f\<rparr>"
  have len: "length (rstBuf q) = 4" "unat (rstLen q) \<le> 4" "\<forall>e \<in> set (rstBuf q). length (rstAddr e) = 4"
    using assms by (auto simp: rst_ok_def)
  have lt: "rstLen q < of_nat (length (rstBuf q)) \<longleftrightarrow> unat (rstLen q) < 4"
    using len(1) by (simp add: word_less_nat_alt)
  have pl: "length (rst_pending q) = unat (rstLen q)" using len by (simp add: rst_pending_def)
  have suc: "unat (rstLen q + 1) = Suc (unat (rstLen q))" if "unat (rstLen q) < 4"
    using that by (simp add: unat_word_ariths)
  show "rst_ok (rst_Queue q a rp lp s k f)"
    using len suc lt by (auto simp: rst_Queue_def rst_ok_def dest!: set_update_subset_insert [THEN subsetD])
  show "rst_pending (rst_Queue q a rp lp s k f) = (if length a = 4 \<and> length (rst_pending q) < 4
       then rst_pending q @ [?e] else rst_pending q)"
    using len(1) suc lt pl by (simp add: rst_Queue_def rst_pending_def take_Suc_conv_app_nth)
qed

section \<open>Draining\<close>

lemma rst_header_ok:
  assumes "20 \<le> length frm" "rstFlags e = Mask (rstFlags e)"
  obtains frm' where "rst_header e frm = Some frm'" "length frm' = length frm"
    "drop 20 frm' = drop 20 frm" "tcp_SourcePort frm' = Some (rstLocalPort e)" "tcp_DestinationPort frm' = Some (rstRemotePort e)"
    "tcp_Segment frm' 0 = Some \<lparr>SEQ = rstSeq e, ACK = rstAck e, DATALEN = 0, WND = 0, SegFlags = rstFlags e\<rparr>"
    "tcp_HeaderLength frm' = Some 20"
proof -
  let ?f1 = "patch 0 (be_enc 2 (rstLocalPort e)) frm"
  let ?f2 = "patch 2 (be_enc 2 (rstRemotePort e)) ?f1"
  let ?seg = "\<lparr>SEQ = rstSeq e, ACK = rstAck e, DATALEN = 0, WND = 0, SegFlags = rstFlags e\<rparr>"
  have l2: "20 \<le> length ?f2" using assms(1) by simp
  obtain f3 where f3: "tcp_SetSegment ?f2 ?seg 5 = Some f3" "tcp_Segment f3 0 = Some ?seg"
    "tcp_HeaderLength f3 = Some 20" "length f3 = length ?f2" "tcp_SourcePort f3 = tcp_SourcePort ?f2"
    "tcp_DestinationPort f3 = tcp_DestinationPort ?f2" "drop 16 f3 = drop 16 ?f2"
    using SetSegment_reads [OF l2, of 5 ?seg 0] assms(2) by auto
  let ?f4 = "patch 18 (be_enc 2 (0 :: u16)) f3"
  have len: "length f3 = length frm" using f3(4) assms(1) by simp
  have "drop 20 f3 = drop 20 frm"
    using arg_cong [OF f3(7), of "drop 4"] assms(1) by (simp add: drop_patch_after)
  then have "drop 20 ?f4 = drop 20 frm" using len assms(1) by (simp add: drop_patch_after)
  moreover have "rst_header e frm = Some ?f4"
    using assms(1) f3(1) len by (simp add: rst_header_def tcp_field_defs frame_access)
  moreover have "tcp_SourcePort ?f4 = Some (rstLocalPort e)" "tcp_DestinationPort ?f4 = Some (rstRemotePort e)"
    using f3(5,6) len assms(1) by (simp_all add: tcp_field_defs frame_access)
  moreover have "tcp_Segment ?f4 0 = Some ?seg" "tcp_HeaderLength ?f4 = Some 20"
    using f3(2,3) len assms(1)
    by (simp_all add: tcp_Segment_def tcp_HeaderLength_def tcp_field_defs frame_access)
  ultimately show ?thesis using that [of ?f4] len assms(1) by simp
qed

lemma drop_take_append: "k \<le> length xs \<Longrightarrow> drop k (take k xs @ ys) = ys"
  by simp

lemma rst_header_length: "rst_header e frm = Some frm' \<Longrightarrow> length frm' = length frm"
  by (auto simp: rst_header_def tcp_SetSegment_def tcp_field_defs put_be_def split: bind_splits if_splits)

text \<open>Whatever the frame, \<open>Drain\<close> stays inside it and leaves the first byte of the IP header alone.\<close>

lemma rst_Drain_writes:
  assumes "rst_Drain q buf oip off = Some (q', buf', n, err)" "0 \<le> oip" "oip < off" "off \<le> int (length buf)"
  shows "length buf' = length buf \<and> 0 \<le> n \<and> off + n \<le> int (length buf) \<and> buf' ! nat oip = buf ! nat oip"
proof (cases "rstLen q = 0 \<or> snd (tcp_NewFrame (drop (nat off) buf)) \<noteq> None")
  case True
  then show ?thesis using assms by (auto simp: rst_Drain_def Let_def go_slice_def split: if_splits)
next
  case False
  let ?frm = "drop (nat off) buf" and ?e = "rstBuf q ! unat (rstLen q - 1)"
  have len: "off + 20 \<le> int (length buf)"
    using False assms(2-4) by (auto simp: tcp_NewFrame_def sizeHeaderTCP_def split: if_splits)
  obtain frm ip err' where r: "rst_header ?e ?frm = Some frm"
    "SetIPAddrs (drop (nat oip) (take (nat off) buf @ frm)) (nat (off - oip)) 0 None (Some (rstAddr ?e)) = Some (ip, err')"
    "buf' = take (nat oip) (take (nat off) buf @ frm) @ ip" "n = (if err' \<noteq> None then 0 else 20)"
    using assms False by (auto simp: rst_Drain_def Let_def go_slice_def sizeHeaderTCP_def split: bind_splits if_splits)
  let ?b = "take (nat off) buf @ frm"
  have b: "length ?b = length buf" "nat oip < length ?b" "?b ! nat oip = buf ! nat oip"
    using rst_header_length [OF r(1)] assms(2-4) len by (simp_all add: nth_append)
  have "get8 ip 0 = get8 (drop (nat oip) ?b) 0" and ip: "length ip = length buf - nat oip"
    using SetIPAddrs_writes [OF r(2)] b(1) by (simp_all del: drop_append)
  then have "be_dec [ip ! 0] = (be_dec [?b ! nat oip] :: u8)"
    using b(1,2) ip by (simp add: get_be_def take_Suc_conv_app_nth del: drop_append split: if_splits)
  then have "ip ! 0 = ?b ! nat oip" by (simp add: be_dec_def)
  then show ?thesis using r(3,4) b ip len assms(2-4) by (auto simp: nth_append simp del: take_append)
qed

text \<open>A reset in a frame with a begun IPv4 header.\<close>

lemma rst_Drain_v4:
  assumes "rst_ok q" "rst_pending q = es @ [e]" "rstFlags e = Mask (rstFlags e)"
    and "get8 (drop oip buf) 0 = Some b0" "drop_bit 4 b0 = (4 :: u8)" "off = oip + 20" "off + 20 \<le> length buf"
  obtains q' buf' where "rst_Drain q buf (int oip) (int off) = Some (q', buf', 20, None)"
    "rst_ok q'" "rst_pending q' = es" "length buf' = length buf"
    "take (oip + 16) buf' = take (oip + 16) buf" "drop (off + 20) buf' = drop (off + 20) buf"
    "get_bytes 4 (drop oip buf') 16 = Some (rstAddr e)"
    "tcp_SourcePort (drop off buf') = Some (rstLocalPort e)" "tcp_DestinationPort (drop off buf') = Some (rstRemotePort e)"
    "tcp_Segment (drop off buf') 0 = Some \<lparr>SEQ = rstSeq e, ACK = rstAck e, DATALEN = 0, WND = 0, SegFlags = rstFlags e\<rparr>"
    "tcp_HeaderLength (drop off buf') = Some 20"
proof -
  have q: "length (rstBuf q) = 4" "unat (rstLen q) \<le> 4" "\<forall>e \<in> set (rstBuf q). length (rstAddr e) = 4"
    using assms(1) by (auto simp: rst_ok_def)
  have len: "unat (rstLen q) = Suc (length es)" using assms(2) q by (simp add: rst_pending_def) (metis length_append_singleton length_take min.absorb2)
  have nz: "rstLen q \<noteq> 0" using len by auto
  have u1: "unat (rstLen q - 1) = length es" using len nz by (simp add: unat_minus_one)
  have e: "rstBuf q ! length es = e" "length (rstAddr e) = 4"
  proof -
    have "take (Suc (length es)) (rstBuf q) = es @ [e]" using assms(2) len by (simp add: rst_pending_def)
    then show "rstBuf q ! length es = e" by (metis lessI nth_append_length nth_take)
    then show "length (rstAddr e) = 4" using q(1,3) len q(2) nth_mem [of "length es" "rstBuf q"] by auto
  qed
  have fl: "20 \<le> length (drop off buf)" using assms(7) by simp
  obtain frm where frm: "rst_header e (drop off buf) = Some frm" "length frm = length (drop off buf)"
    "drop 20 frm = drop 20 (drop off buf)" "tcp_SourcePort frm = Some (rstLocalPort e)"
    "tcp_DestinationPort frm = Some (rstRemotePort e)"
    "tcp_Segment frm 0 = Some \<lparr>SEQ = rstSeq e, ACK = rstAck e, DATALEN = 0, WND = 0, SegFlags = rstFlags e\<rparr>"
    "tcp_HeaderLength frm = Some 20"
    by (rule rst_header_ok [OF fl assms(3)])
  let ?b = "take off buf @ frm" and ?q = "q\<lparr>rstLen := rstLen q - 1\<rparr>"
  let ?ip = "patch 16 (rstAddr e) (drop oip ?b)"
  have ip: "SetIPAddrs (drop oip ?b) 20 0 None (Some (rstAddr e)) = Some (?ip, None)"
  proof (rule SetIPAddrs_dst4)
    show "get8 (drop oip ?b) 0 = Some b0" using assms(4,6,7) by (simp add: get_be_def drop_take split: if_splits)
  qed (use assms(5-7) frm(2) e(2) in simp_all)
  let ?r = "take oip ?b @ ?ip"
  have "rst_Drain q buf (int oip) (int off) = Some (?q, ?r, 20, None)"
  proof -
    have "off \<le> length buf" "\<not> length buf - off < 20" "off - oip = 20" "oip \<le> off" using assms(6,7) by auto
    then show ?thesis using nz u1 e(1) frm(1) ip
      by (simp add: rst_Drain_def tcp_NewFrame_def sizeHeaderTCP_def Let_def)
  qed
  moreover have "rst_ok ?q" "rst_pending ?q = es"
  proof -
    have "take (length es) (rstBuf q) = take (length es) (take (Suc (length es)) (rstBuf q))" by simp
    also have "\<dots> = es" using assms(2) len by (simp add: rst_pending_def del: take_take)
    finally show "rst_pending ?q = es" using u1 by (simp add: rst_pending_def)
    show "rst_ok ?q" using q u1 len by (simp add: rst_ok_def)
  qed
  moreover have drop: "drop off ?r = frm" using assms(6,7) e(2) frm(2) by (simp add: patch_def)
  moreover have "drop (off + 20) ?r = drop (off + 20) buf"
    using arg_cong [OF drop, of "drop 20"] frm(3) by (simp only: drop_drop add.commute [of off 20])
  moreover have "take (oip + 16) ?r = take (oip + 16) buf"
  proof (rule nth_equalityI)
    show "length (take (oip + 16) ?r) = length (take (oip + 16) buf)"
      using assms(6,7) e(2) frm(2) by simp
    show "take (oip + 16) ?r ! i = take (oip + 16) buf ! i" if "i < length (take (oip + 16) ?r)" for i
      using that assms(6,7) e(2) frm(2) by (auto simp: nth_append nth_patch)
  qed
  moreover have "get_bytes 4 (drop oip ?r) 16 = Some (rstAddr e)"
  proof -
    have l: "oip \<le> length ?b" "16 + length (rstAddr e) \<le> length (drop oip ?b)"
      using assms(6,7) e(2) frm(2) by simp_all
    show ?thesis unfolding drop_take_append [OF l(1)]
      by (rule get_bytes_patch_same [OF l(2)]) (simp add: e(2))
  qed
  moreover have "length ?r = length buf" using assms(6,7) e(2) frm(2) by simp
  ultimately show ?thesis using frm(4-7) by (intro that [of ?q ?r]) (simp_all only: drop)
qed

end
