(* ===== verification/Inet_Ports.thy ===== *)
theory Inet_Ports
  imports Inet_Ip4_Props Rst_Queue
begin

text \<open>
  \<open>internet/stack-ports.go\<close> and \<open>internet/stack-udpport.go\<close>: the layer between IP and the
  connections. \<open>StackPorts\<close> dispatches on the destination port and answers a SYN to a port nobody
  listens on with a reset; \<open>StackPortsMACFiltered\<close> also fills in the hardware address of the peer;
  \<open>StackUDPPort\<close> puts a UDP header around the payload of one node.
\<close>

section \<open>StackPorts\<close>

record 'n StackPorts =
  spConnID :: u64
  spHandlers :: "'n handlers"
  dstPortOff :: u16
  spProtocol :: u16
  spRst :: RSTQueue

definition sp_Reset ::
    "(nat \<Rightarrow> nat) \<Rightarrow> 'n StackPorts \<Rightarrow> u64 \<Rightarrow> u16 \<Rightarrow> u16 \<Rightarrow> ('n StackPorts \<times> goerror option) option" where
  "sp_Reset grow ps protocol dstPortOffset maxNodes =
     (if protocol > 0xffff then Some (ps, Some (Generic ErrInvalidConfig))
      else do {
        h \<leftarrow> hs_reset grow (spHandlers ps) (uint maxNodes);
        Some (\<lparr>spConnID = spConnID ps + 1, spHandlers = h, dstPortOff = dstPortOffset,
               spProtocol = ucast protocol, spRst = rstQueue_zero\<rparr>, None)
      })"

definition sp_ResetUDP ::
    "(nat \<Rightarrow> nat) \<Rightarrow> 'n StackPorts \<Rightarrow> u16 \<Rightarrow> ('n StackPorts \<times> goerror option) option" where
  "sp_ResetUDP grow ps maxNodes = sp_Reset grow ps (ucast IPProtoUDP) 2 maxNodes"

definition sp_ResetTCP ::
    "(nat \<Rightarrow> nat) \<Rightarrow> 'n StackPorts \<Rightarrow> u16 \<Rightarrow> ('n StackPorts \<times> goerror option) option" where
  "sp_ResetTCP grow ps maxNodes = sp_Reset grow ps (ucast IPProtoTCP) 2 maxNodes"

definition sp_Encapsulate ::
    "'n StackNode \<Rightarrow> 'n StackPorts \<Rightarrow> bytes \<Rightarrow> int \<Rightarrow> int \<Rightarrow> ('n StackPorts \<times> bytes \<times> int \<times> goerror option) option" where
  "sp_Encapsulate I ps carrierData offsetToIP offsetToFrame =
     (if uint (dstPortOff ps) + offsetToFrame + 2 > int (length carrierData)
      then Some (ps, carrierData, 0, Some IoShortBuffer)
      else do {
        (h, carrierData, _, n, err) \<leftarrow> encapsulateAny I (spHandlers ps) carrierData offsetToIP offsetToFrame;
        let ps = ps\<lparr>spHandlers := h\<rparr>;
        if n = 0 then do {
          (q, carrierData, n, _) \<leftarrow> rst_Drain (spRst ps) carrierData offsetToIP offsetToFrame;
          Some (ps\<lparr>spRst := q\<rparr>, carrierData, n, err)
        }
        else Some (ps, carrierData, n, err)
      })"

text \<open>
  The reset for a SYN nobody wants (RFC 9293, 3.10.7.1). The buffer starts with the IP header and
  \<open>off\<close> is where the TCP header starts.
\<close>

definition queueReset :: "RSTQueue \<Rightarrow> bytes \<Rightarrow> nat \<Rightarrow> u16 \<Rightarrow> RSTQueue option" where
  "queueReset q b off port = do {
     w \<leftarrow> get16 (drop off b) 12;
     let flags = w AND 0x01ff;
     if flags AND 0x02 \<noteq> 0 \<and> flags AND (0x04 OR 0x10) = 0 then do {
       (srcaddr, _, _, _, iperr) \<leftarrow> GetIPAddr b (length b);
       if iperr = None then do {
         rport \<leftarrow> get16 (drop off b) 0;
         segSeq \<leftarrow> get32 (drop off b) 4;
         Some (rst_Queue q srcaddr rport port 0 (segSeq + 1) (FlagRST OR FlagACK))
       }
       else Some q
     }
     else Some q
   }"

definition sp_Demux :: "'n StackNode \<Rightarrow> 'n StackPorts \<Rightarrow> bytes \<Rightarrow> int \<Rightarrow> ('n StackPorts \<times> goerror option) option" where
  "sp_Demux I ps b offset =
     (if uint (dstPortOff ps) + offset + 2 > int (length b) then Some (ps, Some IoShortBuffer)
      else do {
        tail \<leftarrow> go_slice b (uint (dstPortOff ps) + offset) (int (length b));
        port \<leftarrow> get16 tail 0;
        (h, _, err) \<leftarrow> demuxByPort I (spHandlers ps) b offset port;
        let ps = ps\<lparr>spHandlers := h\<rparr>;
        if err = Some (Generic ErrPacketDrop) \<and> spProtocol ps = ucast IPProtoTCP \<and> offset + 14 \<le> int (length b)
        then do {
          _ \<leftarrow> go_slice b offset (int (length b));
          q \<leftarrow> queueReset (spRst ps) b (nat offset) port;
          Some (ps\<lparr>spRst := q\<rparr>, err)
        }
        else Some (ps, err)
      })"

definition sp_Register :: "'n StackNode \<Rightarrow> 'n StackPorts \<Rightarrow> 'n \<Rightarrow> ('n StackPorts \<times> goerror option) option" where
  "sp_Register I ps s =
     (if ifLocalPort I s \<le> 0 then Some (ps, Some (Generic ErrZeroSource))
      else if ifProtocol I s \<noteq> ucast (spProtocol ps) then Some (ps, Some (Generic ErrInvalidConfig))
      else do {
        nd \<leftarrow> nodeFromStackNode I s (ifLocalPort I s) (ifProtocol I s) [];
        let (h, err) = registerByPortProto I (spHandlers ps) nd;
        Some (ps\<lparr>spHandlers := h\<rparr>, err)
      })"

text \<open>\<open>StackPorts\<close> as a node of the layer below.\<close>

definition sp_node :: "'n StackNode \<Rightarrow> 'n StackPorts StackNode" where
  "sp_node I = \<lparr>ifProtocol = (\<lambda>ps. ucast (spProtocol ps)), ifLocalPort = (\<lambda>_. 0),
     ifConnID = (\<lambda>ps. Some (spConnID ps)), ifEncapsulate = sp_Encapsulate I, ifDemux = sp_Demux I\<rparr>"

section \<open>StackPortsMACFiltered\<close>

text \<open>The struct wraps a \<open>StackPorts\<close>; the methods it passes on are those of \<open>StackPorts\<close>.\<close>

definition mf_RegisterMACFiltered ::
    "'n StackNode \<Rightarrow> 'n StackPorts \<Rightarrow> 'n \<Rightarrow> bytes option \<Rightarrow> ('n StackPorts \<times> goerror option) option" where
  "mf_RegisterMACFiltered I ps s macAddr =
     (if ifLocalPort I s \<le> 0 then Some (ps, Some (Generic ErrZeroSource))
      else if ifProtocol I s \<noteq> ucast (spProtocol ps) then Some (ps, Some (Generic ErrInvalidConfig))
      else if macAddr \<noteq> None \<and> length (the macAddr) \<noteq> 6 then Some (ps, Some (Generic ErrInvalidAddr))
      else do {
        nd \<leftarrow> nodeFromStackNode I s (ifLocalPort I s) (ifProtocol I s) (case macAddr of None \<Rightarrow> [] | Some m \<Rightarrow> m);
        let (h, err) = registerByPortProto I (spHandlers ps) nd;
        Some (ps\<lparr>spHandlers := h\<rparr>, err)
      })"

text \<open>The hardware address of the peer, in the Ethernet header before the IP header.\<close>

definition setPeerMAC :: "bytes \<Rightarrow> int \<Rightarrow> bytes \<Rightarrow> bytes option" where
  "setPeerMAC carrierData offsetToIP mac =
     (if length mac = 6 \<and> offsetToIP \<ge> 14 then do {
        efrm \<leftarrow> go_slice carrierData (offsetToIP - 14) (int (length carrierData));
        _ \<leftarrow> eth_DestinationHardwareAddr (fst (eth_NewFrame efrm));
        put_bytes carrierData (nat (offsetToIP - 14)) mac
      }
      else Some carrierData)"

text \<open>
  The loop over the nodes from index \<open>i\<close> on, with \<open>k\<close> nodes to go: the nodes, the buffer, whether
  a node has sent, and the results.
\<close>

fun mfLoop ::
    "'n StackNode \<Rightarrow> nat \<Rightarrow> nat \<Rightarrow> 'n handlers \<Rightarrow> bytes \<Rightarrow> int \<Rightarrow> int \<Rightarrow> goerror option \<Rightarrow>
     ('n handlers \<times> bytes \<times> int \<times> goerror option) option" where
  "mfLoop I 0 i h buf oip off err = Some (h, buf, 0, err)"
| "mfLoop I (Suc k) i h buf oip off err =
     (let nd = nodes h ! i in
      if nd_IsInvalid I nd \<or> remoteAddr nd \<noteq> [] \<and> (\<forall>b \<in> set (remoteAddr nd). b = 0)
      then mfLoop I k (Suc i) h buf oip off err
      else do {
        s \<leftarrow> callbacks nd;
        (s, buf, n, err) \<leftarrow> ifEncapsulate I s buf oip off;
        let (nd, gone) = tryHandleError I (nd\<lparr>callbacks := Some s\<rparr>) err;
        let err = (if gone then None else err);
        let h = h\<lparr>nodes := (nodes h)[i := nd]\<rparr>;
        if n > 0 then do {
          buf \<leftarrow> setPeerMAC buf oip (remoteAddr nd);
          Some (h, buf, n, err)
        }
        else mfLoop I k (Suc i) h buf oip off err
      })"

definition mf_Encapsulate ::
    "'n StackNode \<Rightarrow> 'n StackPorts \<Rightarrow> bytes \<Rightarrow> int \<Rightarrow> int \<Rightarrow> ('n StackPorts \<times> bytes \<times> int \<times> goerror option) option" where
  "mf_Encapsulate I ps carrierData offsetToIP offsetToFrame =
     (if uint (dstPortOff ps) + offsetToFrame + 2 > int (length carrierData)
      then Some (ps, carrierData, 0, Some IoShortBuffer)
      else do {
        (h, carrierData, n, err) \<leftarrow> mfLoop I (length (nodes (spHandlers ps))) 0 (spHandlers ps) carrierData
           offsetToIP offsetToFrame None;
        let ps = ps\<lparr>spHandlers := h\<rparr>;
        if n > 0 then Some (ps, carrierData, n, err)
        else do {
          (q, carrierData, n, _) \<leftarrow> rst_Drain (spRst ps) carrierData offsetToIP offsetToFrame;
          let ps = ps\<lparr>spRst := q\<rparr>;
          if n > 0 then Some (ps, carrierData, n, None) else Some (ps, carrierData, 0, err)
        }
      })"

definition mf_node :: "'n StackNode \<Rightarrow> 'n StackPorts StackNode" where
  "mf_node I = (sp_node I)\<lparr>ifEncapsulate := mf_Encapsulate I\<rparr>"

section \<open>StackUDPPort\<close>

record 'n StackUDPPort =
  suNode :: "'n node"
  suVld :: Validator
  suRmport :: u16
  suRaddr :: bytes

definition su_SetStackNode ::
    "'n StackNode \<Rightarrow> 'n StackUDPPort \<Rightarrow> 'n \<Rightarrow> bytes \<Rightarrow> u16 \<Rightarrow> 'n StackUDPPort option" where
  "su_SetStackNode I su s raddr rmport = do {
     nd \<leftarrow> nodeFromStackNode I s (ifLocalPort I s) (ifProtocol I s) raddr;
     Some (su\<lparr>suNode := nd, suRmport := rmport, suRaddr := raddr\<rparr>)
   }"

text \<open>
  The source address test: a multicast peer is not tested. The IP header is \<open>carrierData[:off]\<close>.
\<close>

definition su_srcErr :: "'n StackUDPPort \<Rightarrow> bytes \<Rightarrow> nat \<Rightarrow> goerror option option" where
  "su_srcErr su carrierData off =
     (if suRaddr su \<noteq> [] \<and> \<not> IsMulticastIPAddr (suRaddr su) then do {
        (src, _, _, _, err) \<leftarrow> GetIPAddr carrierData off;
        Some (if err \<noteq> None then err else if src \<noteq> suRaddr su then Some (Generic ErrPacketDrop) else None)
      }
      else Some None)"

definition su_Demux ::
    "'n StackNode \<Rightarrow> 'n StackUDPPort \<Rightarrow> bytes \<Rightarrow> int \<Rightarrow> ('n StackUDPPort \<times> goerror option) option" where
  "su_Demux I su carrierData frameOffset =
     (if nd_IsInvalid I (suNode su) then Some (su\<lparr>suNode := nd_destroyed\<rparr>, Some NetClosed)
      else do {
        frm \<leftarrow> go_slice carrierData frameOffset (int (length carrierData));
        case udp_NewFrame frm of
          (_, Some err) \<Rightarrow> Some (su, Some err)
        | (ufrm, None) \<Rightarrow> do {
            vld \<leftarrow> udp_ValidateSize ufrm (suVld su);
            bad \<leftarrow> vld_HasError vld;
            if bad then let (vld, err) = vld_ErrPop vld in Some (su\<lparr>suVld := vld\<rparr>, err)
            else do {
              let su = su\<lparr>suVld := vld\<rparr>;
              dst \<leftarrow> udp_DestinationPort ufrm;
              if dst \<noteq> lport (suNode su) then Some (su, Some (Generic ErrPacketDrop))
              else do {
                srcErr \<leftarrow> su_srcErr su carrierData (nat frameOffset);
                src \<leftarrow> udp_SourcePort ufrm;
                if srcErr \<noteq> None then Some (su, srcErr)
                else if suRmport su \<noteq> 0 \<and> src \<noteq> suRmport su then Some (su, Some (Generic ErrPacketDrop))
                else do {
                  s \<leftarrow> callbacks (suNode su);
                  (s, err) \<leftarrow> ifDemux I s carrierData (frameOffset + 8);
                  let nd = (suNode su)\<lparr>callbacks := Some s\<rparr>;
                  Some (su\<lparr>suNode := (if err \<noteq> None \<and> checkNodeErr I nd err then nd_destroyed else nd)\<rparr>, err)
                }
              }
            }
          }
      })"

definition su_Encapsulate ::
    "'n StackNode \<Rightarrow> 'n StackUDPPort \<Rightarrow> bytes \<Rightarrow> int \<Rightarrow> int \<Rightarrow>
     ('n StackUDPPort \<times> bytes \<times> int \<times> goerror option) option" where
  "su_Encapsulate I su carrierData offsetToIP offsetToFrame =
     (if nd_IsInvalid I (suNode su) then Some (su\<lparr>suNode := nd_destroyed\<rparr>, carrierData, 0, Some NetClosed)
      else do {
        frm \<leftarrow> go_slice carrierData offsetToFrame (int (length carrierData));
        case udp_NewFrame frm of
          (_, Some err) \<Rightarrow> Some (su, carrierData, 0, Some err)
        | (ufrm, None) \<Rightarrow> do {
            ufrm \<leftarrow> udp_SetSourcePort ufrm (lport (suNode su));
            ufrm \<leftarrow> udp_SetDestinationPort ufrm (suRmport su);
            let carrierData = take (nat offsetToFrame) carrierData @ ufrm;
            (carrierData, err) \<leftarrow> (if suRaddr su \<noteq> [] \<and> offsetToIP \<ge> 0 then do {
                ip \<leftarrow> go_slice carrierData offsetToIP (int (length carrierData));
                (ip, err) \<leftarrow> SetIPAddrs ip (length ip) 0 None (Some (suRaddr su));
                Some (take (nat offsetToIP) carrierData @ ip, err)
              } else Some (carrierData, None));
            if err \<noteq> None then Some (su, carrierData, 0, err)
            else do {
              s \<leftarrow> callbacks (suNode su);
              (s, carrierData, n, err) \<leftarrow> ifEncapsulate I s carrierData offsetToIP (offsetToFrame + 8);
              Some (su\<lparr>suNode := (suNode su)\<lparr>callbacks := Some s\<rparr>\<rparr>, carrierData, if n = 0 then 0 else 8 + n, err)
            }
          }
      })"

text \<open>\<open>ConnectionID\<close> is the pointer the port copied from its node; it is nil once destroyed.\<close>

definition su_node :: "'n StackNode \<Rightarrow> 'n StackUDPPort StackNode" where
  "su_node I = \<lparr>ifProtocol = (\<lambda>_. ucast IPProtoUDP), ifLocalPort = (\<lambda>su. lport (suNode su)),
     ifConnID = (\<lambda>su. case callbacks (suNode su) of None \<Rightarrow> None | Some s \<Rightarrow> ifConnID I s),
     ifEncapsulate = su_Encapsulate I, ifDemux = su_Demux I\<rparr>"

section \<open>The layers as clients of the IP layer\<close>

text \<open>If the nodes on the ports keep to the contract of the IP layer, so does the port layer.\<close>

definition sp_ok :: "('n \<Rightarrow> bool) \<Rightarrow> 'n StackPorts \<Rightarrow> bool" where
  "sp_ok okS ps \<longleftrightarrow> nodes_inv okS (spHandlers ps)"

lemma sp_client:
  assumes "ip_client I okS room"
  shows "ip_client (sp_node I) (sp_ok okS) room"
proof
  fix ps buf oip off ps' buf' n err
  assume run: "ifEncapsulate (sp_node I) ps buf oip off = Some (ps', buf', n, err)"
    and ok: "sp_ok okS ps" and o: "0 \<le> oip" "oip + 20 \<le> off" "off + int room \<le> int (length buf)"
  show "sp_ok okS ps' \<and> length buf' = length buf \<and> 0 \<le> n \<and> off + n \<le> int (length buf) \<and>
      buf' ! nat oip = buf ! nat oip"
  proof (cases "uint (dstPortOff ps) + off + 2 > int (length buf)")
    case True
    then show ?thesis using run ok o by (auto simp: sp_node_def sp_Encapsulate_def)
  next
    case False
    then obtain h buf1 hn n1 err1 where e: "encapsulateAny I (spHandlers ps) buf oip off = Some (h, buf1, hn, n1, err1)"
      using run by (auto simp: sp_node_def sp_Encapsulate_def split: bind_splits)
    note w = ip_client.encapsLoop_writes [OF assms e [unfolded encapsulateAny_def] o]
    have w1: "length buf1 = length buf" "0 \<le> n1" "off + n1 \<le> int (length buf)" "buf1 ! nat oip = buf ! nat oip"
      "nodes_inv okS h" using w ok by (auto simp: sp_ok_def)
    show ?thesis
    proof (cases "n1 = 0")
      case True
      then obtain q where d: "rst_Drain (spRst ps) buf1 oip off = Some (q, buf', n, None) \<or>
          (\<exists>e. rst_Drain (spRst ps) buf1 oip off = Some (q, buf', n, e))" "ps' = ps\<lparr>spHandlers := h, spRst := q\<rparr>"
        using run False e by (auto simp: sp_node_def sp_Encapsulate_def Let_def split: bind_splits)
      then obtain e where "rst_Drain (spRst ps) buf1 oip off = Some (q, buf', n, e)" by blast
      from rst_Drain_writes [OF this o(1)] o show ?thesis using w1 d(2) by (auto simp: sp_ok_def)
    next
      case n: False
      then show ?thesis using run False e w1 by (auto simp: sp_node_def sp_Encapsulate_def sp_ok_def)
    qed
  qed
qed

definition su_ok :: "('n \<Rightarrow> bool) \<Rightarrow> 'n StackUDPPort \<Rightarrow> bool" where
  "su_ok okS su \<longleftrightarrow> (\<forall>s. callbacks (suNode su) = Some s \<longrightarrow> okS s)"

text \<open>Writing the addresses of an IP header inside a buffer.\<close>

lemma SetIPAddrs_inside:
  assumes "SetIPAddrs (drop i buf) n ident src dst = Some (ip, err)" "i < length buf"
  shows "length (take i buf @ ip) = length buf" "(take i buf @ ip) ! i = buf ! i"
proof -
  have len: "length ip = length buf - i" and b: "get8 ip 0 = get8 (drop i buf) 0"
    using SetIPAddrs_writes [OF assms(1)] by simp_all
  then have "ip ! 0 = drop i buf ! 0"
    using assms(2) by (simp add: get8_nth del: One_nat_def split: if_splits)
  then show "length (take i buf @ ip) = length buf" "(take i buf @ ip) ! i = buf ! i"
    using len assms(2) by (simp_all add: nth_append)
qed

lemma su_Encapsulate_cases:
  assumes "su_Encapsulate I su buf oip off = Some (su', buf', n, err)" "0 \<le> oip" "oip < off" "off + 8 \<le> int (length buf)"
  obtains (none) "n = 0" "su' = su \<or> suNode su' = nd_destroyed" "length buf' = length buf" "buf' ! nat oip = buf ! nat oip"
  | (child) s s' buf1 n1 where "callbacks (suNode su) = Some s" "length buf1 = length buf" "buf1 ! nat oip = buf ! nat oip"
      "ifEncapsulate I s buf1 oip (off + 8) = Some (s', buf', n1, err)" "n = (if n1 = 0 then 0 else 8 + n1)"
      "su' = su\<lparr>suNode := (suNode su)\<lparr>callbacks := Some s'\<rparr>\<rparr>"
proof (cases "nd_IsInvalid I (suNode su)")
  case True
  then show ?thesis using assms none by (auto simp: su_Encapsulate_def)
next
  case False
  let ?frm = "drop (nat off) buf"
  define u where "u = patch 2 (be_enc 2 (suRmport su)) (patch 0 (be_enc 2 (lport (suNode su))) ?frm)"
  define b where "b = take (nat off) buf @ u"
  have b: "length b = length buf" "nat oip < length b" "b ! nat oip = buf ! nat oip"
    using assms(2-4) by (simp_all add: b_def u_def nth_append)
  define step where "step = (if suRaddr su \<noteq> [] \<and> oip \<ge> 0 then do {
      ip \<leftarrow> go_slice b oip (int (length b));
      (ip, err) \<leftarrow> SetIPAddrs ip (length ip) 0 None (Some (suRaddr su));
      Some (take (nat oip) b @ ip, err)
    } else Some (b, None))"
  let ?child = "\<lambda>(buf, err). if err \<noteq> None then Some (su, buf, 0, err) else do {
      s \<leftarrow> callbacks (suNode su);
      (s, buf, n, err) \<leftarrow> ifEncapsulate I s buf oip (off + 8);
      Some (su\<lparr>suNode := (suNode su)\<lparr>callbacks := Some s\<rparr>\<rparr>, buf, if n = 0 then 0 else 8 + n, err) }"
  have eq: "su_Encapsulate I su buf oip off = step \<bind> ?child"
  proof -
    have "go_slice buf off (int (length buf)) = Some ?frm" "udp_NewFrame ?frm = (?frm, None)"
      using assms(2-4) by (simp_all add: go_slice_def udp_NewFrame_def udp_sizeHeader_def)
    moreover have "udp_SetSourcePort ?frm (lport (suNode su)) = Some (patch 0 (be_enc 2 (lport (suNode su))) ?frm)"
      "udp_SetDestinationPort (patch 0 (be_enc 2 (lport (suNode su))) ?frm) (suRmport su) = Some u"
      using assms(2-4) by (simp_all add: u_def udp_SetSourcePort_def udp_SetDestinationPort_def put_be_def)
    ultimately show ?thesis using False by (simp add: su_Encapsulate_def step_def b_def Let_def)
  qed
  then obtain b1 e1 where b1: "step = Some (b1, e1)" using assms(1) by (cases step) auto
  have w: "length b1 = length buf" "b1 ! nat oip = buf ! nat oip"
  proof -
    have sl: "go_slice b oip (int (length b)) = Some (drop (nat oip) b)"
      using b(2) assms(2) by (simp add: go_slice_def)
    have "length b1 = length b \<and> b1 ! nat oip = b ! nat oip"
    proof (cases "suRaddr su = []")
      case True
      then show ?thesis using b1 by (simp add: step_def)
    next
      case False
      then obtain ip where "SetIPAddrs (drop (nat oip) b) (length (drop (nat oip) b)) 0 None (Some (suRaddr su)) = Some (ip, e1)"
        "b1 = take (nat oip) b @ ip"
        using b1 sl assms(2) unfolding step_def by (auto split: bind_splits)
      then show ?thesis using SetIPAddrs_inside [OF _ b(2)] by blast
    qed
    then show "length b1 = length buf" "b1 ! nat oip = buf ! nat oip" using b by simp_all
  qed
  show ?thesis
  proof (cases e1)
    case None
    then show ?thesis using assms(1) eq b1 w child by (auto split: bind_splits)
  next
    case (Some e)
    then show ?thesis using assms(1) eq b1 w none by simp
  qed
qed

lemma su_client:
  assumes "ip_client I okS room"
  shows "ip_client (su_node I) (su_ok okS) (room + 8)"
proof
  fix su buf oip off su' buf' n err
  assume run: "ifEncapsulate (su_node I) su buf oip off = Some (su', buf', n, err)"
    and ok: "su_ok okS su" and o: "0 \<le> oip" "oip + 20 \<le> off" "off + int (room + 8) \<le> int (length buf)"
  have run': "su_Encapsulate I su buf oip off = Some (su', buf', n, err)" using run by (simp add: su_node_def)
  have o': "0 \<le> oip" "oip < off" "off + 8 \<le> int (length buf)" using o by linarith+
  from run' o' show "su_ok okS su' \<and> length buf' = length buf \<and> 0 \<le> n \<and> off + n \<le> int (length buf) \<and>
      buf' ! nat oip = buf ! nat oip"
  proof (cases rule: su_Encapsulate_cases)
    case none
    then show ?thesis using ok o by (auto simp: su_ok_def nd_destroyed_def)
  next
    case (child s s' buf1 n1)
    have "okS s" using ok child(1) by (simp add: su_ok_def)
    from ip_client.client_writes [OF assms child(4) this o(1)] show ?thesis
      using o child by (auto simp: su_ok_def)
  qed
qed

section \<open>A SYN to a closed port\<close>

text \<open>A TCP segment from \<open>src\<close> in an IPv4 packet, with its header at \<open>off\<close>.\<close>

definition syn_packet :: "bytes \<Rightarrow> nat \<Rightarrow> bytes \<Rightarrow> u16 \<Rightarrow> u16 \<Rightarrow> Value \<Rightarrow> bool" where
  "syn_packet pkt off src sport dport seq \<longleftrightarrow>
     20 \<le> length pkt \<and> off + 20 \<le> length pkt \<and> ip4_version pkt = Some 4 \<and> ip4_SourceAddr pkt = Some src \<and>
     tcp_SourcePort (drop off pkt) = Some sport \<and> tcp_DestinationPort (drop off pkt) = Some dport \<and>
     tcp_Seq (drop off pkt) = Some seq \<and>
     (\<exists>o' f. tcp_OffsetAndFlags (drop off pkt) = Some (o', f) \<and> HasAny f FlagSYN \<and> \<not> HasAny f (FlagRST OR FlagACK))"

lemma syn_packet_queues:
  assumes "syn_packet pkt off src sport dport seq"
  shows "queueReset q pkt off port = Some (rst_Queue q src sport port 0 (seq + 1) (FlagRST OR FlagACK))"
proof -
  obtain w where w: "get16 (drop off pkt) 12 = Some w"
    using assms get_be_Some [of 12 2 "drop off pkt"] by (fastforce simp: syn_packet_def)
  then have fl: "(w AND 0x01ff) AND 0x02 \<noteq> 0" "(w AND 0x01ff) AND (0x04 OR 0x10) = 0"
    using assms by (auto simp: syn_packet_def tcp_OffsetAndFlags_def HasAny_def Mask_def flag_defs)
  obtain b0 where b0: "get8 pkt 0 = Some b0" "drop_bit 4 b0 = 4"
    using assms by (auto simp: syn_packet_def ip4_field_defs split: bind_splits)
  obtain i where "get16 pkt 4 = Some i"
    using assms get_be_Some [of 4 2 pkt] by (fastforce simp: syn_packet_def)
  then have "\<exists>dst ident hl. GetIPAddr pkt (length pkt) = Some (src, dst, ident, hl, None)"
    using b0 assms by (auto simp: GetIPAddr_def syn_packet_def ip4_field_defs get_bytes_def)
  then show ?thesis
    using w fl assms by (auto simp: queueReset_def Let_def syn_packet_def tcp_field_defs)
qed

text \<open>
  C29. RFC 9293, 3.10.7.1: a SYN to a port nobody listens on is dropped and answered with a reset.
  The next time the layer is asked for a packet and no connection has one, it emits a TCP header
  of twenty bytes from that port to the port the SYN came from, with RST and ACK, acknowledging
  exactly the SYN, into a packet addressed to the sender of the SYN.
\<close>

theorem syn_to_closed_port_is_reset:
  assumes "syn_packet pkt off src sport dport seq" "nodeByPort I (spHandlers ps) dport = None"
    and "spProtocol ps = ucast IPProtoTCP" "dstPortOff ps = 2" "rst_ok (spRst ps)" "length (rst_pending (spRst ps)) < 4"
    and "encapsulateAny I (spHandlers ps) buf (int oip) (int (oip + 20)) = Some (h', buf, hn, 0, None)"
    and "oip + 40 \<le> length buf" "ip4_version (drop oip buf) = Some 4"
  shows "\<exists>ps1 ps2 buf'. sp_Demux I ps pkt (int off) = Some (ps1, Some (Generic ErrPacketDrop)) \<and>
    sp_Encapsulate I ps1 buf (int oip) (int (oip + 20)) = Some (ps2, buf', 20, None) \<and>
    ip4_DestinationAddr (drop oip buf') = Some src \<and>
    tcp_SourcePort (drop (oip + 20) buf') = Some dport \<and> tcp_DestinationPort (drop (oip + 20) buf') = Some sport \<and>
    tcp_Segment (drop (oip + 20) buf') 0 =
      Some \<lparr>SEQ = 0, ACK = seq + 1, DATALEN = 0, WND = 0, SegFlags = FlagRST OR FlagACK\<rparr> \<and>
    rst_pending (spRst ps2) = rst_pending (spRst ps)"
proof -
  have src: "length src = 4" and len: "off + 20 \<le> length pkt"
    using assms(1) by (auto simp: syn_packet_def ip4_field_defs get_bytes_def split: if_splits)
  let ?e = "\<lparr>rstAddr = src, rstRemotePort = sport, rstLocalPort = dport, rstSeq = 0, rstAck = seq + 1,
    rstFlags = FlagRST OR FlagACK\<rparr>"
  let ?q = "rst_Queue (spRst ps) src sport dport 0 (seq + 1) (FlagRST OR FlagACK)"
  have q: "rst_ok ?q" "rst_pending ?q = rst_pending (spRst ps) @ [?e]"
    using rst_Queue_pending [OF assms(5)] src assms(6) by simp_all
  have d: "sp_Demux I ps pkt (int off) = Some (ps\<lparr>spRst := ?q\<rparr>, Some (Generic ErrPacketDrop))"
  proof -
    have "go_slice pkt (2 + int off) (int (length pkt)) = Some (drop (off + 2) pkt)"
      using len go_slice_int [of pkt "off + 2" "length pkt"] by (simp add: add.commute)
    moreover have "get16 (drop (off + 2) pkt) 0 = Some dport"
      using assms(1) by (simp add: syn_packet_def tcp_field_defs get_be_def add.commute split: if_splits)
    ultimately show ?thesis
      using assms(2-4) len syn_packet_queues [OF assms(1)] by (simp add: sp_Demux_def demuxByPort_def Let_def)
  qed
  obtain b0 where b0: "get8 (drop oip buf) 0 = Some b0" "drop_bit 4 b0 = 4"
    using assms(9) by (auto simp: ip4_field_defs split: bind_splits)
  have fl: "rstFlags ?e = Mask (rstFlags ?e)" by (simp add: Mask_def flag_defs)
  have o: "oip + 20 + 20 \<le> length buf" using assms(8) by simp
  obtain q' buf' where r: "rst_Drain ?q buf (int oip) (int (oip + 20)) = Some (q', buf', 20, None)"
    "rst_pending q' = rst_pending (spRst ps)" "get_bytes 4 (drop oip buf') 16 = Some (rstAddr ?e)"
    "tcp_SourcePort (drop (oip + 20) buf') = Some (rstLocalPort ?e)"
    "tcp_DestinationPort (drop (oip + 20) buf') = Some (rstRemotePort ?e)"
    "tcp_Segment (drop (oip + 20) buf') 0 =
      Some \<lparr>SEQ = rstSeq ?e, ACK = rstAck ?e, DATALEN = 0, WND = 0, SegFlags = rstFlags ?e\<rparr>"
    by (rule rst_Drain_v4 [OF q fl b0 refl o])
  let ?ps = "ps\<lparr>spRst := ?q\<rparr>" and ?ps2 = "ps\<lparr>spRst := q', spHandlers := h'\<rparr>"
  have "sp_Encapsulate I ?ps buf (int oip) (int (oip + 20)) = Some (?ps2, buf', 20, None)"
    using assms(4,7,8) r(1) by (simp add: sp_Encapsulate_def Let_def)
  then show ?thesis using d r(2-6) by (auto simp: ip4_field_defs)
qed

end
