(* ===== verification/Inet_Tcp.thy ===== *)
theory Inet_Tcp
  imports Tcp_Conn Inet_Ports
begin

text \<open>
  TCP over IPv4: a \<open>tcp.Conn\<close> and the \<open>StackPorts\<close> it is registered with keep to the contract of the
  IP layer, and a stack of the three layers at work.
\<close>

section \<open>A connection as a client of the IP layer\<close>

text \<open>A connection without a policy in which no SYN is pending once data may be sent.\<close>

definition cn_ok :: "'p Conn \<Rightarrow> bool" where
  "cn_ok c \<longleftrightarrow> policy (cnH c) = None \<and> pend_ok (scb (cnH c))"

lemma cn_Encapsulate_cases:
  assumes "cn_Encapsulate c buf oip off = Some (c', buf', n, err)" "0 \<le> oip" "oip < off" "off \<le> int (length buf)"
  obtains (none) "c' = c" "buf' = buf" "n = 0"
  | (quiet) h frm m e where "h_Send (cnH c) (drop (nat off) buf) = Some (h, frm, m, e)" "n = 0" "cnH c' = h"
      "buf' = take (nat off) buf @ frm"
  | (sent) h frm m ip e where "h_Send (cnH c) (drop (nat off) buf) = Some (h, frm, m, None)" "cnH c' = h"
      "SetIPAddrs (drop (nat oip) (take (nat off) buf @ frm)) (nat (off - oip)) (cnIpID c) None (Some (cnRaddr c)) = Some (ip, e)"
      "buf' = take (nat oip) (take (nat off) buf @ frm) @ ip" "n = 0 \<or> n = m"
proof (cases "cnRaddr c = []")
  case True
  then show ?thesis using assms(1) none by (simp add: cn_Encapsulate_def)
next
  case False
  obtain raddr d i w e1 where g: "GetIPAddr (drop (nat oip) buf) (nat (off - oip)) = Some (raddr, d, i, w, e1)"
    using assms False by (auto simp: cn_Encapsulate_def split: bind_splits)
  show ?thesis
  proof (cases "e1 \<noteq> None \<or> length raddr \<noteq> length (cnRaddr c)")
    case True
    then show ?thesis
      using assms g False none by (auto simp: cn_Encapsulate_def go_slice_def split: if_splits)
  next
    case ok: False
    obtain h frm m e2 where s: "h_Send (cnH c) (drop (nat off) buf) = Some (h, frm, m, e2)"
      using assms g False ok by (auto simp: cn_Encapsulate_def go_slice_def split: bind_splits)
    show ?thesis
    proof (cases "e2 \<noteq> None \<or> m = 0")
      case True
      then show ?thesis
        using assms g False ok s quiet by (auto simp: cn_Encapsulate_def go_slice_def Let_def)
    next
      case go: False
      let ?b = "take (nat off) buf @ frm"
      obtain ip e3 where ip: "SetIPAddrs (drop (nat oip) ?b) (nat (off - oip)) (cnIpID c) None (Some (cnRaddr c)) = Some (ip, e3)"
        using assms g False ok s go by (auto simp: cn_Encapsulate_def go_slice_def Let_def split: bind_splits)
      then have "cnH c' = h \<and> buf' = take (nat oip) ?b @ ip \<and> (n = 0 \<or> n = m)"
        using assms g False ok s go
        by (auto simp: cn_Encapsulate_def go_slice_def Let_def simp del: take_append drop_append split: if_splits)
      then show ?thesis using sent s ip go by simp
    qed
  qed
qed

lemma cn_client: "ip_client cn_node cn_ok 24"
proof
  fix c buf oip off c' buf' n err
  assume run: "ifEncapsulate cn_node c buf oip off = Some (c', buf', n, err)"
    and ok: "cn_ok c" and o: "0 \<le> oip" "oip + 20 \<le> off" "off + int 24 \<le> int (length buf)"
  let ?d = "drop (nat off) buf"
  have run': "cn_Encapsulate c buf oip off = Some (c', buf', n, err)" using run by (simp add: cn_node_def)
  have o': "oip < off" "off \<le> int (length buf)" "24 \<le> length ?d" using o by auto
  have size: "length frm = length ?d \<and> 0 \<le> m \<and> m \<le> int (length ?d) \<and> policy h = None \<and> pend_ok (scb h)"
    if "h_Send (cnH c) ?d = Some (h, frm, m, e)" for h frm m e
    using h_Send_size [OF that _ o'(3)] ok by (simp add: cn_ok_def)
  from run' o(1) o'(1,2) show "cn_ok c' \<and> length buf' = length buf \<and> 0 \<le> n \<and> off + n \<le> int (length buf) \<and>
      buf' ! nat oip = buf ! nat oip"
  proof (cases rule: cn_Encapsulate_cases)
    case none
    then show ?thesis using ok o by simp
  next
    case (quiet h frm m e)
    then show ?thesis using size [OF quiet(1)] o by (auto simp: cn_ok_def nth_append)
  next
    case (sent h frm m ip e)
    let ?b = "take (nat off) buf @ frm"
    have s: "length frm = length buf - nat off" "0 \<le> m" "m \<le> int (length buf - nat off)" "cn_ok c'"
      using size [OF sent(1)] sent(2) by (auto simp: cn_ok_def)
    have b: "length ?b = length buf" "nat oip < length ?b" "?b ! nat oip = buf ! nat oip"
      using s(1) o by (auto simp: nth_append)
    show ?thesis using SetIPAddrs_inside [OF sent(3) b(2)] b s sent(4,5) o by auto
  qed
qed

interpretation tcpConn: ip_client cn_node cn_ok 24
  by (rule cn_client)

interpretation tcpPorts: ip_client "sp_node cn_node" "sp_ok cn_ok" 24
  by (rule sp_client [OF cn_client])

section \<open>Two stacks\<close>

text \<open>
  A stack with the address \<open>addr\<close>, TCP ports with no connection on them and the given resets
  pending.
\<close>

definition demoStack :: "bytes \<Rightarrow> RSTQueue \<Rightarrow> unit Conn StackPorts stackip4" where
  "demoStack addr q =
     \<lparr>si4Handlers = \<lparr>nodes = [the (nodeFromStackNode (sp_node cn_node)
          \<lparr>spConnID = 1, spHandlers = \<lparr>nodes = [], hcap = 4, encapsIdx = 0\<rparr>, dstPortOff = 2, spProtocol = 6, spRst = q\<rparr>
          0 6 [])], hcap = 2, encapsIdx = 0\<rparr>,
      si4Vld = \<lparr>accum = [], accumBitpos = [], vldFlags = 0\<rparr>, ipID = 1, ip4Addr = addr,
      si4Multicast = False, si4Broadcast = False\<rparr>"

text \<open>A packet of the stack at 10.0.0.1: a TCP header with the given flags to port 8080 of 10.0.0.2.\<close>

definition demoQueue :: "Flags \<Rightarrow> RSTQueue" where
  "demoQueue fl = rst_Queue rstQueue_zero [10, 0, 0, 2] 8080 80 0 1001 fl"

definition demoSent :: "Flags \<Rightarrow> (unit Conn StackPorts stackip4 \<times> bytes \<times> int \<times> goerror option) option" where
  "demoSent fl = encapsulate4 (sp_node cn_node) (demoStack [10, 0, 0, 1] (demoQueue fl)) (replicate 82 0) (int 14)"

definition demoPacket :: "Flags \<Rightarrow> bytes" where
  "demoPacket fl = take 40 (drop 14 (fst (snd (the (demoSent fl)))))"

lemma demoSent_eq:
  assumes "fl = FlagSYN \<or> fl = FlagRST OR FlagACK"
  shows "\<exists>si buf. demoSent fl = Some (si, buf, 40, None) \<and> demoPacket fl = take (nat 40) (drop 14 buf)"
    and "ip4_Protocol (demoPacket fl) = Some 6" "ip4_DestinationAddr (demoPacket fl) = Some [10, 0, 0, 2]"
proof -
  have "map_option (\<lambda>(si, buf, r). r) (demoSent FlagSYN) = Some (40, None)"
    "map_option (\<lambda>(si, buf, r). r) (demoSent (FlagRST OR FlagACK)) = Some (40, None)" by code_simp+
  then have "map_option (\<lambda>(si, buf, r). r) (demoSent fl) = Some (40, None)" using assms by auto
  then show "\<exists>si buf. demoSent fl = Some (si, buf, 40, None) \<and> demoPacket fl = take (nat 40) (drop 14 buf)"
    by (cases "demoSent fl") (auto simp: demoPacket_def)
  have "ip4_Protocol (demoPacket FlagSYN) = Some 6" "ip4_Protocol (demoPacket (FlagRST OR FlagACK)) = Some 6"
    "ip4_DestinationAddr (demoPacket FlagSYN) = Some [10, 0, 0, 2]"
    "ip4_DestinationAddr (demoPacket (FlagRST OR FlagACK)) = Some [10, 0, 0, 2]" by code_simp+
  then show "ip4_Protocol (demoPacket fl) = Some 6" "ip4_DestinationAddr (demoPacket fl) = Some [10, 0, 0, 2]"
    using assms by auto
qed

lemma demoStack_inv: "nodes_inv (sp_ok cn_ok) (si4Handlers (demoStack addr q))"
  by (simp add: nodes_inv_def demoStack_def nodeFromStackNode_def sp_ok_def)

theorem ip4_sent_packet_is_accepted_witness:
  "length (demoPacket FlagSYN) = 40 \<and>
   demux4 (sp_node cn_node) (demoStack [10, 0, 0, 2] rstQueue_zero) (demoPacket FlagSYN) 0 = do {
     (h, gone, err) \<leftarrow> nodeDemux (sp_node cn_node) (si4Handlers (demoStack [10, 0, 0, 2] rstQueue_zero)) 0 (demoPacket FlagSYN) 20;
     Some ((demoStack [10, 0, 0, 2] rstQueue_zero)\<lparr>si4Vld := vld_ResetErr (si4Vld (demoStack [10, 0, 0, 2] rstQueue_zero)),
       si4Handlers := h\<rparr>, err) }"
proof -
  let ?R = "demoStack [10, 0, 0, 2] rstQueue_zero"
  obtain si buf where s: "encapsulate4 (sp_node cn_node) (demoStack [10, 0, 0, 1] (demoQueue FlagSYN)) (replicate 82 0) (int 14) =
      Some (si, buf, 40, None)" "demoPacket FlagSYN = take (nat 40) (drop 14 buf)"
    using demoSent_eq(1) unfolding demoSent_def by blast
  have "length (ip4Addr (demoStack [10, 0, 0, 1] (demoQueue FlagSYN))) = 4" "ip4_forUs ?R [10, 0, 0, 2]"
    "vldFlags (si4Vld ?R) AND ValidateEvilBit = 0" "nodeByProto (sp_node cn_node) (si4Handlers ?R) (ucast (6 :: IPProto)) = Some 0"
    "length (demoPacket FlagSYN) = 40"
    by code_simp+
  then show ?thesis
    using ip4_sent_packet_is_accepted [OF tcpPorts.ip_client_axioms s(1) _ _ _ _ demoStack_inv s(2) demoSent_eq(2,3)] by simp
qed


text \<open>The SYN of the first stack meets a closed port of the second.\<close>

definition demoPorts :: "unit Conn StackPorts" where
  "demoPorts = the (callbacks (nodes (si4Handlers (demoStack [10, 0, 0, 2] rstQueue_zero)) ! 0))"

theorem syn_to_closed_port_is_reset_witness:
  "\<exists>ps1 ps2 buf. sp_Demux cn_node demoPorts (demoPacket FlagSYN) 20 = Some (ps1, Some (Generic ErrPacketDrop)) \<and>
    sp_Encapsulate cn_node ps1 (0x45 # replicate 59 0) 0 20 = Some (ps2, buf, 20, None) \<and>
    ip4_DestinationAddr buf = Some [10, 0, 0, 1] \<and> tcp_DestinationPort (drop 20 buf) = Some 80"
proof -
  let ?p = "demoPacket FlagSYN" and ?b = "0x45 # replicate 59 0 :: bytes"
  have "20 \<le> length ?p \<and> 20 + 20 \<le> length ?p \<and> ip4_version ?p = Some 4 \<and> ip4_SourceAddr ?p = Some [10, 0, 0, 1] \<and>
     tcp_SourcePort (drop 20 ?p) = Some 80 \<and> tcp_DestinationPort (drop 20 ?p) = Some 8080 \<and>
     tcp_Seq (drop 20 ?p) = Some 0 \<and> tcp_OffsetAndFlags (drop 20 ?p) = Some (5, FlagSYN) \<and>
     HasAny FlagSYN FlagSYN \<and> \<not> HasAny FlagSYN (FlagRST OR FlagACK)" by code_simp
  then have syn: "syn_packet ?p 20 [10, 0, 0, 1] 80 8080 0" unfolding syn_packet_def by blast
  have r: "rst_ok (spRst demoPorts)" "length (rst_pending (spRst demoPorts)) < 4"
    by (simp_all add: demoPorts_def demoStack_def nodeFromStackNode_def)
  have e: "encapsulateAny cn_node (spHandlers demoPorts) ?b (int 0) (int (0 + 20)) = Some (spHandlers demoPorts, ?b, None, 0, None)"
    by (simp add: demoPorts_def demoStack_def nodeFromStackNode_def encapsulateAny_def)
  have "nodeByPort cn_node (spHandlers demoPorts) 8080 = None" "spProtocol demoPorts = ucast IPProtoTCP" "dstPortOff demoPorts = 2"
    "0 + 40 \<le> length ?b" "ip4_version (drop 0 ?b) = Some 4" by code_simp+
  from syn_to_closed_port_is_reset [OF syn this(1-3) r e this(4,5)] show ?thesis by auto
qed

end
