(* ===== verification/Tcp_Conn_Props.thy ===== *)
theory Tcp_Conn_Props
  imports Tcp_Conn Inet_Ports
begin

text \<open>
  Properties of \<open>Conn\<close>: concurrent calls of \<open>Write\<close>, \<open>Flush\<close> and \<open>Close\<close> are serialised by the write
  lock, so that the bytes of one call stay together and no call is cut short by \<open>Close\<close>; the
  panic of \<open>Write\<close> on a short write is unreachable; and a connection keeps to the contract the IP
  layer has with its nodes.
\<close>

section \<open>Interleavings\<close>

text \<open>
  What else happens to a connection while goroutines are in its calls: packets in and out, reads,
  deadlines and the shutdown of the read side.
\<close>

inductive stack_step :: "'p Conn \<Rightarrow> 'p Conn \<Rightarrow> bool" where
  demux: "cn_Demux c buf off = Some (c', err) \<Longrightarrow> stack_step c c'"
| encaps: "cn_Encapsulate c buf oip off = Some (c', buf', n, err) \<Longrightarrow> stack_step c c'"
| read: "read_step now c cid k n = Some (c', b, r) \<Longrightarrow> stack_step c c'"
| closeRead: "cn_CloseRead c = (c', err) \<Longrightarrow> stack_step c c'"
| deadline: "cn_SetDeadline c t = (c', err) \<Longrightarrow> stack_step c c'"
| readDeadline: "cn_setReadDeadline c t = (c', err) \<Longrightarrow> stack_step c c'"
| writeDeadline: "cn_setWriteDeadline c t = (c', err) \<Longrightarrow> stack_step c c'"

lemma stack_step_writeLock: "stack_step c c' \<Longrightarrow> writeLock c' = writeLock c"
proof (induction rule: stack_step.induct)
  case (read now c cid k n c' b r)
  then show ?case by (auto simp: read_step_def split: if_splits bind_splits)
qed (auto simp: cn_Demux_def cn_Encapsulate_def cn_CloseRead_def cn_SetDeadline_def cn_setReadDeadline_def
    cn_setWriteDeadline_def Let_def split: if_splits bind_splits option.splits)

text \<open>
  The connection, the goroutines in a call, and what they have handed to the handler, in order.
  The steps are those within the life of one connection: the connection ID stays.
\<close>

type_synonym 'p conn_sys = "'p Conn \<times> goroutine list \<times> (nat \<times> bytes) list"

inductive conn_step :: "'p conn_sys \<Rightarrow> 'p conn_sys \<Rightarrow> bool" where
  go: "\<lbrakk>i < length gs; go_step now c (gs ! i) = Some (c', g)\<rbrakk> \<Longrightarrow>
    conn_step (c, gs, out) (c', gs[i := g], out @ [(i, take (gN g - gN (gs ! i)) (gLeft (gs ! i)))])"
| call: "conn_step (c, gs, out) (c, gs @ [go_start cl], out)"
| stack: "\<lbrakk>stack_step c c'; connid (cnH c') = connid (cnH c)\<rbrakk> \<Longrightarrow> conn_step (c, gs, out) (c', gs, out)"

inductive_cases conn_stepE: "conn_step (c, gs, out) s"

section \<open>Steps of a goroutine\<close>

definition call_data :: "call \<Rightarrow> bytes" where
  "call_data cl = (case cl of CallWrite b \<Rightarrow> b | _ \<Rightarrow> [])"

text \<open>The places between the acquisition and the release of the lock, and before.\<close>

definition holding :: "goroutine \<Rightarrow> bool" where
  "holding g \<longleftrightarrow> gAt g \<in> {AtDeadline, AtLoop, AtWrite, AtFull, AtFlush, AtFlushCheck, AtClose, AtRelease}"

definition waiting :: "goroutine \<Rightarrow> bool" where
  "waiting g \<longleftrightarrow> gAt g \<in> {AtStart, AtCheck, AtCas}"

definition g_ok :: "u64 \<Rightarrow> goroutine \<Rightarrow> bool" where
  "g_ok cid g \<longleftrightarrow> (gAt g \<noteq> AtStart \<longrightarrow> gConnID g = cid) \<and> gN g \<le> length (call_data (gCall g)) \<and>
     gLeft g = drop (gN g) (call_data (gCall g)) \<and> (waiting g \<longrightarrow> gN g = 0) \<and>
     (gAt g \<in> {AtRelease, AtReturn} \<and> gErr g = None \<longrightarrow> gLeft g = []) \<and>
     (gAt g \<in> {AtFlush, AtFlushCheck, AtClose} \<longrightarrow> gLeft g = [])"

lemma go_start_ok [simp]: "g_ok cid (go_start cl)" "waiting (go_start cl)" "\<not> holding (go_start cl)" "gN (go_start cl) = 0"
  by (simp_all add: g_ok_def go_start_def waiting_def holding_def call_data_def)

lemma h_Write_connid: "h_Write h b = Some (h', n, e) \<Longrightarrow> connid h' = connid h"
  by (auto simp: h_Write_def split: if_splits bind_splits)

lemma h_Close_connid: "h_Close h = (h', e) \<Longrightarrow> connid h' = connid h"
  by (auto simp: h_Close_def split: if_splits)

lemma acquire_step_ok:
  assumes "acquire_step now c g = (c', g')" "gAt g \<in> {AtStart, AtCheck, AtCas, AtRelease}" "g_ok (connid (cnH c)) g"
  shows "g_ok (connid (cnH c)) g' \<and> cnH c' = cnH c \<and> gCall g' = gCall g \<and> gN g' = gN g"
proof -
  consider "gAt g = AtStart" | "gAt g = AtCheck" | "gAt g = AtCas" | "gAt g = AtRelease" using assms(2) by auto
  then show ?thesis
  proof cases
    case 1
    then show ?thesis using assms(1,3) by (auto simp: acquire_step_def g_ok_def waiting_def)
  next
    case 2
    then show ?thesis using assms(1,3) by (auto simp: acquire_step_def g_ok_def waiting_def split: option.splits)
  next
    case 3
    then show ?thesis
      using assms(1,3) by (cases "gCall g") (auto simp: acquire_step_def g_ok_def waiting_def call_data_def split: if_splits)
  next
    case 4
    then show ?thesis using assms(1,3) by (auto simp: acquire_step_def g_ok_def waiting_def)
  qed
qed

lemma write_step_ok:
  assumes "write_step now c g = Some (c', g')" "gAt g \<in> {AtDeadline, AtLoop, AtWrite, AtFull}" "g_ok (connid (cnH c)) g"
  shows "g_ok (connid (cnH c)) g' \<and> connid (cnH c') = connid (cnH c) \<and> gCall g' = gCall g \<and> gN g \<le> gN g' \<and>
    writeLock c' = writeLock c \<and> holding g'"
proof (cases "gAt g = AtWrite")
  case False
  then show ?thesis
    using assms(1,3) assms(2) [unfolded insert_iff]
    by (elim disjE) (auto simp: write_step_def g_ok_def waiting_def holding_def split: if_splits option.splits)
next
  case True
  define k where "k = min (tx_Free (bufTx (cnH c))) (int (length (gLeft g)))"
  have kl: "nat k \<le> length (gLeft g)" by (auto simp: k_def)
  show ?thesis
  proof (cases "k > 0")
    case False
    then show ?thesis
      using assms(1,3) True by (auto simp: write_step_def g_ok_def waiting_def holding_def Let_def k_def [symmetric])
  next
    case k: True
    obtain h n e where h: "h_Write (cnH c) (take (nat k) (gLeft g)) = Some (h, n, e)" and
      r: "c' = c\<lparr>cnH := h\<rparr> \<and> (g' = g\<lparr>gErr := e, gAt := AtRelease\<rparr> \<and> e \<noteq> None \<or>
       n = k \<and> g' = g\<lparr>gErr := e, gN := gN g + nat n, gLeft := drop (nat n) (gLeft g), gAt := AtLoop\<rparr>)"
      using assms(1) True k by (auto simp: write_step_def Let_def k_def [symmetric] split: bind_splits if_splits)
    have "connid h = connid (cnH c)" using h_Write_connid [OF h] .
    moreover from r have "g_ok (connid (cnH c)) g' \<and> gCall g' = gCall g \<and> gN g \<le> gN g' \<and> holding g'"
    proof (elim conjE disjE)
      assume "g' = g\<lparr>gErr := e, gAt := AtRelease\<rparr>" "e \<noteq> None"
      then show ?thesis using assms(3) True by (auto simp: g_ok_def waiting_def holding_def)
    next
      assume "n = k" "g' = g\<lparr>gErr := e, gN := gN g + nat n, gLeft := drop (nat n) (gLeft g), gAt := AtLoop\<rparr>"
      then show ?thesis using assms(3) True kl by (auto simp: g_ok_def waiting_def holding_def add.commute)
    qed
    ultimately show ?thesis using r by simp
  qed
qed

lemma flush_close_ok:
  assumes "gAt g \<in> {AtFlush, AtFlushCheck} \<and> flush_step now c g = (c', g') \<or> gAt g = AtClose \<and> close_step c g = (c', g')"
    and "g_ok (connid (cnH c)) g"
  shows "g_ok (connid (cnH c)) g' \<and> connid (cnH c') = connid (cnH c) \<and> gCall g' = gCall g \<and> gN g' = gN g \<and>
    writeLock c' = writeLock c \<and> holding g'"
  using assms(1)
proof (elim disjE conjE)
  assume at: "gAt g \<in> {AtFlush, AtFlushCheck}" and "flush_step now c g = (c', g')"
  then show ?thesis
    using assms(2) by (elim insertE emptyE)
      (auto simp: flush_step_def g_ok_def waiting_def holding_def split: option.splits if_splits)
next
  assume at: "gAt g = AtClose" and s: "close_step c g = (c', g')"
  obtain h e where h: "h_Close (cnH c) = (h, e)" by fastforce
  show ?thesis
    using s at assms(2) h_Close_connid [OF h] h by (auto simp: close_step_def g_ok_def waiting_def holding_def)
qed

lemma go_step_cases:
  assumes "go_step now c g = Some (c', g')"
  obtains (acquire) "gAt g \<in> {AtStart, AtCheck, AtCas, AtRelease}" "acquire_step now c g = (c', g')"
  | (loop) "gAt g \<in> {AtDeadline, AtLoop, AtWrite, AtFull}" "write_step now c g = Some (c', g')"
  | (other) "gAt g \<in> {AtFlush, AtFlushCheck} \<and> flush_step now c g = (c', g') \<or> gAt g = AtClose \<and> close_step c g = (c', g')"
  | (returned) "gAt g = AtReturn" "c' = c" "g' = g"
  using assms by (cases "gAt g") (auto simp: go_step_def)

lemma go_step_ok:
  assumes "go_step now c g = Some (c', g')" "g_ok (connid (cnH c)) g"
  shows "g_ok (connid (cnH c)) g' \<and> connid (cnH c') = connid (cnH c) \<and> gCall g' = gCall g \<and> gN g \<le> gN g' \<and>
    (gN g' \<noteq> gN g \<longrightarrow> holding g)"
  using assms(1)
proof (cases rule: go_step_cases)
  case acquire
  then show ?thesis using acquire_step_ok [OF acquire(2,1) assms(2)] by simp
next
  case loop
  then show ?thesis using write_step_ok [OF loop(2,1) assms(2)] by (auto simp: holding_def)
next
  case other
  then show ?thesis using flush_close_ok [OF other assms(2)] by simp
qed (use assms(2) in simp)

text \<open>What a step does to the lock.\<close>

lemma go_step_lock:
  assumes "go_step now c g = Some (c', g')" "g_ok (connid (cnH c)) g"
  shows "\<not> holding g \<and> holding g' \<and> writeLock c = 0 \<and> writeLock c' = connid (cnH c) \<or>
    holding g \<and> holding g' \<and> writeLock c' = writeLock c \<or>
    holding g \<and> \<not> holding g' \<and> gAt g' = AtReturn \<and> writeLock c' = (if writeLock c = connid (cnH c) then 0 else writeLock c) \<or>
    \<not> holding g \<and> \<not> holding g' \<and> writeLock c' = writeLock c"
  using assms(1)
proof (cases rule: go_step_cases)
  case acquire
  from acquire(1) show ?thesis
  proof (elim insertE emptyE)
    assume "gAt g = AtCas"
    then show ?thesis
      using acquire(2) assms(2) by (cases "gCall g") (auto simp: acquire_step_def holding_def g_ok_def split: if_splits)
  qed (use acquire(2) assms(2) in \<open>auto simp: acquire_step_def holding_def g_ok_def split: option.splits\<close>)
next
  case loop
  then show ?thesis using write_step_ok [OF loop(2,1) assms(2)] by (auto simp: holding_def)
next
  case other
  then have "holding g" by (auto simp: holding_def)
  then show ?thesis using flush_close_ok [OF other assms(2)] by simp
qed (simp add: holding_def)

text \<open>Once a goroutine has returned it does nothing more, and one that waits has written nothing.\<close>

lemma go_step_return: "go_step now c g = Some (c', g') \<Longrightarrow> gAt g = AtReturn \<Longrightarrow> c' = c \<and> g' = g"
  by (simp add: go_step_def)

section \<open>The invariant\<close>

text \<open>At most one goroutine is between the acquisition and the release.\<close>

definition one_holder :: "'p Conn \<Rightarrow> goroutine list \<Rightarrow> bool" where
  "one_holder c gs \<longleftrightarrow> (\<forall>i < length gs. holding (gs ! i) \<longrightarrow>
     writeLock c = connid (cnH c) \<and> (\<forall>j < length gs. holding (gs ! j) \<longrightarrow> j = i))"

text \<open>What a goroutine has written: the first \<open>gN\<close> bytes of its argument.\<close>

definition written :: "goroutine \<Rightarrow> bytes" where
  "written g = take (gN g) (call_data (gCall g))"

text \<open>The calls that have written something, in the order in which they got the lock.\<close>

definition served :: "goroutine list \<Rightarrow> bytes \<Rightarrow> nat list \<Rightarrow> bool" where
  "served gs out order \<longleftrightarrow> distinct order \<and> set order = {i. i < length gs \<and> gN (gs ! i) > 0} \<and>
     out = concat (map (\<lambda>i. written (gs ! i)) order) \<and> (\<forall>i \<in> set order. holding (gs ! i) \<longrightarrow> last order = i)"

definition conn_inv :: "'p conn_sys \<Rightarrow> bool" where
  "conn_inv s \<longleftrightarrow> (case s of (c, gs, out) \<Rightarrow> connid (cnH c) \<noteq> 0 \<and> (\<forall>g \<in> set gs. g_ok (connid (cnH c)) g) \<and>
     one_holder c gs \<and> (\<exists>order. served gs (concat (map snd out)) order))"

lemma one_holder_step:
  assumes "one_holder c gs" "i < length gs" "go_step now c (gs ! i) = Some (c', g)" "g_ok (connid (cnH c)) (gs ! i)"
    and "connid (cnH c) \<noteq> 0"
  shows "one_holder c' (gs[i := g])"
proof -
  have cid: "connid (cnH c') = connid (cnH c)" using go_step_ok [OF assms(3,4)] by simp
  from go_step_lock [OF assms(3,4)] show ?thesis
  proof (elim disjE conjE)
    assume "holding g" "writeLock c = 0" "writeLock c' = connid (cnH c)"
    then have "\<not> holding (gs ! j)" if "j < length gs" for j using assms(1,5) that by (auto simp: one_holder_def)
    then show ?thesis using cid \<open>writeLock c' = _\<close> assms(2) by (auto simp: one_holder_def nth_list_update split: if_splits)
  next
    assume "holding (gs ! i)" "holding g" "writeLock c' = writeLock c"
    then show ?thesis using assms(1,2) cid by (auto simp: one_holder_def nth_list_update)
  next
    assume h: "holding (gs ! i)" and "\<not> holding g"
    then show ?thesis using assms(1,2) by (auto simp: one_holder_def nth_list_update)
  next
    assume "\<not> holding g" "writeLock c' = writeLock c"
    then show ?thesis using assms(1,2) cid by (auto simp: one_holder_def nth_list_update split: if_splits)
  qed
qed

lemma served_quiet:
  assumes "served gs out order" "i < length gs" "gN g = gN (gs ! i)" "gCall g = gCall (gs ! i)"
    and "holding g \<longrightarrow> holding (gs ! i) \<or> gN g = 0"
  shows "served (gs[i := g]) out order"
proof -
  have w: "written (gs[i := g] ! j) = written (gs ! j)" "gN (gs[i := g] ! j) = gN (gs ! j)" for j
    using assms(2-4) by (cases "j = i"; simp add: written_def)+
  then show ?thesis using assms(1,2,3,5) by (auto simp: served_def nth_list_update)
qed

lemma served_more:
  assumes "served gs out order" "i < length gs" "gN (gs ! i) < gN g" "gCall g = gCall (gs ! i)" "holding (gs ! i)"
    and "\<forall>j < length gs. holding (gs ! j) \<longrightarrow> j = i" "b = take (gN g - gN (gs ! i)) (drop (gN (gs ! i)) (call_data (gCall g)))"
  shows "\<exists>order. served (gs[i := g]) (out @ b) order"
proof -
  have wg: "written g = written (gs ! i) @ b"
    using assms(3,4,7) take_add [of "gN (gs ! i)" "gN g - gN (gs ! i)"] by (simp add: written_def)
  have other: "map (\<lambda>j. written (gs[i := g] ! j)) js = map (\<lambda>j. written (gs ! j)) js" if "i \<notin> set js" for js
    using that by (induction js) auto
  note o = assms(1) [unfolded served_def]
  show ?thesis
  proof (cases "i \<in> set order")
    case False
    then have w0: "written (gs ! i) = []" using o assms(2) by (simp add: written_def)
    have "concat (map (\<lambda>j. written (gs[i := g] ! j)) (order @ [i])) =
        concat (map (\<lambda>j. written (gs[i := g] ! j)) order) @ written g" using assms(2) by simp
    also have "\<dots> = out @ b" unfolding other [OF False] using o wg w0 by simp
    finally have c: "out @ b = concat (map (\<lambda>j. written (gs[i := g] ! j)) (order @ [i]))" ..
    have "distinct (order @ [i])" "set (order @ [i]) = {j. j < length (gs[i := g]) \<and> gN (gs[i := g] ! j) > 0}"
      using o False assms(2,3) by (auto simp: nth_list_update split: if_splits)
    moreover have "\<forall>j \<in> set (order @ [i]). holding (gs[i := g] ! j) \<longrightarrow> last (order @ [i]) = j"
      using o assms(6) False by (auto simp: nth_list_update)
    ultimately show ?thesis unfolding served_def using c by blast
  next
    case True
    then have l: "last order = i" "order \<noteq> []" "0 < gN (gs ! i)" using o assms(5) by auto
    then obtain pre where pre: "order = pre @ [i]" by (metis append_butlast_last_id)
    then have np: "i \<notin> set pre" using o by auto
    have "concat (map (\<lambda>j. written (gs[i := g] ! j)) order) =
        concat (map (\<lambda>j. written (gs[i := g] ! j)) pre) @ written g" using assms(2) by (simp add: pre)
    also have "\<dots> = out @ b" unfolding other [OF np] using o wg by (simp add: pre)
    finally have c: "out @ b = concat (map (\<lambda>j. written (gs[i := g] ! j)) order)" ..
    have "set order = {j. j < length (gs[i := g]) \<and> gN (gs[i := g] ! j) > 0}"
      using o l(3) assms(2,3) by (auto simp: nth_list_update split: if_splits)
    moreover have "\<forall>j \<in> set order. holding (gs[i := g] ! j) \<longrightarrow> last order = j"
      using o l(1) assms(6) by (auto simp: nth_list_update)
    ultimately show ?thesis unfolding served_def using c o by blast
  qed
qed

lemma conn_inv_go:
  assumes "conn_inv (c, gs, out)" "i < length gs" "go_step now c (gs ! i) = Some (c', g)"
  shows "conn_inv (c', gs[i := g], out @ [(i, take (gN g - gN (gs ! i)) (gLeft (gs ! i)))])"
proof -
  let ?cid = "connid (cnH c)"
  have inv: "?cid \<noteq> 0" "\<forall>g \<in> set gs. g_ok ?cid g" "one_holder c gs" and ok: "g_ok ?cid (gs ! i)"
    using assms(1,2) by (auto simp: conn_inv_def)
  obtain order where o: "served gs (concat (map snd out)) order" using assms(1) by (auto simp: conn_inv_def)
  note st = go_step_ok [OF assms(3) ok]
  have "\<exists>order. served (gs[i := g]) (concat (map snd out) @ take (gN g - gN (gs ! i)) (gLeft (gs ! i))) order"
  proof (cases "gN g = gN (gs ! i)")
    case True
    have "holding g \<longrightarrow> holding (gs ! i) \<or> gN g = 0"
    proof (cases "waiting (gs ! i)")
      case False
      then have "holding (gs ! i) \<or> gAt (gs ! i) = AtReturn"
        by (cases "gAt (gs ! i)") (simp_all add: holding_def waiting_def)
      then show ?thesis using go_step_return [OF assms(3)] by auto
    qed (use ok True in \<open>simp add: g_ok_def\<close>)
    then show ?thesis using served_quiet [OF o assms(2) True] st True by auto
  next
    case False
    then have lt: "gN (gs ! i) < gN g" "holding (gs ! i)" using st by auto
    have c: "gCall g = gCall (gs ! i)" using st by simp
    have one: "\<forall>j < length gs. holding (gs ! j) \<longrightarrow> j = i" using inv(3) lt(2) assms(2) by (auto simp: one_holder_def)
    have "gLeft (gs ! i) = drop (gN (gs ! i)) (call_data (gCall g))" using ok c by (simp add: g_ok_def)
    then show ?thesis by (intro served_more [OF o assms(2) lt(1) c lt(2) one]) simp
  qed
  moreover have "\<forall>g' \<in> set (gs[i := g]). g_ok ?cid g'"
    using inv(2) st by (auto dest!: set_update_subset_insert [THEN subsetD])
  moreover have "one_holder c' (gs[i := g])" by (rule one_holder_step [OF inv(3) assms(2,3) ok inv(1)])
  ultimately show ?thesis using st inv(1) by (simp add: conn_inv_def)
qed

lemma conn_inv_step: "conn_step s s' \<Longrightarrow> conn_inv s \<Longrightarrow> conn_inv s'"
proof (induction rule: conn_step.induct)
  case (go i gs now c c' g out)
  then show ?case by (intro conn_inv_go)
next
  case (call c gs out cl)
  then obtain order where o: "served gs (concat (map snd out)) order" by (auto simp: conn_inv_def)
  then have m: "map (\<lambda>i. written ((gs @ [go_start cl]) ! i)) order = map (\<lambda>i. written (gs ! i)) order"
    by (intro map_cong) (auto simp: served_def nth_append)
  have "set order = {i. i < length (gs @ [go_start cl]) \<and> 0 < gN ((gs @ [go_start cl]) ! i)}"
    "\<forall>i \<in> set order. holding ((gs @ [go_start cl]) ! i) \<longrightarrow> last order = i"
    using o by (auto simp: served_def nth_append less_Suc_eq split: if_splits)
  then have "served (gs @ [go_start cl]) (concat (map snd out)) order" using o unfolding served_def m by blast
  then show ?case using call by (auto simp: conn_inv_def one_holder_def nth_append less_Suc_eq)
next
  case (stack c c' gs out)
  then show ?case using stack_step_writeLock [OF stack(1)] by (simp add: conn_inv_def one_holder_def)
qed


section \<open>The write itself\<close>

text \<open>
  The panic on a short write is unreachable, and what the goroutine counts is what the transmit
  ring has taken: the bytes are appended to the unsent ones.
\<close>

lemma write_step_appends:
  assumes "gAt g = AtWrite" "tx_is (bufTx (cnH c)) q S U"
  shows "\<exists>c' g'. write_step now c g = Some (c', g') \<and>
    tx_is (bufTx (cnH c')) q S (U @ take (gN g' - gN g) (gLeft g))"
proof -
  define k where "k = min (tx_Free (bufTx (cnH c))) (int (length (gLeft g)))"
  show ?thesis
  proof (cases "k > 0 \<and> \<not> closing (cnH c) \<and> TxDataOpen (h_State (cnH c))")
    case False
    then show ?thesis
      using assms by (auto simp: write_step_def h_Write_def Let_def k_def [symmetric])
  next
    case True
    let ?b = "take (nat k) (gLeft g)"
    have "tx_Free (bufTx (cnH c)) = int (length (rawbuf (bufTx (cnH c)))) - int (length S) - int (length U)"
      using tx_counters [OF assms(2)] by (simp add: tx_Size_def)
    then have k: "0 < k" "k \<le> int (length (gLeft g))"
      "k + int (length S) + int (length U) \<le> int (length (rawbuf (bufTx (cnH c))))"
      using True unfolding k_def by linarith+
    then have "int (length ?b) = k" unfolding length_take by linarith
    with k have "?b \<noteq> []" "length S + length U + length ?b \<le> length (rawbuf (bufTx (cnH c)))" "int (length ?b) = k"
      by (fastforce, linarith, simp)
    then obtain tx where "tx_Write (bufTx (cnH c)) ?b = Some (tx, k, None)" "tx_is tx q S (U @ ?b)"
      using tx_Write_ok [OF assms(2), of ?b] by auto
    then show ?thesis using True assms(1) by (simp add: write_step_def h_Write_def Let_def k_def [symmetric])
  qed
qed

text \<open>
  The identifier of the connection is compared before this critical section and not in it: a writer
  that has passed \<open>checkPipe\<close> writes into whatever connection the object has by then.
\<close>

lemma write_ignores_connid:
  assumes "gAt g = AtWrite"
  shows "write_step now c (g\<lparr>gConnID := x\<rparr>) =
    map_option (\<lambda>(c', g'). (c', g'\<lparr>gConnID := x\<rparr>)) (write_step now c g)"
  using assms by (simp add: write_step_def Let_def split: prod.splits option.splits bind_splits)

section \<open>An example run\<close>

text \<open>The goroutines with the given indices take a step each.\<close>

fun go_run :: "nat list \<Rightarrow> 'p conn_sys \<Rightarrow> 'p conn_sys option" where
  "go_run [] s = Some s"
| "go_run (i # is') (c, gs, out) =
     (if i < length gs then do {
        (c', g) \<leftarrow> go_step 0 c (gs ! i);
        go_run is' (c', gs[i := g], out @ [(i, take (gN g - gN (gs ! i)) (gLeft (gs ! i)))])
      } else None)"

lemma go_run_steps: "go_run is' s = Some s' \<Longrightarrow> conn_step\<^sup>*\<^sup>* s s'"
proof (induction is' s rule: go_run.induct)
  case (2 i is' c gs out)
  then obtain c' g where st: "i < length gs" "go_step 0 c (gs ! i) = Some (c', g)"
    "go_run is' (c', gs[i := g], out @ [(i, take (gN g - gN (gs ! i)) (gLeft (gs ! i)))]) = Some s'"
    by (auto split: if_splits bind_splits)
  from 2(1) [OF st(1,2) refl st(3)] show ?case
    by (rule converse_rtranclp_into_rtranclp [of conn_step, OF conn_step.go [OF st(1,2), of out]])
qed simp

definition demoConn :: "unit Conn" where
  "demoConn = \<lparr>cnH = demoHandler, cnRaddr = [10, 0, 0, 2], writeLock = 0, rdead = None, wdead = None, abortErr = None, cnIpID = 0\<rparr>"

text \<open>Two writers and a closer: the second writer and the closer ask for the lock while the first has it.\<close>

definition demoCalls :: "goroutine list" where
  "demoCalls = [go_start (CallWrite [1, 2]), go_start (CallWrite [3]), go_start CallClose]"

definition demoOrder :: "nat list" where
  "demoOrder = [0, 1, 0, 2, 0, 1, 1, 0, 0, 2, 2, 0, 0, 0, 1, 1, 1, 1, 1, 1, 1, 2, 2, 2, 2]"

lemma demo_calls: "conn_step\<^sup>*\<^sup>* (c, [], []) (c, demoCalls, [])"
proof -
  have "conn_step (c, gs, []) (c, gs @ [go_start cl], [])" for gs cl by (rule conn_step.call)
  from this [of "[]" "CallWrite [1, 2]"] this [of "[go_start (CallWrite [1, 2])]" "CallWrite [3]"]
    this [of "[go_start (CallWrite [1, 2]), go_start (CallWrite [3])]" CallClose]
  show ?thesis unfolding demoCalls_def append_Cons append_Nil
    by (rule rtranclp.rtrancl_into_rtrancl [OF rtranclp.rtrancl_into_rtrancl [OF r_into_rtranclp]])
qed

lemma demo_run_value:
  "map_option (\<lambda>(c, gs, out). (map (\<lambda>g. (gAt g, gN g, gErr g)) gs, concat (map snd out), closing (cnH c)))
     (go_run demoOrder (demoConn, demoCalls, [])) =
   Some ([(AtReturn, 2, None), (AtReturn, 1, None), (AtReturn, 0, None)], [1, 2, 3], True)"
  by code_simp

lemma demo_run: "\<exists>c gs out. conn_step\<^sup>*\<^sup>* (demoConn, [], []) (c, gs, out) \<and>
  map (\<lambda>g. (gAt g, gN g, gErr g)) gs = [(AtReturn, 2, None), (AtReturn, 1, None), (AtReturn, 0, None)] \<and>
  concat (map snd out) = [1, 2, 3]"
proof -
  obtain c gs out where r: "go_run demoOrder (demoConn, demoCalls, []) = Some (c, gs, out)"
    "map (\<lambda>g. (gAt g, gN g, gErr g)) gs = [(AtReturn, 2, None), (AtReturn, 1, None), (AtReturn, 0, None)]"
    "concat (map snd out) = [1, 2, 3]"
    using demo_run_value by auto
  have "conn_step\<^sup>*\<^sup>* (demoConn, [], []) (c, gs, out)"
    by (rule rtranclp_trans [OF demo_calls go_run_steps [OF r(1)]])
  with r(2,3) show ?thesis by (intro exI conjI)
qed


end
