(* ===== verification/Tcp_Rto.thy ===== *)
theory Tcp_Rto
  imports Tcp_Handler_Tx
begin

text \<open>
  \<open>tcp/rto/timer.go\<close>: the round-trip estimator and retransmission timer of RFC 6298, a
  \<open>Policy\<close> of the handler.

  Times and durations are nanoseconds in an \<open>int64\<close>; the model has them as integers and shows
  that none of them leaves the range of an \<open>int64\<close>. The clock the user configures is a function
  from the number of readings taken so far.
\<close>

section \<open>The timer\<close>

record Timer =
  nanotime :: "nat \<Rightarrow> int"
  readings :: nat
  srtt :: int
  rttvar :: int
  rto :: int
  haveRTT :: bool
  haveSeq :: bool
  sndUNA :: Value
  sndNXT :: Value
  timing :: bool
  timedSeq :: Value
  timedAt :: int
  running :: bool
  deadline :: int
  backoff :: u8
  expirations :: u32

definition rtoInitial :: int where "rtoInitial = 1000000000"
definition rtoMin :: int where "rtoMin = 200000000"
definition rtoMax :: int where "rtoMax = 60000000000"
definition backoffMax :: u8 where "backoffMax = 12"

lemmas rto_consts = rtoInitial_def rtoMin_def rtoMax_def

definition zeroTimer :: "(nat \<Rightarrow> int) \<Rightarrow> nat \<Rightarrow> Timer" where
  "zeroTimer clk k =
     \<lparr>nanotime = clk, readings = k, srtt = 0, rttvar = 0, rto = rtoInitial, haveRTT = False,
      haveSeq = False, sndUNA = 0, sndNXT = 0, timing = False, timedSeq = 0, timedAt = 0,
      running = False, deadline = 0, backoff = 0, expirations = 0\<rparr>"

text \<open>A nil clock is \<open>None\<close>.\<close>

definition rt_Configure :: "Timer \<Rightarrow> (nat \<Rightarrow> int) option \<Rightarrow> Timer \<times> goerror option" where
  "rt_Configure r clk =
     (case clk of None \<Rightarrow> (r, Some (Generic ErrMissingHALConfig)) | Some f \<Rightarrow> (zeroTimer f 0, None))"

definition rt_Reset :: "Timer \<Rightarrow> Timer" where
  "rt_Reset r = zeroTimer (nanotime r) (readings r)"

definition CurrentRTO :: "Timer \<Rightarrow> int" where
  "CurrentRTO r = (let rto = rto r in if rto < rtoMin then rtoMin else if rto > rtoMax then rtoMax else rto)"

definition NextDeadline :: "Timer \<Rightarrow> int" where
  "NextDeadline r = (if \<not> running r then 0 else deadline r)"

text \<open>An arithmetic shift to the right by \<open>k\<close> divides by \<open>2 ^ k\<close>, rounding down.\<close>

definition updateRTT :: "Timer \<Rightarrow> int \<Rightarrow> Timer" where
  "updateRTT r sample =
     (if sample \<le> 0 then r
      else
        let r = (if \<not> haveRTT r then r\<lparr>srtt := sample, rttvar := sample div 2, haveRTT := True\<rparr>
                 else
                   let diff = srtt r - sample;
                       diff = (if diff < 0 then - diff else diff);
                       r = r\<lparr>rttvar := rttvar r + (diff - rttvar r) div 2 ^ 2\<rparr>
                   in r\<lparr>srtt := srtt r + (sample - srtt r) div 2 ^ 3\<rparr>)
        in r\<lparr>rto := srtt r + 4 * rttvar r\<rparr>)"

definition rt_postRx :: "Timer \<Rightarrow> Segment \<Rightarrow> int \<Rightarrow> Timer" where
  "rt_postRx r incoming now =
     (if \<not> haveSeq r \<or> \<not> HasAny (SegFlags incoming) FlagACK then r
      else
        let ack = ACK incoming;
            r = (if timing r \<and> \<not> LessThan ack (timedSeq r)
                 then (updateRTT r (now - timedAt r))\<lparr>timing := False, backoff := 0\<rparr> else r);
            r = (if LessThan (sndUNA r) ack \<and> \<not> LessThan (sndNXT r) ack then r\<lparr>sndUNA := ack\<rparr> else r)
        in if sndUNA r = sndNXT r then r\<lparr>running := False\<rparr>
           else r\<lparr>running := True, deadline := now + CurrentRTO r\<rparr>)"

definition rt_preTx :: "Timer \<Rightarrow> int \<Rightarrow> Value \<Rightarrow> Timer \<times> Size \<times> Value \<times> bool" where
  "rt_preTx r now una =
     (if \<not> running r \<or> now < deadline r \<or> sndUNA r = sndNXT r then (r, TransmitUnlimited, 0, False)
      else
        let r = r\<lparr>expirations := expirations r + 1, timing := False\<rparr>;
            r = (if backoff r < backoffMax
                 then r\<lparr>backoff := backoff r + 1, rto := min (CurrentRTO r * 2) rtoMax\<rparr> else r)
        in (r\<lparr>running := True, deadline := now + CurrentRTO r\<rparr>, TransmitUnlimited, una, True))"

definition rt_postTx :: "Timer \<Rightarrow> Segment \<Rightarrow> int \<Rightarrow> Timer" where
  "rt_postTx r outgoing now =
     (if DATALEN outgoing = 0 then r
      else
        let segStart = SEQ outgoing; segEnd = segStart + LEN outgoing;
            r = (if \<not> haveSeq r then r\<lparr>haveSeq := True, sndUNA := segStart, sndNXT := segStart\<rparr> else r)
        in if \<not> LessThan (sndNXT r) segEnd then r\<lparr>timing := False\<rparr>
           else
             let r = r\<lparr>sndNXT := segEnd\<rparr>;
                 r = (if \<not> timing r then r\<lparr>timing := True, timedSeq := segEnd, timedAt := now\<rparr> else r)
             in if \<not> running r then r\<lparr>running := True, deadline := now + CurrentRTO r\<rparr> else r)"

text \<open>
  The hooks read the clock. They parse the frame the handler gives them, which it has validated
  (on receipt) or written (on sending); on a frame whose header overruns it they would panic.
\<close>

definition rt_now :: "Timer \<Rightarrow> int \<times> Timer" where
  "rt_now r = (nanotime r (readings r), r\<lparr>readings := readings r + 1\<rparr>)"

definition frameSegment :: "bytes \<Rightarrow> Segment option" where
  "frameSegment frm = do { p \<leftarrow> tcp_Payload frm; tcp_Segment frm (int (length p)) }"

definition rt_PreRx :: "Timer \<Rightarrow> Handler \<Rightarrow> bytes \<Rightarrow> Timer \<times> bool" where
  "rt_PreRx r h incoming = (r, True)"

definition rt_PostRx :: "Timer \<Rightarrow> Handler \<Rightarrow> State \<Rightarrow> bytes \<Rightarrow> Timer" where
  "rt_PostRx r h prevState accepted =
     (case frameSegment accepted of None \<Rightarrow> r | Some seg \<Rightarrow> let (now, r) = rt_now r in rt_postRx r seg now)"

definition rt_PreTx :: "Timer \<Rightarrow> Handler \<Rightarrow> bytes \<Rightarrow> Timer \<times> bytes \<times> Size \<times> Value \<times> bool" where
  "rt_PreTx r h outgoingOpts =
     (let (now, r) = rt_now r; (r, limit, rtxFrom, retransmit) = rt_preTx r now (sUNA (sndS (scb h)))
      in (r, outgoingOpts, limit, rtxFrom, retransmit))"

definition rt_PostTx :: "Timer \<Rightarrow> Handler \<Rightarrow> bytes \<Rightarrow> Timer \<times> bytes" where
  "rt_PostTx r h outgoing =
     (case frameSegment outgoing of None \<Rightarrow> (r, outgoing)
      | Some seg \<Rightarrow> let (now, r) = rt_now r in (rt_postTx r seg now, outgoing))"

definition rtoPolicy :: "Timer Policy" where
  "rtoPolicy = \<lparr>PolReset = rt_Reset, PolPreTx = rt_PreTx, PolPostTx = rt_PostTx,
     PolPreRx = rt_PreRx, PolPostRx = rt_PostRx\<rparr>"

section \<open>The events of a connection\<close>

text \<open>
  The timer sees accepted segments, sent segments, the question whether to retransmit, resets,
  and round-trip samples measured elsewhere, at times that never go back and up to a horizon \<open>M\<close>.
\<close>

inductive timer_step :: "int \<Rightarrow> int \<times> Timer \<Rightarrow> int \<times> Timer \<Rightarrow> bool" for M where
  rx: "now \<le> now' \<Longrightarrow> now' \<le> M \<Longrightarrow> timer_step M (now, r) (now', rt_postRx r seg now')"
| pre: "now \<le> now' \<Longrightarrow> now' \<le> M \<Longrightarrow> timer_step M (now, r) (now', fst (rt_preTx r now' una))"
| tx: "now \<le> now' \<Longrightarrow> now' \<le> M \<Longrightarrow> timer_step M (now, r) (now', rt_postTx r seg now')"
| observe: "sample \<le> M \<Longrightarrow> timer_step M (now, r) (now, updateRTT r sample)"
| reset: "timer_step M (now, r) (now, rt_Reset r)"

lemma CurrentRTO_bounds: "rtoMin \<le> CurrentRTO r" "CurrentRTO r \<le> rtoMax"
  by (auto simp: CurrentRTO_def rto_consts Let_def)

text \<open>The fields that do not depend on the estimate.\<close>

lemma updateRTT_other [simp]:
  "haveSeq (updateRTT r s) = haveSeq r" "sndUNA (updateRTT r s) = sndUNA r" "sndNXT (updateRTT r s) = sndNXT r"
  "timing (updateRTT r s) = timing r" "timedAt (updateRTT r s) = timedAt r" "timedSeq (updateRTT r s) = timedSeq r"
  "running (updateRTT r s) = running r" "deadline (updateRTT r s) = deadline r" "backoff (updateRTT r s) = backoff r"
  by (simp_all add: updateRTT_def Let_def)

definition est_ok :: "int \<Rightarrow> Timer \<Rightarrow> bool" where
  "est_ok M r \<longleftrightarrow> 0 \<le> srtt r \<and> srtt r \<le> M \<and> 0 \<le> rttvar r \<and> rttvar r \<le> M \<and>
     0 \<le> rto r \<and> rto r \<le> 5 * M + rtoMax"

lemma smooth_between:
  fixes v d M :: int
  assumes "0 \<le> v" "v \<le> M" "0 \<le> d" "d \<le> M"
  shows "0 \<le> v + (d - v) div 4" "v + (d - v) div 4 \<le> M" "0 \<le> v + (d - v) div 8" "v + (d - v) div 8 \<le> M"
proof -
  have d: "4 * ((d - v) div 4) + (d - v) mod 4 = d - v" "8 * ((d - v) div 8) + (d - v) mod 8 = d - v" by simp_all
  have m: "0 \<le> (d - v) mod 4" "(d - v) mod 4 < 4" "0 \<le> (d - v) mod 8" "(d - v) mod 8 < 8" by simp_all
  show "0 \<le> v + (d - v) div 4" "v + (d - v) div 4 \<le> M" using assms d(1) m(1,2) by linarith+
  show "0 \<le> v + (d - v) div 8" "v + (d - v) div 8 \<le> M" using assms d(2) m(3,4) by linarith+
qed

lemma updateRTT_first:
  assumes "0 < sample" "\<not> haveRTT r"
  shows "srtt (updateRTT r sample) = sample" "rttvar (updateRTT r sample) = sample div 2"
    "rto (updateRTT r sample) = sample + 4 * (sample div 2)"
  using assms by (simp_all add: updateRTT_def Let_def)

lemma updateRTT_next:
  assumes "0 < sample" "haveRTT r"
  shows "srtt (updateRTT r sample) = srtt r + (sample - srtt r) div 8"
    "rttvar (updateRTT r sample) = rttvar r + (\<bar>srtt r - sample\<bar> - rttvar r) div 4"
    "rto (updateRTT r sample) = srtt (updateRTT r sample) + 4 * rttvar (updateRTT r sample)"
  using assms by (simp_all add: updateRTT_def Let_def)

lemma updateRTT_est_ok:
  assumes "est_ok M r" "sample \<le> M"
  shows "est_ok M (updateRTT r sample)"
proof (cases "0 < sample")
  case False
  then show ?thesis using assms by (simp add: updateRTT_def)
next
  case pos: True
  show ?thesis
  proof (cases "haveRTT r")
    case False
    have "0 \<le> sample div 2" "sample div 2 \<le> sample" using pos by auto
    then show ?thesis using pos assms(2) unfolding est_ok_def updateRTT_first [OF pos False] rtoMax_def by linarith
  next
    case True
    define v s where "v = rttvar (updateRTT r sample)" and "s = srtt (updateRTT r sample)"
    have "0 \<le> \<bar>srtt r - sample\<bar>" "\<bar>srtt r - sample\<bar> \<le> M" using pos assms by (auto simp: est_ok_def)
    then have "0 \<le> v" "v \<le> M"
      using assms smooth_between(1,2) [of "rttvar r" M "\<bar>srtt r - sample\<bar>"]
      by (simp_all add: est_ok_def v_def updateRTT_next [OF pos True])
    moreover have "0 \<le> s" "s \<le> M"
      using assms pos smooth_between(3,4) [of "srtt r" M sample]
      by (simp_all add: est_ok_def s_def updateRTT_next [OF pos True])
    moreover have "rto (updateRTT r sample) = s + 4 * v" by (simp add: s_def v_def updateRTT_next(3) [OF pos True])
    ultimately show ?thesis unfolding est_ok_def s_def [symmetric] v_def [symmetric] rtoMax_def by linarith
  qed
qed

text \<open>
  What holds of every timer at time \<open>now\<close>: the estimate is in its bounds, a timed segment was
  sent in the past, the timer is armed whenever there is unacknowledged data, and it expires at
  most the largest timeout from now.
\<close>

definition timer_ok :: "int \<Rightarrow> int \<times> Timer \<Rightarrow> bool" where
  "timer_ok M = (\<lambda>(now, r). 0 \<le> now \<and> now \<le> M \<and> est_ok M r \<and> (timing r \<longrightarrow> 0 \<le> timedAt r \<and> timedAt r \<le> now) \<and>
     (sndUNA r \<noteq> sndNXT r \<longrightarrow> running r) \<and> (running r \<longrightarrow> 0 \<le> deadline r \<and> deadline r \<le> now + rtoMax) \<and>
     backoff r \<le> backoffMax)"

lemma timer_ok_zero: "0 \<le> now \<Longrightarrow> now \<le> M \<Longrightarrow> timer_ok M (now, zeroTimer clk k)"
  by (simp add: timer_ok_def zeroTimer_def est_ok_def rto_consts)

lemma est_ok_cong:
  "srtt r' = srtt r \<Longrightarrow> rttvar r' = rttvar r \<Longrightarrow> rto r' = rto r \<Longrightarrow> est_ok M r' = est_ok M r"
  by (simp add: est_ok_def)

lemma CurrentRTO_cong: "rto r' = rto r \<Longrightarrow> CurrentRTO r' = CurrentRTO r"
  by (simp add: CurrentRTO_def)

lemma timer_ok_postRx:
  assumes "timer_ok M (now, r)" "now \<le> now'" "now' \<le> M"
  shows "timer_ok M (now', rt_postRx r seg now')"
proof (cases "\<not> haveSeq r \<or> \<not> HasAny (SegFlags seg) FlagACK")
  case True
  then show ?thesis using assms by (auto simp: rt_postRx_def timer_ok_def)
next
  case False
  let ?a = "ACK seg"
  define r1 where "r1 = (if timing r \<and> \<not> LessThan ?a (timedSeq r)
    then (updateRTT r (now' - timedAt r))\<lparr>timing := False, backoff := 0\<rparr> else r)"
  define r2 where "r2 = (if LessThan (sndUNA r1) ?a \<and> \<not> LessThan (sndNXT r1) ?a then r1\<lparr>sndUNA := ?a\<rparr> else r1)"
  have eq: "rt_postRx r seg now' = (if sndUNA r2 = sndNXT r2 then r2\<lparr>running := False\<rparr>
      else r2\<lparr>running := True, deadline := now' + CurrentRTO r2\<rparr>)"
    unfolding rt_postRx_def Let_def r2_def r1_def if_not_P [OF False] ..
  have "est_ok M r1 \<and> (timing r1 \<longrightarrow> 0 \<le> timedAt r1 \<and> timedAt r1 \<le> now') \<and> backoff r1 \<le> backoffMax"
    using assms updateRTT_est_ok [of M r "now' - timedAt r"]
    by (auto simp: r1_def timer_ok_def est_ok_def backoffMax_def)
  then have "est_ok M r2" "timing r2 \<longrightarrow> 0 \<le> timedAt r2 \<and> timedAt r2 \<le> now'" "backoff r2 \<le> backoffMax"
    by (auto simp: r2_def est_ok_def)
  then show ?thesis
    using assms(1-3) CurrentRTO_bounds [of r2] unfolding eq by (auto simp: timer_ok_def est_ok_def rtoMin_def)
qed

definition timedOut :: "Timer \<Rightarrow> Timer" where
  "timedOut r = (if backoff r < backoffMax
     then r\<lparr>expirations := expirations r + 1, timing := False, backoff := backoff r + 1, rto := min (CurrentRTO r * 2) rtoMax\<rparr>
     else r\<lparr>expirations := expirations r + 1, timing := False\<rparr>)"

lemma timedOut_simps [simp]:
  "sndUNA (timedOut r) = sndUNA r" "sndNXT (timedOut r) = sndNXT r" "\<not> timing (timedOut r)"
  "backoff (timedOut r) = (if backoff r < backoffMax then backoff r + 1 else backoff r)"
  by (simp_all add: timedOut_def)

lemma CurrentRTO_timedOut:
  "CurrentRTO (timedOut r) = (if backoff r < backoffMax then min (CurrentRTO r * 2) rtoMax else CurrentRTO r)"
proof (cases "backoff r < backoffMax")
  case True
  then have "rto (timedOut r) = min (CurrentRTO r * 2) rtoMax" by (simp add: timedOut_def)
  moreover have "rtoMin \<le> min (CurrentRTO r * 2) rtoMax" "min (CurrentRTO r * 2) rtoMax \<le> rtoMax"
    using CurrentRTO_bounds [of r] by (auto simp: rto_consts)
  ultimately show ?thesis using True by (auto simp: CurrentRTO_def [of "timedOut r"] Let_def min_def)
qed (simp add: timedOut_def CurrentRTO_def)

lemma rt_preTx_due:
  assumes "running r" "sndUNA r \<noteq> sndNXT r" "deadline r \<le> now"
  shows "rt_preTx r now una =
    ((timedOut r)\<lparr>running := True, deadline := now + CurrentRTO (timedOut r)\<rparr>, TransmitUnlimited, una, True)"
  using assms by (simp add: rt_preTx_def Let_def timedOut_def CurrentRTO_def)

lemma timer_ok_preTx:
  assumes "timer_ok M (now, r)" "now \<le> now'" "now' \<le> M"
  shows "timer_ok M (now', fst (rt_preTx r now' una))"
proof (cases "\<not> running r \<or> now' < deadline r \<or> sndUNA r = sndNXT r")
  case True
  then show ?thesis using assms by (auto simp: rt_preTx_def timer_ok_def)
next
  case False
  then have eq: "fst (rt_preTx r now' una) = (timedOut r)\<lparr>running := True, deadline := now' + CurrentRTO (timedOut r)\<rparr>"
    by (simp add: rt_preTx_due)
  have "backoff (timedOut r) \<le> backoffMax"
    using assms(1) by (auto simp: timer_ok_def backoffMax_def word_less_nat_alt word_le_nat_alt unat_word_ariths)
  moreover have "est_ok M (timedOut r)"
    using assms(1) CurrentRTO_bounds [of r] by (auto simp: timedOut_def timer_ok_def est_ok_def rto_consts)
  ultimately show ?thesis
    using assms CurrentRTO_bounds [of "timedOut r"] unfolding eq
    by (auto simp: timer_ok_def est_ok_def rtoMin_def)
qed

lemma timer_ok_postTx:
  assumes "timer_ok M (now, r)" "now \<le> now'" "now' \<le> M"
  shows "timer_ok M (now', rt_postTx r seg now')"
proof (cases "DATALEN seg = 0")
  case True
  then show ?thesis using assms by (auto simp: rt_postTx_def timer_ok_def)
next
  case False
  let ?e = "SEQ seg + LEN seg"
  define r1 where "r1 = (if \<not> haveSeq r then r\<lparr>haveSeq := True, sndUNA := SEQ seg, sndNXT := SEQ seg\<rparr> else r)"
  define r2 where "r2 = (if \<not> timing r1 then r1\<lparr>sndNXT := ?e, timing := True, timedSeq := ?e, timedAt := now'\<rparr>
    else r1\<lparr>sndNXT := ?e\<rparr>)"
  have eq: "rt_postTx r seg now' = (if \<not> LessThan (sndNXT r1) ?e then r1\<lparr>timing := False\<rparr>
      else if \<not> running r2 then r2\<lparr>running := True, deadline := now' + CurrentRTO r2\<rparr> else r2)"
    unfolding rt_postTx_def Let_def if_not_P [OF False] r2_def r1_def by simp
  have r1: "timer_ok M (now', r1)" using assms by (auto simp: r1_def timer_ok_def est_ok_def)
  then have "est_ok M r2" "timing r2 \<longrightarrow> 0 \<le> timedAt r2 \<and> timedAt r2 \<le> now'" "backoff r2 \<le> backoffMax" "running r2 = running r1" "deadline r2 = deadline r1"
    by (auto simp: r2_def timer_ok_def est_ok_def)
  then show ?thesis
    using r1 CurrentRTO_bounds [of r2] unfolding eq by (auto simp: timer_ok_def est_ok_def rtoMin_def)
qed

lemma timer_ok_step: "timer_step M s s' \<Longrightarrow> timer_ok M s \<Longrightarrow> timer_ok M s'"
proof (induction rule: timer_step.induct)
  case (observe sample now r)
  then show ?case using updateRTT_est_ok [of M r sample] by (simp add: timer_ok_def)
next
  case (reset now r)
  then show ?case using timer_ok_zero [of now M] by (simp add: rt_Reset_def timer_ok_def)
qed (auto intro: timer_ok_postRx timer_ok_preTx timer_ok_postTx)

lemma timer_reachable_ok:
  assumes "(timer_step M)\<^sup>*\<^sup>* (0, zeroTimer clk k) (now, r)" "0 \<le> M"
  shows "timer_ok M (now, r)"
proof -
  have "timer_ok M (0, zeroTimer clk k)" using assms(2) by (simp add: timer_ok_zero)
  with assms(1) show ?thesis by (induction rule: rtranclp_induct) (auto intro: timer_ok_step)
qed

text \<open>
  C34. The 64-bit times of the estimator never overflow. Whatever segments are sent and received
  and whatever samples are observed, while the clock and the samples stay below \<open>2^60\<close> nanoseconds
  (36 years) every quantity that \<open>updateRTT\<close> and the timer compute stays in the range of an
  \<open>int64\<close>, the estimates are not negative, and the timeout in effect is between 200 ms and 60 s.
\<close>

theorem timer_fits_int64:
  assumes "(timer_step M)\<^sup>*\<^sup>* (0, zeroTimer clk k) (now, r)" "0 \<le> M" "M \<le> 2 ^ 60" "0 < sample" "sample \<le> M"
  shows "{srtt r, rttvar r, rto r, now + CurrentRTO r} \<subseteq> {0..<2 ^ 63} \<and>
    {srtt r - sample, \<bar>srtt r - sample\<bar> - rttvar r, 4 * rttvar (updateRTT r sample), rto (updateRTT r sample)}
      \<subseteq> {- (2 ^ 63)..<2 ^ 63} \<and>
    (timing r \<longrightarrow> now - timedAt r \<in> {0..<2 ^ 63}) \<and> (running r \<longrightarrow> deadline r \<in> {0..<2 ^ 63}) \<and>
    CurrentRTO r \<in> {rtoMin..rtoMax} \<and> backoff r \<le> backoffMax"
proof -
  have ok: "timer_ok M (now, r)" using timer_reachable_ok [OF assms(1,2)] .
  have u: "est_ok M (updateRTT r sample)" using updateRTT_est_ok [of M r sample] ok assms(5) by (simp add: timer_ok_def)
  show ?thesis using ok u assms(3-5) CurrentRTO_bounds [of r]
    by (auto simp: timer_ok_def est_ok_def rto_consts)
qed

definition demoSent :: Segment where
  "demoSent = \<lparr>SEQ = 7, ACK = 0, DATALEN = 5, WND = 8, SegFlags = FlagACK\<rparr>"

theorem timer_fits_int64_witness:
  "\<exists>now r. (timer_step 1000)\<^sup>*\<^sup>* (0, zeroTimer (\<lambda>_. 0) 0) (now, r) \<and> srtt r = 140 \<and> rto r = 420 \<and>
     {srtt r, rttvar r, rto r, now + CurrentRTO r} \<subseteq> {0..<2 ^ 63} \<and> CurrentRTO r \<in> {rtoMin..rtoMax}"
proof -
  let ?z = "zeroTimer (\<lambda>_. 0) 0"
  let ?r1 = "rt_postTx ?z demoSent 10"
  let ?r2 = "rt_postRx ?r1 \<lparr>SEQ = 0, ACK = 12, DATALEN = 0, WND = 8, SegFlags = FlagACK\<rparr> 150"
  have "timer_step 1000 (0, ?z) (10, ?r1)" "timer_step 1000 (10, ?r1) (150, ?r2)"
    by (intro timer_step.tx timer_step.rx; simp)+
  then have st: "(timer_step 1000)\<^sup>*\<^sup>* (0, ?z) (150, ?r2)"
    by (rule converse_rtranclp_into_rtranclp [OF _ r_into_rtranclp])
  have v: "srtt ?r2 = 140" "rto ?r2 = 420" by code_simp+
  from timer_fits_int64 [OF st, of 1] show ?thesis
    using st v by (intro exI [of _ 150] exI [of _ ?r2]) simp
qed

section \<open>Exponential backoff\<close>

text \<open>The timer after \<open>k\<close> timeouts in a row, each noticed when it is due.\<close>

primrec timeouts :: "Value \<Rightarrow> nat \<Rightarrow> Timer \<Rightarrow> Timer" where
  "timeouts una 0 r = r"
| "timeouts una (Suc k) r = (let r' = timeouts una k r in fst (rt_preTx r' (deadline r') una))"

lemma timeouts_run:
  assumes "running r" "sndUNA r \<noteq> sndNXT r" "backoff r = 0"
  shows "running (timeouts una k r) \<and> sndUNA (timeouts una k r) \<noteq> sndNXT (timeouts una k r) \<and>
    unat (backoff (timeouts una k r)) = min k 12 \<and> CurrentRTO (timeouts una k r) = min (CurrentRTO r * 2 ^ k) rtoMax"
proof (induction k)
  case 0
  show ?case using assms CurrentRTO_bounds [of r] by simp
next
  case (Suc k)
  define q where "q = timeouts una k r"
  have q: "running q" "sndUNA q \<noteq> sndNXT q" "unat (backoff q) = min k 12" "CurrentRTO q = min (CurrentRTO r * 2 ^ k) rtoMax"
    using Suc by (simp_all add: q_def)
  define q' where "q' = timedOut q"
  have q': "timeouts una (Suc k) r = q'\<lparr>running := True, deadline := deadline q + CurrentRTO q'\<rparr>"
    using q(1,2) by (simp add: q_def [symmetric] q'_def rt_preTx_due)
  have lt: "backoff q < backoffMax \<longleftrightarrow> k < 12" using q(3) by (auto simp: word_less_nat_alt backoffMax_def)
  have "unat (backoff q') = min (Suc k) 12"
    unfolding q'_def timedOut_simps lt using q(3) by (auto simp: unat_word_ariths)
  moreover have "CurrentRTO q' = min (CurrentRTO r * 2 ^ Suc k) rtoMax"
  proof (cases "k < 12")
    case True
    then show ?thesis unfolding q'_def CurrentRTO_timedOut lt q(4) by (auto simp: rtoMax_def min_def)
  next
    case False
    then have "(2 ^ 12 :: int) \<le> 2 ^ k" by (intro power_increasing) auto
    then have "rtoMax \<le> CurrentRTO r * 2 ^ k"
      using CurrentRTO_bounds(1) [of r] mult_mono [of rtoMin "CurrentRTO r" "2 ^ 12" "2 ^ k"] by (auto simp: rto_consts)
    moreover from this have "rtoMax \<le> CurrentRTO r * 2 ^ Suc k" by (simp add: rtoMax_def)
    ultimately show ?thesis unfolding q'_def CurrentRTO_timedOut lt q(4) using False by simp
  qed
  ultimately show ?case unfolding q' using q(2) by (simp add: q'_def CurrentRTO_def)
qed

text \<open>
  C33. Exponential backoff. While the oldest data stays unacknowledged, the timer asks at each
  deadline for a retransmission from the oldest unacknowledged byte, without a limit, and the
  time to the next deadline doubles each time from the timeout in effect up to 60 seconds. The cap
  of twelve doublings in the code is never what limits it.
\<close>

theorem rto_backs_off:
  assumes "running r" "sndUNA r \<noteq> sndNXT r" "backoff r = 0"
  shows "snd (rt_preTx (timeouts una k r) (deadline (timeouts una k r)) una) = (TransmitUnlimited, una, True) \<and>
    deadline (timeouts una (Suc k) r) - deadline (timeouts una k r) = min (CurrentRTO r * 2 ^ Suc k) rtoMax \<and>
    (now < deadline (timeouts una k r) \<longrightarrow> rt_preTx (timeouts una k r) now una = (timeouts una k r, TransmitUnlimited, 0, False))"
proof -
  define q where "q = timeouts una k r"
  have q: "running q" "sndUNA q \<noteq> sndNXT q" using timeouts_run [OF assms, of una k] by (simp_all add: q_def)
  then have d: "timeouts una (Suc k) r = (timedOut q)\<lparr>running := True, deadline := deadline q + CurrentRTO (timedOut q)\<rparr>"
    by (simp add: q_def [symmetric] rt_preTx_due)
  then have "CurrentRTO (timedOut q) = min (CurrentRTO r * 2 ^ Suc k) rtoMax"
    using timeouts_run [OF assms, of una "Suc k"] by (simp add: CurrentRTO_def)
  then show ?thesis using q unfolding d q_def [symmetric] by (simp add: rt_preTx_due) (simp add: rt_preTx_def)
qed

theorem rto_backs_off_witness:
  "\<exists>r. running r \<and> sndUNA r \<noteq> sndNXT r \<and> backoff r = 0 \<and>
     deadline (timeouts 7 (Suc 2) r) - deadline (timeouts 7 2 r) = 8 * rtoInitial \<and>
     deadline (timeouts 7 (Suc 19) r) - deadline (timeouts 7 19 r) = rtoMax"
proof -
  let ?r = "rt_postTx (zeroTimer (\<lambda>_. 0) 0) demoSent 10"
  have v: "running ?r" "sndUNA ?r \<noteq> sndNXT ?r" "backoff ?r = 0" "CurrentRTO ?r = rtoInitial" by code_simp+
  from rto_backs_off [OF v(1-3), of 7 2] rto_backs_off [OF v(1-3), of 7 19] show ?thesis
    using v by (intro exI [of _ ?r]) (simp add: rto_consts del: timeouts.simps)
qed

end
