(* ===== verification/Tcp_Rto_Handler.thy ===== *)
theory Tcp_Rto_Handler
  imports Tcp_Rto Tcp_Pending
begin

text \<open>
  The handler of \<open>tcp/handler.go\<close> with the retransmission timer of \<open>tcp/rto/timer.go\<close> as its
  policy. A policy that only keeps time is transparent: \<open>Send\<close> with it is \<open>Send\<close> without it after
  the rewind the policy asks for. When the timer of a connection with unacknowledged data is due,
  the next \<open>Send\<close> puts the oldest unacknowledged bytes on the wire again.
\<close>

section \<open>An established handler with data and window sends\<close>

lemma PendingSegment_now:
  assumes "txQueuedDataOpen (tcbState t)" "pending0 t \<in> {0, FlagACK}" "\<not> pendingChallengeAck t" "\<not> HasPendingRetransmit t"
    and "0 < n" "0 < maxSend (sndS t)"
  obtains k where "0 < k" "k \<le> n" "k \<le> uint (maxSend (sndS t))"
    "PendingSegment t n = Some (\<lparr>SEQ = sNXT (sndS t), ACK = rNXT (rcvS t), DATALEN = word_of_int k,
       WND = rWND (rcvS t), SegFlags = FlagACK\<rparr>, True)"
proof -
  define m where "m = (if n > uint (maxSend (sndS t)) then uint (maxSend (sndS t)) else n)"
  define k where "k = (if sMSS (sndS t) > 0 \<and> m > uint (sMSS (sndS t)) then uint (sMSS (sndS t)) else m)"
  have m: "0 < m" "m \<le> n" "m \<le> uint (maxSend (sndS t))" using assms(5,6) by (auto simp: m_def word_less_def)
  then have k: "0 < k" "k \<le> n" "k \<le> uint (maxSend (sndS t))" by (auto simp: k_def word_less_def)
  have f: "pending0 t OR FlagACK = FlagACK" "HasAny FlagACK FlagACK" "\<not> HasAny FlagACK FlagRST"
    using assms(2) by (auto simp: flag_bits)
  have le: "\<not> maxSend (sndS t) > sWND (sndS t)" using maxSend_le [of "sndS t"] by (simp add: not_less)
  have "PendingSegment t n = Some (\<lparr>SEQ = sNXT (sndS t), ACK = rNXT (rcvS t), DATALEN = word_of_int k,
       WND = rWND (rcvS t), SegFlags = FlagACK\<rparr>, True)"
    using assms f le by (auto simp: PendingSegment_def Let_def m_def k_def)
  with k that show ?thesis by blast
qed

lemma sendEmit_established:
  assumes "policy h = None" "h_State h = StateEstablished" "20 \<le> length b"
    and "SEQ seg = sNXT (sndS (scb h))" "ACK seg = rNXT (rcvS (scb h))" "SegFlags seg \<in> {FlagACK, FlagACK OR FlagPSH}"
    and "WND seg \<le> maxWindow" "0 < sWND (sndS (scb h))" "DATALEN seg \<le> sWND (sndS (scb h))"
  shows "\<exists>h' b'. sendEmit h b seg 5 = Some (h', b', int (20 + unat (DATALEN seg)), None)"
proof -
  have fl: "\<not> HasAny (SegFlags seg) FlagRST" "LEN seg = DATALEN seg"
    using assms(6) by (auto simp: flag_bits bit_simps LEN_bits)
  have "validateOutgoingSegment (scb h) seg = None"
    using assms by (intro validateOutgoing_in_window) (auto simp: h_State_def fl word_le_nat_alt)
  then obtain t where t: "tcb_Send (scb h) seg = (t, None)" by (simp add: tcb_Send_def Let_def)
  have w: "wireWnd h' s \<le> 0xffff" for h' :: "'a HandlerP" and s by (simp add: wireWnd_def Let_def not_less)
  have e: "unat (5 :: u8) * 4 = 20" by simp
  show ?thesis
    unfolding sendEmit_eq [OF t assms(1) _ fl(1)] e
    using assms(2,3) w
    by (subst sendEmit_eq [OF t assms(1) _ fl(1)])
      (simp_all add: tcp_field_defs tcp_SetSegment_def put_be_Some not_less)
qed

lemma h_Send_progress:
  assumes "policy h = None" "h_State h = StateEstablished" "\<not> requeueControl h" "\<not> closing h"
    and "pending0 (scb h) \<in> {0, FlagACK}" "\<not> pendingChallengeAck (scb h)" "\<not> HasPendingRetransmit (scb h)"
    and "tx_sync h q S U" "U \<noteq> []" "sl_Free (slist (bufTx h)) \<noteq> 0" "0 < maxSend (sndS (scb h))"
    and "20 < length b" "length b < 2 ^ 32" "recvWindow h \<le> maxWindow"
  shows "\<exists>h' b' n. h_Send h b = Some (h', b', n, None) \<and> 20 < n"
proof -
  have tx: "tx_is (bufTx h) q S U" "S \<noteq> [] \<Longrightarrow> sNXT (sndS (scb h)) = q + of_nat (length S)"
    using assms(8) by (simp_all add: tx_sync_def)
  have un: "BufferedUnsent (bufTx h) = int (length U)" using tx_counters [OF tx(1)] by simp
  define n where "n = int (length b) - 20"
  have n: "0 < n" "n < 2 ^ 32" using assms(12,13) by (simp_all add: n_def)
  have lim: "\<not> TransmitUnlimited < word_of_int n" by (simp add: TransmitUnlimited_def not_less)
  have offer: "sendOffer h b TransmitUnlimited = n" using lim by (simp add: sendOffer_def Let_def n_def)
  have dataopen: "txQueuedDataOpen (tcbState (scb h))"
    using assms(2) by (simp add: h_State_def txQueuedDataOpen_def TxDataOpen_def)
  obtain k where k: "0 < k" "k \<le> n" "k \<le> uint (maxSend (sndS (scb h)))"
    and p: "PendingSegment (scb h) n = Some (\<lparr>SEQ = sNXT (sndS (scb h)), ACK = rNXT (rcvS (scb h)),
       DATALEN = word_of_int k, WND = rWND (rcvS (scb h)), SegFlags = FlagACK\<rparr>, True)"
    by (rule PendingSegment_now [OF dataopen assms(5-7) n(1) assms(11)])
  have uk: "uint (word_of_int k :: u32) = k" using k n by (simp add: uint_word_of_int take_bit_int_eq_self)
  then have unk: "unat (word_of_int k :: u32) = nat k" by (metis nat_uint_eq)
  have kpos: "0 < (word_of_int k :: u32)" using uk k(1) by (simp add: word_less_def)
  obtain tx' where mp: "tx_MakePacket (bufTx h) (nat k) (sNXT (sndS (scb h))) = Some (tx', take (nat k) U, None)"
    using MakePacket_new [OF tx(1) assms(9) _ assms(10) tx(2), of "nat k"] k(1) by auto
  let ?d = "take (nat k) U"
  let ?seg = "\<lparr>SEQ = sNXT (sndS (scb h)), ACK = rNXT (rcvS (scb h)), DATALEN = of_nat (length ?d),
    WND = recvWindow h, SegFlags = FlagACK OR FlagPSH\<rparr>"
  have dn: "?d \<noteq> []" using k(1) assms(9) by simp
  have sl: "go_slice b 20 (20 + k) = Some (take (nat k) (drop 20 b))"
    using go_slice_int [of b 20 "20 + nat k"] k n_def by auto
  have "20 + length ?d \<le> length b" unfolding length_take using k(1,2) n_def by linarith
  then have pl: "20 \<le> length (patch 20 ?d b)" by (simp add: patch_def)
  have na: "FlagACK \<noteq> synack" by code_simp
  have seg: "sendSegment h b 5 TransmitUnlimited False False = Some (Emit (h\<lparr>bufTx := tx'\<rparr>) (patch 20 ?d b) ?seg 5)"
    unfolding sendSegment_eq offer p using mp uk unk kpos sl dn na by (simp add: Let_def)
  have "length ?d < 2 ^ 32" using k(2) n(2) by auto
  then have ul: "unat (of_nat (length ?d) :: u32) = length ?d" by (simp add: unat_of_nat)
  then have "unat (of_nat (length ?d) :: u32) \<le> nat k" by simp
  moreover have "nat k \<le> unat (sWND (sndS (scb h)))"
    using k(3) maxSend_le [of "sndS (scb h)"] by (simp add: nat_le_iff word_le_def)
  ultimately have "(of_nat (length ?d) :: u32) \<le> sWND (sndS (scb h))" by (simp add: word_le_nat_alt)
  moreover have "0 < sWND (sndS (scb h))" using assms(11) maxSend_le [of "sndS (scb h)"] by (rule order_less_le_trans)
  ultimately obtain h' b' where em: "sendEmit (h\<lparr>bufTx := tx'\<rparr>) (patch 20 ?d b) ?seg 5 = Some (h', b', int (20 + unat (DATALEN ?seg)), None)"
    using sendEmit_established [of "h\<lparr>bufTx := tx'\<rparr>" "patch 20 ?d b" ?seg] assms(1,2,12,14) pl by (auto simp: h_State_def)
  have "0 < unat (DATALEN ?seg)" unfolding Segment.simps ul using dn by blast
  moreover have "\<not> IsTxOver h" "\<not> AwaitingSynSend h" "sendAutoClose h = h" "sendClose h = (h, None)"
    using assms(2,4) by (simp_all add: IsTxOver_def AwaitingSynSend_def sendAutoClose_def sendClose_def)
  moreover have "tcp_NewFrame b = (b, None)" using assms(12) by (simp add: tcp_NewFrame_def sizeHeaderTCP_def)
  moreover have "BufferedUnsent (bufTx h) \<noteq> 0" using un assms(9) by simp
  ultimately have "0 < unat (DATALEN ?seg)" "h_Send h b = Some (h', b', int (20 + unat (DATALEN ?seg)), None)"
    using assms(1,3) seg em unfolding h_Send_def sendPolicy_def sendFrom_def Let_def by simp_all
  then show ?thesis by (intro exI conjI) (assumption, linarith)
qed

section \<open>Policies that only keep time\<close>

definition erase :: "'p HandlerP \<Rightarrow> 'p HandlerP" where
  "erase h = h\<lparr>policy := None\<rparr>"

lemma erase_simps [simp]:
  "connid (erase h) = connid h" "scb (erase h) = scb h" "bufTx (erase h) = bufTx h" "bufRx (erase h) = bufRx h"
  "closing (erase h) = closing h" "requeueControl (erase h) = requeueControl h" "reasm (erase h) = reasm h"
  "localPort (erase h) = localPort h" "remotePort (erase h) = remotePort h" "policy (erase h) = None"
  "wndShiftLocal (erase h) = wndShiftLocal h" "peerOfferedWS (erase h) = peerOfferedWS h"
  "h_State (erase h) = h_State h" "AwaitingSynSend (erase h) = AwaitingSynSend h" "IsTxOver (erase h) = IsTxOver h"
  "recvWindow (erase h) = recvWindow h" "wireWnd (erase h) = wireWnd h"
  "nextSegmentIsRetransmit (erase h) = nextSegmentIsRetransmit h" "putSynOptions (erase h) = putSynOptions h"
  by (auto simp: erase_def h_State_def AwaitingSynSend_def IsTxOver_def recvWindow_def wireWnd_def
      nextSegmentIsRetransmit_def putSynOptions_def fun_eq_iff Let_def)

lemma erase_updates:
  "(erase h)\<lparr>scb := t\<rparr> = erase (h\<lparr>scb := t\<rparr>)" "(erase h)\<lparr>bufTx := tx\<rparr> = erase (h\<lparr>bufTx := tx\<rparr>)"
  "(erase h)\<lparr>requeueControl := r\<rparr> = erase (h\<lparr>requeueControl := r\<rparr>)" "(erase h)\<lparr>closing := c\<rparr> = erase (h\<lparr>closing := c\<rparr>)"
  "erase (h\<lparr>policy := p\<rparr>) = erase h"
  by (simp_all add: erase_def)

lemma erase_ops:
  "h_reset (erase h) l r i = erase (h_reset h l r i)" "h_Abort (erase h) = erase (h_Abort h)"
  "sendAutoClose (erase h) = erase (sendAutoClose h)" "sendClose (erase h) = apfst erase (sendClose h)"
  by (auto simp: erase_def h_reset_def h_Abort_def sendAutoClose_def sendClose_def h_State_def split: prod.split)

lemma map_option_bind: "map_option f (Option.bind m g) = Option.bind m (\<lambda>x. map_option f (g x))"
  by (cases m) simp_all

lemma sendSegment_erase:
  "sendSegment (erase h) b 5 lim syn req = map_option (map_sendChoice erase) (sendSegment h b 5 lim syn req)"
proof (cases "syn \<or> req")
  case True
  then show ?thesis
    by (simp add: sendSegment_def Let_def erase_updates map_option_bind prod.case_distrib [of "map_option _"]
        if_distrib [of "map_option _"] cong: if_cong)
next
  case False
  have "sendOffer (erase h) b lim = sendOffer h b lim" by (simp add: sendOffer_def)
  then have "sendSegment (erase h) b 5 lim False False = map_option (map_sendChoice erase) (sendSegment h b 5 lim False False)"
    unfolding sendSegment_eq
    by (simp add: Let_def erase_updates map_option_bind prod.case_distrib [of "map_option _"]
        if_distrib [of "map_option _"] cong: if_cong)
  then show ?thesis using False by simp
qed

text \<open>What the policy is shown, and the handler after the rewind it asks for.\<close>

definition cleared :: "bytes \<Rightarrow> bytes" where
  "cleared b = patch 12 (be_enc 2 (20480 :: u16)) (patch 0 (replicate 20 0) b)"

definition rewound :: "'p HandlerP \<Rightarrow> Value \<Rightarrow> bool \<Rightarrow> 'p HandlerP" where
  "rewound h rtx re =
     (case (if re then tcb_RetransmitFrom (scb h) rtx else (scb h, False)) of (t, rw) \<Rightarrow>
        h\<lparr>scb := t, bufTx := (if rw then tx_RetransmitFrom (bufTx h) rtx else bufTx h)\<rparr>)"

lemma cleared_ops:
  assumes "20 \<le> length b"
  shows "tcp_ClearHeader b = Some (patch 0 (replicate 20 0) b)"
    "tcp_SetOffsetAndFlags (patch 0 (replicate 20 0) b) 5 0 = Some (cleared b)"
    "tcp_OffsetAndFlags (cleared b) = Some (5, 0)" "length (cleared b) = length b"
proof -
  have m: "push_bit 12 (ucast (5 :: u8)) OR Mask 0 = (20480 :: u16)" by code_simp
  show l: "length (cleared b) = length b" using assms by (simp add: cleared_def)
  show "tcp_ClearHeader b = Some (patch 0 (replicate 20 0) b)"
    using assms by (simp add: tcp_ClearHeader_def put_bytes_Some)
  show "tcp_SetOffsetAndFlags (patch 0 (replicate 20 0) b) 5 0 = Some (cleared b)"
    unfolding tcp_SetOffsetAndFlags_def m using assms by (simp add: put_be_Some cleared_def)
  have "get16 (cleared b) 12 = Some (20480 :: u16)" using assms by (simp add: cleared_def frame_access)
  moreover have "ucast (drop_bit 12 (20480 :: u16)) = (5 :: u8)" "Mask (20480 :: u16) = 0" by code_simp+
  ultimately show "tcp_OffsetAndFlags (cleared b) = Some (5, 0)" by (simp add: tcp_OffsetAndFlags_def)
qed

lemma rewound_simps [simp]:
  "policy (rewound h rtx re) = policy h" "h_State (rewound h rtx re) = h_State h"
  "requeueControl (rewound h rtx re) = requeueControl h" "closing (rewound h rtx re) = closing h"
  "recvWindow (rewound h rtx re) = recvWindow h" "pend_ok (scb (rewound h rtx re)) = pend_ok (scb h)"
  by (auto simp: rewound_def h_State_def pend_ok_def recvWindow_def tcb_RetransmitFrom_def Let_def split: prod.split)

locale timing_policy =
  fixes pol :: "'p Policy"
  assumes pre_frame: "PolPreTx pol p h b = (p', b', lim, rtx, re) \<Longrightarrow> b' = b \<and> lim = TransmitUnlimited"
    and post_frame: "snd (PolPostTx pol p h b) = b"
begin

lemma sendEmit_transparent:
  assumes "policy h = Some (pol, p)" "unat off * 4 + unat (DATALEN seg) \<le> length b"
  shows "map_option (apfst erase) (sendEmit h b seg off) = sendEmit (erase h) b seg off"
proof -
  obtain t e where t: "tcb_Send (scb h) seg = (t, e)" by fastforce
  let ?h = "h\<lparr>scb := t, requeueControl := False\<rparr>"
  let ?seg = "seg\<lparr>WND := wireWnd ?h seg\<rparr>" and ?n = "unat off * 4 + unat (DATALEN seg)"
  have ww: "wireWnd (erase ?h) = wireWnd ?h" by simp
  show ?thesis
  proof (cases "e = None \<and> (do { b \<leftarrow> tcp_SetSourcePort b (localPort h); b \<leftarrow> tcp_SetDestinationPort b (remotePort h);
      b \<leftarrow> tcp_SetSegment b ?seg off; tcp_SetUrgentPtr b 0 }) \<noteq> None")
    case False
    then show ?thesis using t ww
      by (auto simp: sendEmit_def Let_def erase_updates split: bind_splits)
  next
    case True
    then obtain b1 b2 b3 b4 where w: "tcp_SetSourcePort b (localPort h) = Some b1"
      "tcp_SetDestinationPort b1 (remotePort h) = Some b2" "tcp_SetSegment b2 ?seg off = Some b3"
      "tcp_SetUrgentPtr b3 0 = Some b4" and e: "e = None"
      by (auto split: bind_splits)
    have "length b4 = length b" using w by (simp add: tcp_header_length)
    then have sl: "go_slice b4 0 (int ?n) = Some (take ?n b4)" "patch 0 (take ?n b4) b4 = b4"
      using assms(2) go_slice_int [of b4 0 ?n] by (simp_all add: patch_def)
    obtain p' where pt: "(if snd (tcp_NewFrame (take ?n b4)) = None
        then PolPostTx pol p (Handler.truncate ?h) (take ?n b4) else (p, take ?n b4)) = (p', take ?n b4)"
      using post_frame [of p "Handler.truncate ?h" "take ?n b4"]
      by (cases "PolPostTx pol p (Handler.truncate ?h) (take ?n b4)"; cases "snd (tcp_NewFrame (take ?n b4)) = None") auto
    define out where "out = (\<lambda>k :: 'p HandlerP. (if h_State h = StateTimeWait \<and> HasAny (SegFlags seg) FlagACK then h_reset k 0 0 0
      else if HasAny (SegFlags seg) FlagRST then h_Abort k else k))"
    have "sendEmit h b seg off = Some (out (?h\<lparr>policy := Some (pol, p')\<rparr>), b4, int ?n, None)"
      using t e w sl pt assms(1) by (simp add: sendEmit_def Let_def out_def)
    moreover have "sendEmit (erase h) b seg off = Some (out (erase ?h), b4, int ?n, None)"
      using t e w ww by (simp add: sendEmit_def Let_def out_def erase_updates)
    moreover have "erase (out (?h\<lparr>policy := Some (pol, p')\<rparr>)) = out (erase ?h)"
      by (simp add: out_def erase_ops [symmetric] erase_updates)
    ultimately show ?thesis by simp
  qed
qed

lemma sendFrom_transparent:
  assumes "policy h = Some (pol, p)" "24 \<le> length b" "pend_ok (scb h)"
  shows "map_option (apfst erase) (sendFrom h b 5 lim) = sendFrom (erase h) b 5 lim"
proof -
  let ?h = "sendAutoClose h"
  have a: "policy ?h = Some (pol, p)" "pend_ok (scb ?h)" using assms by (simp_all add: sendAutoClose_def)
  obtain h2 e where c: "sendClose ?h = (h2, e)" by fastforce
  have h2: "policy h2 = Some (pol, p)" "pend_ok (scb h2)"
    using c a tcb_Close_pend_ok [of "scb ?h"] by (auto simp: sendClose_def split: if_splits prod.splits)
  have c': "sendClose (erase ?h) = (erase h2, e)" using c by (simp add: erase_ops)
  let ?s = "sendSegment h2 b 5 lim (AwaitingSynSend h) (requeueControl h)"
  have "map_option (apfst erase) (?s \<bind> (\<lambda>c. case c of Nothing h b err \<Rightarrow> Some (h, b, 0, err) | Emit h b seg off \<Rightarrow> sendEmit h b seg off)) =
      map_option (map_sendChoice erase) ?s \<bind> (\<lambda>c. case c of Nothing h b err \<Rightarrow> Some (h, b, 0, err) | Emit h b seg off \<Rightarrow> sendEmit h b seg off)"
  proof (cases ?s)
    case (Some c)
    have "fits b h2 c" using sendSegment_fits [OF Some assms(2) h2(2)] .
    then show ?thesis using Some h2(1) sendEmit_transparent by (cases c) (simp_all add: fits_def)
  qed simp
  then show ?thesis using c c'
    by (auto simp: sendFrom_def Let_def sendSegment_erase erase_ops split: option.split)
qed

lemma h_Send_transparent:
  assumes "policy h = Some (pol, p)" "24 \<le> length b" "pend_ok (scb h)" "h_State h \<noteq> StateClosed" "h_State h \<noteq> StateTimeWait"
    and "PolPreTx pol p (Handler.truncate h) (cleared b) = (p', b', lim, rtx, re)"
  shows "map_option (apfst erase) (h_Send h b) = h_Send (erase (rewound h rtx re)) (cleared b)"
proof -
  have b': "b' = cleared b" "lim = TransmitUnlimited" using pre_frame [OF assms(6)] by simp_all
  have b: "20 \<le> length b" using assms(2) by simp
  note c = cleared_ops [OF b]
  let ?h = "(rewound h rtx re)\<lparr>policy := Some (pol, p')\<rparr>"
  have ok: "\<not> IsTxOver h" "\<not> IsTxOver (rewound h rtx re)" using assms(4,5) by (simp_all add: IsTxOver_def)
  have f: "tcp_NewFrame x = (x, None)" if "20 \<le> length x" for x using that by (simp add: tcp_NewFrame_def sizeHeaderTCP_def)
  have "sendPolicy h b = Some (?h, cleared b, 5, TransmitUnlimited)"
    using assms(1,6) c b' by (simp add: sendPolicy_def Let_def rewound_def split: prod.split)
  then have "h_Send h b = sendFrom ?h (cleared b) 5 TransmitUnlimited" using ok f [OF b] by (simp add: h_Send_def)
  moreover have "h_Send (erase (rewound h rtx re)) (cleared b) = sendFrom (erase ?h) (cleared b) 5 TransmitUnlimited"
    using ok f [of "cleared b"] b c(4) by (simp add: h_Send_def sendPolicy_def erase_updates)
  moreover have "pend_ok (scb ?h)" using assms(3) by simp
  ultimately show ?thesis
    using sendFrom_transparent [of ?h p' "cleared b"] assms(2) c(4) by simp
qed

end

interpretation rtoTimer: timing_policy rtoPolicy
proof
  show "b' = b \<and> lim = TransmitUnlimited" if "PolPreTx rtoPolicy p h b = (p', b', lim, rtx, re)" for p h b p' b' lim rtx re
    using that by (auto simp: rtoPolicy_def rt_PreTx_def rt_preTx_def rt_now_def Let_def split: prod.splits if_splits)
  show "snd (PolPostTx rtoPolicy p h b) = b" for p h b
    by (simp add: rtoPolicy_def rt_PostTx_def rt_now_def split: option.split)
qed

section \<open>Retransmission\<close>

lemma rewound_una:
  assumes "tx_is (bufTx h) (sUNA (sndS (scb h))) S U" "S \<noteq> []" "sNXT (sndS (scb h)) = sUNA (sndS (scb h)) + of_nat (length S)"
    and "h_State h = StateEstablished"
  shows "tx_is (bufTx (rewound h (sUNA (sndS (scb h))) True)) (sUNA (sndS (scb h))) [] (S @ U)"
    "scb (rewound h (sUNA (sndS (scb h))) True) =
      (scb h)\<lparr>sndS := (sndS (scb h))\<lparr>sNXT := sUNA (sndS (scb h))\<rparr>, dupack := 0, nRetransmit := 0\<rparr>"
    "pkts (slist (bufTx (rewound h (sUNA (sndS (scb h))) True))) = []"
    "pktCap (slist (bufTx (rewound h (sUNA (sndS (scb h))) True))) = pktCap (slist (bufTx h))"
proof -
  let ?q = "sUNA (sndS (scb h))"
  obtain xs so s uo u ks where at: "tx_at (bufTx h) ?q xs so s uo u ks" and SU: "length S = s"
    using assms(1) by (rule tx_is_obtain)
  note x = tx_atD [OF at]
  obtain k rs where ks: "ks = k # rs" using x(13) SU assms(2) by (cases ks) auto
  have k: "pkSeq k = ?q" using x(12) ks by simp
  have "length S < 2147483648" using SU x(3,10) by linarith
  then have "unat (of_nat (length S) :: u32) < 2147483648" by (simp add: unat_of_nat)
  then have "\<not> LessThan (sNXT (sndS (scb h))) ?q" "\<not> LessThan ?q ?q"
    unfolding assms(3) LessThan_iff using unat_sub_cases [of 0 "of_nat (length S) :: u32"]
    by (auto split: if_splits)
  then have rf: "tcb_RetransmitFrom (scb h) ?q = ((scb h)\<lparr>sndS := (sndS (scb h))\<lparr>sNXT := ?q\<rparr>, dupack := 0, nRetransmit := 0\<rparr>, True)"
    using assms(4) by (simp add: tcb_RetransmitFrom_def h_State_def txQueuedDataOpen_def TxDataOpen_def)
  have una: "tx_RetransmitFromUNA (bufTx h) = tx_RetransmitFrom (bufTx h) ?q"
    using x(11) ks k by (simp add: tx_RetransmitFromUNA_def sl_Oldest_def)
  show is': "tx_is (bufTx (rewound h ?q True)) ?q [] (S @ U)"
    using tx_RetransmitFromUNA_ok [OF assms(1)] una rf by (simp add: rewound_def)
  show "scb (rewound h ?q True) = (scb h)\<lparr>sndS := (sndS (scb h))\<lparr>sNXT := ?q\<rparr>, dupack := 0, nRetransmit := 0\<rparr>"
    using rf by (simp add: rewound_def)
  obtain xs so s uo u ks where at: "tx_at (bufTx (rewound h ?q True)) ?q xs so 0 uo u ks"
    using is' by (auto elim!: tx_is_obtain)
  then show "pkts (slist (bufTx (rewound h ?q True))) = []" using tx_atD(11-13) [OF at] chain_pos by fastforce
  show "pktCap (slist (bufTx (rewound h ?q True))) = pktCap (slist (bufTx h))"
    using rf by (simp add: rewound_def tx_RetransmitFrom_def truncateFrom_def Let_def split: option.split)
qed

text \<open>An established handler with nothing to send but data.\<close>

definition at_rest :: "'p HandlerP \<Rightarrow> bool" where
  "at_rest h \<longleftrightarrow> h_State h = StateEstablished \<and> \<not> requeueControl h \<and> \<not> closing h \<and>
     pending0 (scb h) \<in> {0, FlagACK} \<and> \<not> HasAny (pending1 (scb h)) FlagSYN \<and> \<not> pendingChallengeAck (scb h) \<and>
     recvWindow h \<le> maxWindow"

text \<open>
  C32. Lost data is sent again. Let an established handler with the retransmission timer as its
  policy have sent the bytes \<open>S\<close> and not yet the bytes \<open>U\<close>, none of \<open>S\<close> acknowledged, and let the
  timer be due. Then, if the peer's window is open, the next \<open>Send\<close> returns a segment whose
  sequence number is \<open>snd.UNA\<close> and whose data is a non-empty prefix of \<open>S\<close> followed by \<open>U\<close>:
  the oldest unacknowledged byte goes out again.
\<close>

theorem timeout_resends_oldest:
  assumes "policy h = Some (rtoPolicy, r)" "running r" "sndUNA r \<noteq> sndNXT r" "deadline r \<le> nanotime r (readings r)"
    and "at_rest h" "tx_is (bufTx h) (sUNA (sndS (scb h))) S U" "S \<noteq> []"
    and "sNXT (sndS (scb h)) = sUNA (sndS (scb h)) + of_nat (length S)" "0 < pktCap (slist (bufTx h))"
    and "0 < sWND (sndS (scb h))" "24 \<le> length b" "length b < 2 ^ 32"
  shows "\<exists>h' b' d. h_Send h b = Some (h', b', int (20 + length d), None) \<and> d \<noteq> [] \<and> d = take (length d) (S @ U) \<and>
    tcp_Seq (take (20 + length d) b') = Some (sUNA (sndS (scb h))) \<and> tcp_Payload (take (20 + length d) b') = Some d"
proof -
  let ?q = "sUNA (sndS (scb h))" and ?c = "cleared b"
  let ?h = "erase (rewound h ?q True)"
  have rest: "h_State h = StateEstablished" "\<not> requeueControl h" "\<not> closing h" "pending0 (scb h) \<in> {0, FlagACK}"
    "\<not> HasAny (pending1 (scb h)) FlagSYN" "\<not> pendingChallengeAck (scb h)" "recvWindow h \<le> maxWindow"
    using assms(5) by (simp_all add: at_rest_def)
  note rw = rewound_una [OF assms(6-8) rest(1)]
  let ?r = "r\<lparr>readings := readings r + 1\<rparr>"
  have "rt_preTx ?r (nanotime r (readings r)) ?q = ((timedOut ?r)\<lparr>running := True,
      deadline := nanotime r (readings r) + CurrentRTO (timedOut ?r)\<rparr>, TransmitUnlimited, ?q, True)"
    using assms(2-4) by (intro rt_preTx_due) simp_all
  then obtain r' where pre: "PolPreTx rtoPolicy r (Handler.truncate h) ?c = (r', ?c, TransmitUnlimited, ?q, True)"
    by (simp add: rtoPolicy_def rt_PreTx_def rt_now_def Handler.truncate_def)
  have pend: "pend_ok (scb h)" using rest(4,5) by (auto simp: pend_ok_def flag_bits)
  have tr: "map_option (apfst erase) (h_Send h b) = h_Send ?h ?c"
    using rtoTimer.h_Send_transparent [OF assms(1,11) pend _ _ pre] rest(1) by simp
  have len: "length ?c = length b" using cleared_ops(4) [of b] assms(11) by simp
  have sc: "scb ?h = (scb h)\<lparr>sndS := (sndS (scb h))\<lparr>sNXT := ?q\<rparr>, dupack := 0, nRetransmit := 0\<rparr>" using rw(2) by simp
  have sync: "tx_sync ?h ?q [] (S @ U)" using rw(1) by (simp add: tx_sync_def)
  have nr: "\<not> HasPendingRetransmit (scb ?h)" "\<not> pendingChallengeAck (scb ?h)" "pending0 (scb ?h) \<in> {0, FlagACK}"
    unfolding sc using rest(4,6) by (simp_all add: HasPendingRetransmit_def retransmitAfterDupacks_def pendingChallengeAck_def)
  have free: "sl_Free (slist (bufTx ?h)) \<noteq> 0" using rw(3,4) assms(9) by (simp add: sl_Free_def)
  have win: "0 < maxSend (sndS (scb ?h))" unfolding sc using assms(10) by (simp add: maxSend_def inFlight_def Sizeof_def)
  have rwin: "recvWindow ?h \<le> maxWindow" using rest(7) by simp
  obtain h' b' n where s: "h_Send ?h ?c = Some (h', b', n, None)" "20 < n"
    using h_Send_progress [of ?h ?q "[]" "S @ U" ?c] sync nr free win rwin rest(1-3) assms(7,11,12) len by auto
  have sd: "sends_data (scb ?h)" using nr rest(1) unfolding sc
    by (auto simp: sends_data_def h_State_def txQueuedDataOpen_def TxDataOpen_def flag_bits)
  from handler_sends_next [OF s(1) _ _ sd _ sync] s(2) rest(2) assms(12) len obtain d where
    d: "d = take (length d) (S @ U)" "n = int (20 + length d)"
      "tcp_Seq (take (nat n) b') = Some (sNXT (sndS (scb ?h)))" "tcp_Payload (take (nat n) b') = Some d" by auto
  obtain h0 where "h_Send h b = Some (h0, b', n, None)" using tr s(1) by auto
  moreover have "nat n = 20 + length d" "d \<noteq> []" "sNXT (sndS (scb ?h)) = ?q" using d(2) s(2) sc by auto
  ultimately have "h_Send h b = Some (h0, b', int (20 + length d), None) \<and> d \<noteq> [] \<and> d = take (length d) (S @ U) \<and>
      tcp_Seq (take (20 + length d) b') = Some ?q \<and> tcp_Payload (take (20 + length d) b') = Some d"
    using d by metis
  then show ?thesis by blast
qed

text \<open>
  A handler with five bytes in flight and one unsent. Its timer was armed at time 100 and reads
  the clock 60 seconds later.
\<close>

definition demoTimer :: Timer where
  "demoTimer = rt_postTx (zeroTimer (\<lambda>k. 100 + int k * rtoMax) 1) \<lparr>SEQ = 1, ACK = 0, DATALEN = 5, WND = 8, SegFlags = FlagACK\<rparr> 100"

definition demoTimed :: "Timer HandlerP" where
  "demoTimed =
     \<lparr>connid = 1,
      scb = zeroTCB\<lparr>tcbState := StateEstablished, rcvS := \<lparr>rIRS = 4294967293, rNXT = 4294967294, rWND = 8\<rparr>,
        sndS := zeroSnd\<lparr>sISS := 0, sUNA := 1, sNXT := 6, sWND := 100\<rparr>\<rparr>,
      bufTx = demoLoss, bufRx = demoRx, validator = \<lparr>accum = [], accumBitpos = [], vldFlags = 0\<rparr>,
      localPort = 80, remotePort = 8080, optcodec = 0, wndShiftLocal = 0, wndShiftPeer = 0,
      peerOfferedWS = False, reasm = \<lparr>held = [], heldCap = 8\<rparr>, closing = False, shutdownRx = False,
      requeueControl = False, policy = Some (rtoPolicy, demoTimer)\<rparr>"

theorem timeout_resends_oldest_witness:
  "\<exists>h' b' d. h_Send demoTimed (replicate 24 0) = Some (h', b', int (20 + length d), None) \<and> d \<noteq> [] \<and>
     d = take (length d) [4, 5, 6, 7, 8, 9] \<and>
     tcp_Seq (take (20 + length d) b') = Some 1 \<and> tcp_Payload (take (20 + length d) b') = Some d"
proof -
  have t: "running demoTimer" "sndUNA demoTimer \<noteq> sndNXT demoTimer" by code_simp+
  have dl: "deadline demoTimer = 100 + rtoInitial" "nanotime demoTimer (readings demoTimer) = 100 + rtoMax"
    by (simp_all add: demoTimer_def rt_postTx_def zeroTimer_def Let_def CurrentRTO_def rto_consts LessThan_iff LEN_bits flag_bits)
  then have due: "deadline demoTimer \<le> nanotime demoTimer (readings demoTimer)" by (simp add: rto_consts)
  have h: "h_State demoTimed = StateEstablished" "\<not> requeueControl demoTimed" "\<not> closing demoTimed"
    "pending0 (scb demoTimed) = 0" "pending1 (scb demoTimed) = 0" "\<not> pendingChallengeAck (scb demoTimed)"
    "recvWindow demoTimed \<le> maxWindow" by code_simp+
  then have rest: "at_rest demoTimed" by (simp add: at_rest_def HasAny_def)
  have s: "sUNA (sndS (scb demoTimed)) = 1" "sNXT (sndS (scb demoTimed)) = 6" "sWND (sndS (scb demoTimed)) = 100"
    "bufTx demoTimed = demoLoss" "policy demoTimed = Some (rtoPolicy, demoTimer)" by (simp_all add: demoTimed_def)
  have cap: "0 < pktCap (slist demoLoss)" by code_simp
  show ?thesis
    using timeout_resends_oldest [OF s(5) t due rest, of "[4, 5, 6, 7, 8]" "[9]" "replicate 24 0"] demoLoss_is cap s by auto
qed

end
