(* ===== verification/Syn_Cookie.thy ===== *)
theory Syn_Cookie
  imports Tcp_Seq
begin

unbundle bit_operations_syntax

text \<open>
  \<open>tcp/syncookie.go\<close>: cookies that stand for a half-open connection. A cookie has the low bits of
  the counter at its making and a keyed hash of the connection; it is checked by making it again
  for the counters it may have been made with.

  The search loop of \<open>ValidateSYNCookie\<close> counts in 32 bits up to and including the configured
  distance, so it may not end: it is a partial function, and \<open>None\<close> means that it does not return.
  The addresses are the byte slices the caller passes, of any length.
\<close>

section \<open>The jar\<close>

definition counterbits :: nat where "counterbits = 5"
definition countermsk :: u32 where "countermsk = 31"

record SYNCookieJar =
  counter :: u32
  maxCounterDelta :: u32
  secret :: bytes

definition errInvalidCookie :: goerror where "errInvalidCookie = Generic ErrMismatch"

text \<open>
  The reader that is the source of the secret is what \<open>io.ReadFull\<close> gets from it: the bytes, at
  most sixteen, and the error if there were fewer. A nil reader is \<open>None\<close>.
\<close>

definition sc_Reset :: "SYNCookieJar \<Rightarrow> (bytes \<times> goerror option) option \<Rightarrow> u32 \<Rightarrow> SYNCookieJar \<times> goerror option" where
  "sc_Reset sc rand maxDelta =
     (case rand of
        None \<Rightarrow> (sc, Some (Generic ErrInvalidConfig))
      | Some (got, err) \<Rightarrow>
          let sc = sc\<lparr>secret := got @ drop (length got) (secret sc)\<rparr> in
          if err \<noteq> None then (sc, err)
          else (sc\<lparr>maxCounterDelta := (if maxDelta = 0 then 1 else maxDelta)\<rparr>, None))"

definition IncrementCounter :: "SYNCookieJar \<Rightarrow> SYNCookieJar" where
  "IncrementCounter sc = sc\<lparr>counter := counter sc + 1\<rparr>"

section \<open>The hash\<close>

definition rotl32 :: "u32 \<Rightarrow> nat \<Rightarrow> u32" where
  "rotl32 x n = push_bit n x OR drop_bit (32 - n) x"

type_synonym hashState = "u32 \<times> u32 \<times> u32 \<times> u32"

definition mixRound :: "hashState \<Rightarrow> hashState" where
  "mixRound = (\<lambda>(a, b, c, d).
     let a = a + b; d = d XOR a; d = rotl32 d 16;
         c = c + d; b = b XOR c; b = rotl32 b 12;
         a = a + b; d = d XOR a; d = rotl32 d 8;
         c = c + d; b = b XOR c; b = rotl32 b 7
     in (a, b, c, d))"

text \<open>\<open>binary.LittleEndian.Uint32\<close>, also of fewer than four bytes, the loop over the remaining ones.\<close>

fun le32 :: "bytes \<Rightarrow> u32" where
  "le32 [] = 0"
| "le32 (x # xs) = ucast x OR push_bit 8 (le32 xs)"

fun mixSrc :: "bytes \<Rightarrow> hashState \<Rightarrow> hashState" where
  "mixSrc (a # b # c # d # rest) (h0, h1, h2, h3) = mixSrc rest (mixRound (h0, h1, h2, h3 XOR le32 [a, b, c, d]))"
| "mixSrc rem (h0, h1, h2, h3) = (h0, h1, h2, h3 XOR le32 rem)"

fun mixDst :: "bytes \<Rightarrow> hashState \<Rightarrow> hashState" where
  "mixDst (a # b # c # d # rest) (h0, h1, h2, h3) = mixDst rest (mixRound (h0 XOR le32 [a, b, c, d], h1, h2, h3))"
| "mixDst rem (h0, h1, h2, h3) = (h0 XOR le32 rem, h1, h2, h3)"

definition hashTuple :: "SYNCookieJar \<Rightarrow> bytes \<Rightarrow> bytes \<Rightarrow> u16 \<Rightarrow> u16 \<Rightarrow> Value \<Rightarrow> u32 \<Rightarrow> u32" where
  "hashTuple sc srcAddr dstAddr srcPort dstPort clientISN ctr =
     (let h0 = le32 (take 4 (secret sc));
          h1 = le32 (take 4 (drop 4 (secret sc)));
          h2 = le32 (take 4 (drop 8 (secret sc)));
          h3 = le32 (take 4 (drop 12 (secret sc)));
          h0 = h0 XOR (ucast srcPort OR push_bit 16 (ucast dstPort));
          h1 = h1 XOR clientISN;
          h2 = h2 XOR ctr;
          (h0, h1, h2, h3) = mixRound (mixRound (mixDst dstAddr (mixSrc srcAddr (h0, h1, h2, h3))))
      in h0 XOR h1 XOR h2 XOR h3)"

definition generateWithCounter :: "SYNCookieJar \<Rightarrow> bytes \<Rightarrow> bytes \<Rightarrow> u16 \<Rightarrow> u16 \<Rightarrow> Value \<Rightarrow> u32 \<Rightarrow> Value" where
  "generateWithCounter sc srcAddr dstAddr srcPort dstPort clientISN ctr =
     (let hash = hashTuple sc srcAddr dstAddr srcPort dstPort clientISN ctr;
          hash = push_bit counterbits hash
      in hash OR (ctr AND countermsk))"

definition MakeSYNCookie :: "SYNCookieJar \<Rightarrow> bytes \<Rightarrow> bytes \<Rightarrow> u16 \<Rightarrow> u16 \<Rightarrow> Value \<Rightarrow> Value" where
  "MakeSYNCookie sc srcAddr dstAddr srcPort dstPort clientISN =
     generateWithCounter sc srcAddr dstAddr srcPort dstPort clientISN (counter sc)"

section \<open>Validation\<close>

text \<open>
  The loop from \<open>delta\<close> on; \<open>gen\<close> makes the cookie of the connection for a counter.
\<close>

partial_function (option) validateFrom :: "(u32 \<Rightarrow> Value) \<Rightarrow> u32 \<Rightarrow> u32 \<Rightarrow> Value \<Rightarrow> u32 \<Rightarrow> (Value \<times> goerror option) option" where
  "validateFrom gen ctr maxDelta cookie delta =
     (if delta > maxDelta then Some (0, Some errInvalidCookie)
      else if (ctr - delta) AND countermsk \<noteq> cookie AND countermsk then validateFrom gen ctr maxDelta cookie (delta + 1)
      else if gen (ctr - delta) = cookie then Some (cookie, None)
      else validateFrom gen ctr maxDelta cookie (delta + 1))"

definition ValidateSYNCookie ::
    "SYNCookieJar \<Rightarrow> bytes \<Rightarrow> bytes \<Rightarrow> u16 \<Rightarrow> u16 \<Rightarrow> Value \<Rightarrow> Value \<Rightarrow> (Value \<times> goerror option) option" where
  "ValidateSYNCookie sc srcAddr dstAddr srcPort dstPort clientISN ackNum =
     (let cookie = ackNum - 1 in
      validateFrom (generateWithCounter sc srcAddr dstAddr srcPort dstPort clientISN) (counter sc) (maxCounterDelta sc) cookie 0)"

definition encodeMSSIndex :: "u16 \<Rightarrow> u8" where
  "encodeMSSIndex mss = (if mss \<le> 536 then 0 else if mss \<le> 1220 then 1 else if mss \<le> 1460 then 2 else 3)"

definition decodeMSSIndex :: "u8 \<Rightarrow> u16" where
  "decodeMSSIndex idx =
     (let i = idx AND 3 in if i = 0 then 536 else if i = 1 then 1220 else if i = 2 then 1460 else 8960)"

declare validateFrom.simps [code]

section \<open>The loop\<close>

text \<open>The counter is in the low bits of the cookie, so a cookie made for a counter passes the first test for it.\<close>

lemma cookie_counter: "generateWithCounter sc s d p q isn ctr AND countermsk = ctr AND countermsk"
proof (rule bit_word_eqI)
  fix n
  have "bit countermsk n \<longleftrightarrow> n < 5" if "n < 32"
  proof -
    have m: "countermsk = mask 5" by (simp add: countermsk_def mask_eq_exp_minus_1)
    show ?thesis unfolding m using that by (simp only: bit_mask_iff possible_bit_word) auto
  qed
  moreover assume "n < LENGTH(32)"
  ultimately show "bit (generateWithCounter sc s d p q isn ctr AND countermsk) n = bit (ctr AND countermsk) n"
    by (auto simp: generateWithCounter_def Let_def counterbits_def bit_simps)
qed

lemma unat_Suc: "delta < m \<Longrightarrow> unat (delta + 1 :: u32) = Suc (unat delta)" for m :: u32
  using unat_u32 [of m] by (simp add: unat_word_ariths word_less_nat_alt)

text \<open>The loop returns the cookie exactly if some counter in reach makes it.\<close>

lemma validateFrom_finds:
  assumes gen: "\<And>c. gen c AND countermsk = c AND countermsk"
    and "delta \<le> d" "d \<le> m" "gen (ctr - d) = cookie"
  shows "validateFrom gen ctr m cookie delta = Some (cookie, None)"
  using assms(2)
proof (induction "unat d - unat delta" arbitrary: delta)
  case 0
  then have "delta = d" by (simp add: word_le_nat_alt word_unat_eq_iff)
  then show ?case using assms(3,4) gen [of "ctr - d"] by (subst validateFrom.simps) auto
next
  case (Suc k)
  then have lt: "delta < d" by (simp add: word_less_nat_alt)
  then have "validateFrom gen ctr m cookie (delta + 1) = Some (cookie, None)"
    using Suc(1) [of "delta + 1"] Suc(2) unat_Suc [OF lt] by (simp add: word_le_nat_alt word_less_nat_alt)
  then show ?case using lt assms(3) by (subst validateFrom.simps) auto
qed

lemma validateFrom_refuses:
  assumes "m < - 1" "\<And>d. delta \<le> d \<Longrightarrow> d \<le> m \<Longrightarrow> gen (ctr - d) \<noteq> cookie" "delta \<le> m + 1"
  shows "validateFrom gen ctr m cookie delta = Some (0, Some errInvalidCookie)"
  using assms(2,3)
proof (induction "unat m + 1 - unat delta" arbitrary: delta)
  case 0
  have "unat (m + 1) = unat m + 1" using unat_Suc [OF assms(1)] by simp
  then have "delta > m" using 0 by (simp add: word_less_nat_alt)
  then show ?case by (subst validateFrom.simps) auto
next
  case (Suc k)
  then have le: "delta \<le> m" by (simp add: word_le_nat_alt)
  then have s: "unat (delta + 1) = Suc (unat delta)" using unat_Suc assms(1) order_le_less_trans by blast
  have "validateFrom gen ctr m cookie (delta + 1) = Some (0, Some errInvalidCookie)"
  proof (rule Suc(1))
    show "k = unat m + 1 - unat (delta + 1)" using Suc(2) s by simp
    show "gen (ctr - d) \<noteq> cookie" if "delta + 1 \<le> d" "d \<le> m" for d
      using Suc(3) [of d] that s by (simp add: word_le_nat_alt)
    show "delta + 1 \<le> m + 1" using le s unat_Suc [OF assms(1)] by (simp add: word_le_nat_alt)
  qed
  then show ?case using le Suc(3) [of delta] by (subst validateFrom.simps) auto
qed

text \<open>With the largest distance the counter of the loop wraps instead of passing it.\<close>

lemma validateFrom_returns:
  assumes "validateFrom gen ctr m cookie delta = Some r"
  shows "m \<noteq> - 1 \<or> (\<exists>d. gen (ctr - d) = cookie)"
proof (rule validateFrom.raw_induct [of "\<lambda>gen ctr m cookie delta r. m \<noteq> - 1 \<or> (\<exists>d. gen (ctr - d) = cookie)", OF _ assms])
  fix f :: "(u32 \<Rightarrow> Value) \<Rightarrow> u32 \<Rightarrow> u32 \<Rightarrow> Value \<Rightarrow> u32 \<Rightarrow> (Value \<times> goerror option) option"
    and gen :: "u32 \<Rightarrow> Value" and ctr m cookie delta r
  assume ih: "\<And>gen ctr m cookie delta r. f gen ctr m cookie delta = Some r \<Longrightarrow> m \<noteq> - 1 \<or> (\<exists>d. gen (ctr - d) = cookie)"
    and r: "(if delta > m then Some (0, Some errInvalidCookie)
      else if (ctr - delta) AND countermsk \<noteq> cookie AND countermsk then f gen ctr m cookie (delta + 1)
      else if gen (ctr - delta) = cookie then Some (cookie, None) else f gen ctr m cookie (delta + 1)) = Some r"
  have "\<not> delta > m" if "m = - 1" using that by simp
  then show "m \<noteq> - 1 \<or> (\<exists>d. gen (ctr - d) = cookie)" using r ih [of gen ctr m cookie "delta + 1" r] by (auto split: if_splits)
qed

lemma validate_may_not_end:
  assumes "maxCounterDelta sc = - 1" "\<And>ctr. generateWithCounter sc s d p q isn ctr \<noteq> ack - 1"
  shows "ValidateSYNCookie sc s d p q isn ack = None"
  using assms validateFrom_returns [of _ "counter sc" "maxCounterDelta sc" "ack - 1" 0]
  by (cases "ValidateSYNCookie sc s d p q isn ack") (fastforce simp: ValidateSYNCookie_def Let_def)+

section \<open>Cookies are accepted, and only they\<close>

lemma Increment_iterated:
  "counter ((IncrementCounter ^^ k) sc) = counter sc + of_nat k" "secret ((IncrementCounter ^^ k) sc) = secret sc"
  "maxCounterDelta ((IncrementCounter ^^ k) sc) = maxCounterDelta sc"
  by (induction k) (simp_all add: IncrementCounter_def)

lemma generate_secret: "secret sc' = secret sc \<Longrightarrow> generateWithCounter sc' = generateWithCounter sc"
  by (simp add: generateWithCounter_def hashTuple_def fun_eq_iff)

text \<open>
  C35. A cookie survives the increments it is configured to survive: the acknowledgement of a
  cookie made for a connection is accepted for that connection, with the cookie as the result,
  after any number of increments of the counter up to \<open>maxCounterDelta\<close>, also across the
  wrap-around of the counter, for addresses of any length.
\<close>

theorem syn_cookie_accepted:
  assumes "k \<le> unat (maxCounterDelta sc)"
  shows "ValidateSYNCookie ((IncrementCounter ^^ k) sc) srcAddr dstAddr srcPort dstPort isn
      (MakeSYNCookie sc srcAddr dstAddr srcPort dstPort isn + 1) =
    Some (MakeSYNCookie sc srcAddr dstAddr srcPort dstPort isn, None)"
proof -
  let ?sc = "(IncrementCounter ^^ k) sc"
  have "k < 2 ^ 32" using assms unat_u32 [of "maxCounterDelta sc"] by simp
  then have k: "(of_nat k :: u32) \<le> maxCounterDelta sc" using assms by (simp add: word_le_nat_alt unat_of_nat)
  have "generateWithCounter ?sc srcAddr dstAddr srcPort dstPort isn (counter ?sc - of_nat k) =
      MakeSYNCookie sc srcAddr dstAddr srcPort dstPort isn"
    unfolding generate_secret [OF Increment_iterated(2)] by (simp add: MakeSYNCookie_def Increment_iterated(1))
  with k validateFrom_finds [of "generateWithCounter ?sc srcAddr dstAddr srcPort dstPort isn", OF cookie_counter, of 0 "of_nat k"]
  show ?thesis by (simp add: ValidateSYNCookie_def Increment_iterated)
qed

definition demoJar :: SYNCookieJar where
  "demoJar = \<lparr>counter = 4294967295, maxCounterDelta = 2, secret = [1, 2, 3, 4, 5, 6, 7, 8, 9, 10, 11, 12, 13, 14, 15, 16]\<rparr>"

theorem syn_cookie_accepted_witness:
  "2 \<le> unat (maxCounterDelta demoJar) \<and>
   ValidateSYNCookie ((IncrementCounter ^^ 2) demoJar) [10, 0, 0, 1] [10, 0, 0, 2] 8080 80 77
      (MakeSYNCookie demoJar [10, 0, 0, 1] [10, 0, 0, 2] 8080 80 77 + 1) =
    Some (MakeSYNCookie demoJar [10, 0, 0, 1] [10, 0, 0, 2] 8080 80 77, None)"
proof -
  have "2 \<le> unat (maxCounterDelta demoJar)" by (simp add: demoJar_def)
  with syn_cookie_accepted [OF this] show ?thesis by blast
qed

text \<open>
  C36. Validation ends and decides. Unless the configured distance is the largest 32-bit number,
  \<open>ValidateSYNCookie\<close> returns on every input; it accepts exactly the acknowledgements of cookies
  that this jar makes for this connection with one of the counters in reach, and refuses all
  others.
\<close>

theorem validate_decides:
  assumes "maxCounterDelta sc \<noteq> - 1"
  shows "ValidateSYNCookie sc srcAddr dstAddr srcPort dstPort isn ack =
    Some (if ack - 1 \<in> (\<lambda>d. generateWithCounter sc srcAddr dstAddr srcPort dstPort isn (counter sc - of_nat d)) ` {..unat (maxCounterDelta sc)}
          then (ack - 1, None) else (0, Some errInvalidCookie))"
proof -
  let ?gen = "generateWithCounter sc srcAddr dstAddr srcPort dstPort isn" and ?m = "maxCounterDelta sc"
  let ?in = "ack - 1 \<in> (\<lambda>d. ?gen (counter sc - of_nat d)) ` {..unat ?m}"
  show ?thesis
  proof (cases ?in)
    case True
    then obtain d where d: "d \<le> unat ?m" "?gen (counter sc - of_nat d) = ack - 1" by auto
    have "d < 2 ^ 32" using d(1) unat_u32 [of ?m] by simp
    then have "(of_nat d :: u32) \<le> ?m" using d(1) by (simp add: word_le_nat_alt unat_of_nat)
    then show ?thesis
      using True validateFrom_finds [of ?gen, OF cookie_counter _ _ d(2), of 0] by (simp add: ValidateSYNCookie_def)
  next
    case False
    have "?gen (counter sc - d) \<noteq> ack - 1" if "d \<le> ?m" for d
      using False that image_eqI [of "ack - 1" "\<lambda>d. ?gen (counter sc - of_nat d)" "unat d" "{..unat ?m}"]
      by (auto simp: word_le_nat_alt)
    moreover have "?m < - 1" using assms by (simp add: word_neq_0_conv order_less_le)
    ultimately show ?thesis
      using False validateFrom_refuses [of ?m 0 ?gen "counter sc" "ack - 1"] by (simp add: ValidateSYNCookie_def)
  qed
qed

theorem validate_decides_witness:
  "ValidateSYNCookie demoJar [10, 0, 0, 1] [10, 0, 0, 2] 8080 80 77 5 = Some (0, Some errInvalidCookie)"
proof -
  have m: "maxCounterDelta demoJar \<noteq> - 1" "unat (maxCounterDelta demoJar) = 2" "counter demoJar = - 1" by (simp_all add: demoJar_def)
  have g: "generateWithCounter demoJar [10, 0, 0, 1] [10, 0, 0, 2] 8080 80 77 c \<noteq> 4"
    if "c \<in> {- 1, - 2, - 3}" for c
  proof
    assume "generateWithCounter demoJar [10, 0, 0, 1] [10, 0, 0, 2] 8080 80 77 c = 4"
    then have "4 AND countermsk = c AND countermsk" using cookie_counter [of demoJar] by metis
    with that show False by (auto simp: countermsk_def)
  qed
  have "4 \<notin> (\<lambda>d. generateWithCounter demoJar [10, 0, 0, 1] [10, 0, 0, 2] 8080 80 77 (counter demoJar - of_nat d)) ` {..2}"
    using g by (auto simp: m(3) atMost_Suc numeral_2_eq_2)
  then show ?thesis using validate_decides [OF m(1), of "[10, 0, 0, 1]" "[10, 0, 0, 2]" 8080 80 77 5] m(2) by simp
qed

section \<open>The table of segment sizes\<close>

text \<open>
  An index is recovered, but a size between two entries is rounded up to the larger one, not to
  the closest: for a peer that accepts 600 bytes the table answers 1220.
\<close>

lemma mss_index_roundtrip: "encodeMSSIndex (decodeMSSIndex i) = i AND 3"
proof -
  have "i AND 3 \<in> {0, 1, 2, 3}"
  proof -
    have "i AND 3 = take_bit 2 i" by (simp add: take_bit_eq_mask mask_eq_exp_minus_1)
    then have "unat (i AND 3) < 4" using take_bit_nat_less_exp [of 2 "unat i"] by (simp add: unsigned_take_bit_eq)
    then have "unat (i AND 3) \<in> {0, 1, 2, 3}" by auto
    then show ?thesis by (auto simp: word_unat_eq_iff)
  qed
  then show ?thesis by (auto simp: encodeMSSIndex_def decodeMSSIndex_def Let_def)
qed

lemma mss_index_rounds_up: "decodeMSSIndex (encodeMSSIndex 600) = 1220" by code_simp

end
