(* ===== verification/Inet_Ethernet.thy ===== *)
theory Inet_Ethernet
  imports Inet_Clients Net_Frames
begin

unbundle bit_operations_syntax

text \<open>
  \<open>internet/stack-ethernet.go\<close>: the Ethernet layer, the outermost of the stack, with the table of
  its nodes (IP, ARP).

  The checksum function of the configuration is a parameter of the stack. The monitoring callback
  \<open>onSend\<close> and logging are not modelled.
\<close>

definition eth_MaxMTU :: int where "eth_MaxMTU = 1500"
definition eth_MinimumMTU :: int where "eth_MinimumMTU = 50"

record 'n StackEthernet =
  seConnID :: u64
  seHandlers :: "'n handlers"
  seMac :: bytes
  seGwmac :: bytes
  seMtu :: u16
  seMulticast :: bool
  crcupdate :: "(u32 \<Rightarrow> bytes \<Rightarrow> u32) option"

definition se_SetGateway6 :: "'n StackEthernet \<Rightarrow> bytes \<Rightarrow> 'n StackEthernet" where
  "se_SetGateway6 ls gw = ls\<lparr>seGwmac := gw\<rparr>"

definition se_SetAcceptMulticast :: "'n StackEthernet \<Rightarrow> bool \<Rightarrow> 'n StackEthernet" where
  "se_SetAcceptMulticast ls accept = ls\<lparr>seMulticast := accept\<rparr>"

definition se_SetHardwareAddr6 :: "'n StackEthernet \<Rightarrow> bytes \<Rightarrow> 'n StackEthernet" where
  "se_SetHardwareAddr6 ls mac = ls\<lparr>seMac := mac\<rparr>"

definition se_Configure ::
    "(nat \<Rightarrow> nat) \<Rightarrow> 'n StackEthernet \<Rightarrow> int \<Rightarrow> int \<Rightarrow> bytes \<Rightarrow> bytes \<Rightarrow> bool \<Rightarrow> (u32 \<Rightarrow> bytes \<Rightarrow> u32) option \<Rightarrow>
     ('n StackEthernet \<times> goerror option) option" where
  "se_Configure grow ls mtu maxNodes mac gateway appendCRC32 upd =
     (if mtu > eth_MaxMTU \<or> mtu < eth_MinimumMTU then Some (ls, Some (Generic ErrInvalidConfig))
      else if maxNodes \<le> 0 then Some (ls, Some (Generic ErrInvalidConfig))
      else if appendCRC32 \<and> upd = None then Some (ls, Some (Generic ErrInvalidConfig))
      else do {
        h \<leftarrow> hs_reset grow (seHandlers ls) maxNodes;
        Some (\<lparr>seConnID = seConnID ls + 1, seHandlers = h, seMac = mac, seGwmac = gateway, seMtu = word_of_int mtu,
               seMulticast = seMulticast ls, crcupdate = (if appendCRC32 then upd else None)\<rparr>, None)
      })"

definition se_Reset6 ::
    "(nat \<Rightarrow> nat) \<Rightarrow> 'n StackEthernet \<Rightarrow> bytes \<Rightarrow> bytes \<Rightarrow> int \<Rightarrow> int \<Rightarrow> ('n StackEthernet \<times> goerror option) option" where
  "se_Reset6 grow ls mac gateway mtu maxNodes = se_Configure grow ls mtu maxNodes mac gateway False None"

definition se_MaxFrameLength :: "'n StackEthernet \<Rightarrow> int" where
  "se_MaxFrameLength ls = uint (seMtu ls) + 14 + (if crcupdate ls \<noteq> None then 4 else 0)"

definition se_RegisterEthernet ::
    "'n StackNode \<Rightarrow> 'n StackEthernet \<Rightarrow> 'n \<Rightarrow> ('n StackEthernet \<times> goerror option) option" where
  "se_RegisterEthernet I ls s =
     (let proto = ifProtocol I s in
      if proto > 0xffff \<or> proto \<le> 1500 then Some (ls, Some (Generic ErrInvalidConfig))
      else do {
        nd \<leftarrow> nodeFromStackNode I s 0 proto [];
        let (h, err) = registerByProto I (seHandlers ls) nd;
        Some (ls\<lparr>seHandlers := h\<rparr>, err)
      })"

text \<open>Is a frame with this destination address dropped unseen?\<close>

definition se_ignores :: "'n StackEthernet \<Rightarrow> bool \<Rightarrow> bytes \<Rightarrow> bool" where
  "se_ignores ls broadcast dst \<longleftrightarrow>
     \<not> broadcast \<and> seMac ls \<noteq> dst \<and> (\<not> seMulticast ls \<or> dst ! 0 AND 1 = 0)"

definition se_Demux :: "'n StackNode \<Rightarrow> 'n StackEthernet \<Rightarrow> bytes \<Rightarrow> int \<Rightarrow> ('n StackEthernet \<times> goerror option) option" where
  "se_Demux I ls carrierData frameOffset = do {
     pkt \<leftarrow> go_slice carrierData frameOffset (int (length carrierData));
     case eth_NewFrame pkt of
       (_, Some err) \<Rightarrow> Some (ls, Some err)
     | (efrm, None) \<Rightarrow> do {
         etype \<leftarrow> eth_EtherTypeOrSize efrm;
         dstaddr \<leftarrow> eth_DestinationHardwareAddr efrm;
         broadcast \<leftarrow> eth_IsBroadcast efrm;
         if se_ignores ls broadcast dstaddr then Some (ls, Some (Generic ErrPacketDrop))
         else do {
           vld \<leftarrow> eth_ValidateSize efrm \<lparr>accum = [], accumBitpos = [], vldFlags = 0\<rparr>;
           bad \<leftarrow> vld_HasError vld;
           if bad then Some (ls, snd (vld_ErrPop vld))
           else do {
             payload \<leftarrow> eth_Payload efrm;
             (h, hn, err) \<leftarrow> demuxByProto I (seHandlers ls) payload 0 etype;
             Some (ls\<lparr>seHandlers := h\<rparr>, if hn \<noteq> None then err else Some (Generic ErrPacketDrop))
           }
         }
       }
   }"

text \<open>
  The end of \<open>Encapsulate\<close>, for \<open>n\<close> bytes of the protocol \<open>proto\<close> in the frame at \<open>off\<close>: the rest
  of the header, the padding to the shortest frame, and the checksum.
\<close>

definition minFrameSize :: int where "minFrameSize = 60"

definition se_finish ::
    "'n StackEthernet \<Rightarrow> bytes \<Rightarrow> nat \<Rightarrow> u16 \<Rightarrow> int \<Rightarrow> (bytes \<times> int) option" where
  "se_finish ls carrierData off proto n = do {
     carrierData \<leftarrow> put_bytes carrierData (off + 6) (seMac ls);
     carrierData \<leftarrow> put16 carrierData (off + 12) proto;
     let n = n + 14;
     carrierData \<leftarrow> (if n < minFrameSize then put_bytes carrierData (off + nat n) (replicate (nat (minFrameSize - n)) 0)
                     else Some carrierData);
     let n = max n minFrameSize;
     case crcupdate ls of
       None \<Rightarrow> Some (carrierData, n)
     | Some upd \<Rightarrow> do {
         frame \<leftarrow> go_slice carrierData (int off) (int off + n);
         carrierData \<leftarrow> put_bytes carrierData (off + nat n) (rev (be_enc 4 (upd 0 frame)));
         Some (carrierData, n + 4)
       }
   }"

definition se_Encapsulate ::
    "'n StackNode \<Rightarrow> 'n StackEthernet \<Rightarrow> bytes \<Rightarrow> int \<Rightarrow> int \<Rightarrow> ('n StackEthernet \<times> bytes \<times> int \<times> goerror option) option" where
  "se_Encapsulate I ls carrierData offsetToIP offsetToFrame = do {
     dst \<leftarrow> go_slice carrierData offsetToFrame (int (length carrierData));
     if int (length dst) < se_MaxFrameLength ls then Some (ls, carrierData, 0, Some IoShortBuffer)
     else do {
       carrierData \<leftarrow> put_bytes carrierData (nat offsetToFrame) (seGwmac ls);
       let payloadOffset = offsetToFrame + 14;
       let mtuLimit = payloadOffset + uint (seMtu ls);
       clipped \<leftarrow> go_slice carrierData 0 mtuLimit;
       (h, clipped, hn, n, err) \<leftarrow> encapsulateAny I (seHandlers ls) clipped payloadOffset payloadOffset;
       let ls = ls\<lparr>seHandlers := h\<rparr>;
       let carrierData = clipped @ drop (nat mtuLimit) carrierData;
       if n = 0 then Some (ls, carrierData, 0, err)
       else do {
         i \<leftarrow> hn;
         (carrierData, n) \<leftarrow> se_finish ls carrierData (nat offsetToFrame) (ndProto (nodes h ! i)) n;
         Some (ls, carrierData, n, err)
       }
     }
   }"

text \<open>The stack as a node.\<close>

definition se_node :: "'n StackNode \<Rightarrow> 'n StackEthernet StackNode" where
  "se_node I = \<lparr>ifProtocol = (\<lambda>_. 1), ifLocalPort = (\<lambda>_. 0), ifConnID = (\<lambda>ls. Some (seConnID ls)),
     ifEncapsulate = se_Encapsulate I, ifDemux = se_Demux I\<rparr>"

section \<open>Frames on the wire\<close>

text \<open>A frame with its header, payload and checksum.\<close>

definition fcs :: "(u32 \<Rightarrow> bytes \<Rightarrow> u32) option \<Rightarrow> bytes \<Rightarrow> bytes" where
  "fcs upd frame = (case upd of None \<Rightarrow> [] | Some u \<Rightarrow> rev (be_enc 4 (u 0 frame)))"

definition eth_bytes :: "bytes \<Rightarrow> bytes \<Rightarrow> u16 \<Rightarrow> bytes \<Rightarrow> bytes" where
  "eth_bytes dst src proto payload = dst @ src @ be_enc 2 proto @ payload"

lemma split_at: "k \<le> length xs \<Longrightarrow> \<exists>a b. xs = a @ b \<and> length a = k"
  by (metis append_take_drop_id length_take min.absorb2)

lemma patch_piece: "length a = i \<Longrightarrow> length b = length c \<Longrightarrow> patch i b (a @ c @ r) = a @ b @ r"
  by (simp add: patch_def)

lemma se_finish_layout:
  assumes "length c = off + 14 + m + k" "46 \<le> m + k" "crcupdate ls \<noteq> None \<Longrightarrow> 46 + 4 \<le> m + k \<and> 4 \<le> k" "length (seMac ls) = 6"
  shows "\<exists>c'. se_finish ls c off proto (int m) = Some (c', int (14 + max m 46 + (if crcupdate ls \<noteq> None then 4 else 0))) \<and>
    length c' = length c \<and>
    take (14 + max m 46 + (if crcupdate ls \<noteq> None then 4 else 0)) (drop off c') =
      (let f = eth_bytes (take 6 (drop off c)) (seMac ls) proto (take m (drop (off + 14) c) @ replicate (46 - m) 0)
       in f @ fcs (crcupdate ls) f)"
proof -
  obtain A D S T P Q R where c: "c = A @ D @ S @ T @ P @ Q @ R"
    and len: "length A = off" "length D = 6" "length S = 6" "length T = 2" "length P = m" "length Q = 46 - m"
  proof -
    obtain A r1 where 1: "c = A @ r1" "length A = off" using split_at [of off c] assms(1) by auto
    obtain D r2 where 2: "r1 = D @ r2" "length D = 6" using split_at [of 6 r1] assms(1) 1 by auto
    obtain S r3 where 3: "r2 = S @ r3" "length S = 6" using split_at [of 6 r2] assms(1) 1 2 by auto
    obtain T r4 where 4: "r3 = T @ r4" "length T = 2" using split_at [of 2 r3] assms(1) 1 2 3 by auto
    obtain P r5 where 5: "r4 = P @ r5" "length P = m" using split_at [of m r4] assms(1) 1 2 3 4 by auto
    have "46 - m \<le> length r5" using assms(1,2) 1 2 3 4 5 by auto
    then obtain Q r6 where 6: "r5 = Q @ r6" "length Q = 46 - m" using split_at by blast
    show ?thesis using that [of A D S T P Q r6] 1 2 3 4 5 6 by simp
  qed
  have R: "length R = k - (46 - m)" using assms(1,2) len by (simp add: c)
  let ?M = "seMac ls" and ?Z = "replicate (46 - m) (0 :: u8)" and ?t = "be_enc 2 proto"
  let ?f = "D @ ?M @ ?t @ P @ ?Z"
  have p1: "put_bytes c (off + 6) ?M = Some (A @ D @ ?M @ T @ P @ Q @ R)"
    using patch_piece [of "A @ D" "off + 6" ?M S "T @ P @ Q @ R"] len assms(4) by (simp add: put_bytes_def c)
  have p2: "put16 (A @ D @ ?M @ T @ P @ Q @ R) (off + 12) proto = Some (A @ D @ ?M @ ?t @ P @ Q @ R)"
    using patch_piece [of "A @ D @ ?M" "off + 12" ?t T "P @ Q @ R"] len assms(4) by (simp add: put_be_def)
  have p3: "(if int m + 14 < minFrameSize then put_bytes (A @ D @ ?M @ ?t @ P @ Q @ R) (off + nat (int m + 14)) (replicate (nat (minFrameSize - (int m + 14))) 0)
      else Some (A @ D @ ?M @ ?t @ P @ Q @ R)) = Some (A @ ?f @ R)"
  proof (cases "m < 46")
    case True
    have "nat (int m + 14) = m + 14" "nat (minFrameSize - (int m + 14)) = 46 - m" by (simp_all add: minFrameSize_def)
    then show ?thesis
      using patch_piece [of "A @ D @ ?M @ ?t @ P" "off + (m + 14)" ?Z Q R] len assms(4) True by (simp add: put_bytes_def minFrameSize_def)
  qed (use len in \<open>simp add: minFrameSize_def\<close>)
  have mx: "max (int m + 14) minFrameSize = int (14 + max m 46)" by (simp add: minFrameSize_def max_def)
  have lf: "length ?f = 14 + max m 46" using len assms(4) by (simp add: max_def)
  have fr: "eth_bytes (take 6 (drop off c)) ?M proto (take m (drop (off + 14) c) @ ?Z) = ?f"
    using len by (simp add: eth_bytes_def c)
  define f N where "f = ?f" and "N = 14 + max m 46"
  note p3' = p3 [folded f_def] and mx' = mx [folded N_def] and lf' = lf [folded f_def N_def] and fr' = fr [folded f_def]
  have "length c = off + N + length R" using lf' len assms(4) by (simp add: c f_def)
  moreover have "?thesis" if "se_finish ls c off proto (int m) = Some (A @ f @ fcs (crcupdate ls) f @ r, int (N + length (fcs (crcupdate ls) f)))"
      "length (fcs (crcupdate ls) f @ r) = length R" for r
    unfolding N_def [symmetric] fr' Let_def using that lf' len(1) calculation
    by (intro exI [of _ "A @ f @ fcs (crcupdate ls) f @ r"]) (auto simp: fcs_def split: option.splits)
  moreover have "\<exists>r. se_finish ls c off proto (int m) = Some (A @ f @ fcs (crcupdate ls) f @ r, int (N + length (fcs (crcupdate ls) f))) \<and>
      length (fcs (crcupdate ls) f @ r) = length R"
  proof (cases "crcupdate ls")
    case None
    then show ?thesis unfolding se_finish_def p1 p2 Let_def Option.bind_lunit p3' mx' by (simp add: fcs_def)
  next
    case (Some u)
    then have "4 \<le> length R" using assms(3) R by auto
    then obtain F R' where F: "R = F @ R'" "length F = 4" using split_at by blast
    have sl: "go_slice (A @ f @ R) (int off) (int off + int N) = Some f"
      using go_slice_int [of "A @ f @ R" off "off + N"] lf' len by simp
    have "put_bytes (A @ f @ R) (off + nat (int N)) (fcs (Some u) f) = Some (A @ f @ fcs (Some u) f @ R')"
      using patch_piece [of "A @ f" "off + N" "fcs (Some u) f" F R'] lf' len F by (simp add: put_bytes_def fcs_def)
    then show ?thesis unfolding se_finish_def p1 p2 Let_def Option.bind_lunit p3' mx' using Some sl F
      by (simp add: fcs_def)
  qed
  ultimately show ?thesis by blast
qed

section \<open>From one stack to the other\<close>

lemma broadcast_bytes:
  assumes "length dst = 6"
  shows "eth_IsBroadcast (dst @ r) = Some (dst = eth_BroadcastAddr)"
proof -
  obtain a b c d e f where "dst = [a, b, c, d, e, f]"
    using assms by (auto simp: length_Suc_conv numeral_eq_Suc)
  then show ?thesis by (simp add: eth_IsBroadcast_def get8_nth eth_BroadcastAddr_def numeral_eq_Suc del: One_nat_def)
qed

text \<open>What a stack does with a frame it does not ignore.\<close>

lemma se_Demux_frame:
  assumes "length dst = 6" "length src = 6" "1500 < proto" "proto \<noteq> TypeVLAN" "\<not> se_ignores R (dst = eth_BroadcastAddr) dst"
    and "nodeByProto J (seHandlers R) proto = Some j"
  shows "se_Demux J R (eth_bytes dst src proto payload) 0 = do {
      (h, gone, err) \<leftarrow> nodeDemux J (seHandlers R) j payload 0;
      Some (R\<lparr>seHandlers := h\<rparr>, err)
    }"
proof -
  let ?f = "eth_bytes dst src proto payload"
  have l: "length ?f = 14 + length payload" using assms(1,2) by (simp add: eth_bytes_def)
  have sl: "go_slice ?f 0 (int (length ?f)) = Some ?f" "go_slice ?f 14 (int (length ?f)) = Some payload"
    using go_slice_int [of ?f 0 "length ?f"] go_slice_int [of ?f 14 "length ?f"] l assms(1,2) by (simp_all add: eth_bytes_def)
  have et: "eth_EtherTypeOrSize ?f = Some proto"
    using assms(1,2) be_dec_enc_full [of 2 proto] by (simp add: eth_EtherTypeOrSize_def get_be_def eth_bytes_def)
  have da: "eth_DestinationHardwareAddr ?f = Some dst" "eth_IsBroadcast ?f = Some (dst = eth_BroadcastAddr)"
    using assms(1) by (simp_all add: eth_DestinationHardwareAddr_def get_bytes_def eth_bytes_def broadcast_bytes)
  have sz: "\<not> eth_IsSize proto" using assms(3) by (simp add: eth_IsSize_def not_le)
  have pl: "eth_Payload ?f = Some payload"
    using et sz assms(4) sl(2) by (simp add: eth_Payload_def eth_HeaderLength_def eth_IsVLAN_def)
  show ?thesis
    using sl(1) et da sz assms(4-6) pl l
    by (simp add: se_Demux_def eth_NewFrame_def eth_ValidateSize_def vld_HasError_def demuxByProto_def Let_def vf_has_def validateReserved_def
        split: option.split bind_split)
qed

text \<open>
  C37. What one stack sends the other gets. Whatever node of a configured Ethernet stack has
  something to send, the frame on the wire is the destination the node or the gateway chose, the
  stack's own address, the protocol of the node, the node's bytes, zeros up to the shortest frame
  and, if configured, the checksum of all this; it is between 60 bytes and the maximum frame
  length long, and nothing panics. A stack that the frame is addressed to hands the node of that
  protocol exactly the bytes the sending node wrote, followed by the padding and the checksum.
\<close>

theorem eth_frame_delivered:
  fixes I :: "'n StackNode" and J :: "'m StackNode"
  assumes "node_client I okS (\<lambda>len oip off. 0 \<le> off \<and> off + 50 \<le> int len) (\<lambda>_ _ _. True)"
    and "encapsulateAny I (seHandlers ls) (take (off + 14 + unat (seMtu ls)) (patch off (seGwmac ls) buf)) (int off + 14) (int off + 14) =
      Some (h, sent, hn, m, err)" "m \<noteq> 0"
    and "off + 18 + unat (seMtu ls) \<le> length buf" "length (seMac ls) = 6" "length (seGwmac ls) = 6" "50 \<le> seMtu ls"
    and "nodes_inv okS (seHandlers ls)"
    and "proto = ndProto (nodes h ! the hn)" "dst = take 6 (drop off sent)"
    and "payload = take (nat m) (drop (off + 14) sent) @ replicate (46 - nat m) 0" "frame = eth_bytes dst (seMac ls) proto payload"
  shows "\<exists>buf' n. se_Encapsulate I ls buf oip (int off) = Some (ls\<lparr>seHandlers := h\<rparr>, buf', n, err) \<and> length buf' = length buf \<and>
      60 \<le> n \<and> n \<le> se_MaxFrameLength ls \<and> take (nat n) (drop off buf') = frame @ fcs (crcupdate ls) frame \<and>
      (1500 < proto \<and> proto \<noteq> TypeVLAN \<and> \<not> se_ignores R (dst = eth_BroadcastAddr) dst \<and> nodeByProto J (seHandlers R) proto = Some j \<longrightarrow>
        se_Demux J R (take (nat n) (drop off buf')) 0 = do {
          (h, gone, err) \<leftarrow> nodeDemux J (seHandlers R) j (payload @ fcs (crcupdate ls) frame) 0;
          Some (R\<lparr>seHandlers := h\<rparr>, err)
        })"
proof -
  define M where "M = unat (seMtu ls)"
  have uM: "uint (seMtu ls) = int M" by (simp add: M_def)
  note A = assms [folded M_def]
  let ?lim = "off + 14 + M"
  have mtu: "50 \<le> M" using assms(7) by (simp add: word_le_nat_alt M_def)
  let ?c1 = "patch off (seGwmac ls) buf"
  have l1: "length ?c1 = length buf" using A(4,6) by simp
  have lc: "length (take ?lim ?c1) = ?lim" using l1 A(4) by simp
  have pre: "0 \<le> int off + 14 \<and> int off + 14 + 50 \<le> int (length (take ?lim ?c1))" using lc mtu by simp
  have w: "length sent = ?lim" "0 \<le> m" "int off + 14 + m \<le> int ?lim" "m \<noteq> 0 \<longrightarrow> hn \<noteq> None"
    using node_client.loop_encapsulates [OF A(1) A(2) [unfolded encapsulateAny_def] pre A(8)] lc by auto
  obtain i where i: "hn = Some i" using w(4) A(3) by auto
  define k where "k = nat m"
  have m: "m = int k" "k \<le> M" using w(2,3) by (simp_all add: k_def)
  define c2 where "c2 = sent @ drop ?lim ?c1"
  have l2: "length c2 = off + 14 + k + (length buf - off - 14 - k)" using w(1) l1 A(4) m(2) by (simp add: c2_def)
  let ?N = "14 + max k 46 + (if crcupdate ls \<noteq> None then 4 else 0)"
  have same: "take 6 (drop off c2) = dst" "take k (drop (off + 14) c2) = take k (drop (off + 14) sent)"
    using w(1) m(2) mtu by (simp_all add: c2_def A(10))
  have room: "46 \<le> k + (length buf - off - 14 - k)" "46 + 4 \<le> k + (length buf - off - 14 - k) \<and> 4 \<le> length buf - off - 14 - k"
    using A(4) m(2) mtu by linarith+
  obtain c' where fin: "se_finish (ls\<lparr>seHandlers := h\<rparr>) c2 off proto (int k) = Some (c', int ?N)" "length c' = length c2"
    "take ?N (drop off c') = frame @ fcs (crcupdate ls) frame"
    using se_finish_layout [OF l2 room(1) room(2), of "ls\<lparr>seHandlers := h\<rparr>" proto] A(5) m(1) same A(11,12)
    by (auto simp: Let_def)
  have dst: "go_slice buf (int off) (int (length buf)) = Some (drop off buf)" unfolding go_slice_int using A(4) by simp
  have big: "\<not> int (length (drop off buf)) < se_MaxFrameLength ls"
    using A(4) by (simp add: se_MaxFrameLength_def uM)
  have clip: "go_slice ?c1 0 (int off + 14 + uint (seMtu ls)) = Some (take ?lim ?c1)"
    using go_slice_int [of ?c1 0 ?lim] l1 A(4) by (simp add: uM)
  have lim: "nat (int off + 14 + uint (seMtu ls)) = ?lim" by (simp add: uM nat_add_distrib)
  have enc: "se_Encapsulate I ls buf oip (int off) = Some (ls\<lparr>seHandlers := h\<rparr>, c', int ?N, err)"
    using dst big clip A(2-4,6) i fin(1) m(1) lim A(9)
    by (simp add: se_Encapsulate_def put_bytes_def Let_def c2_def)
  have ld: "length dst = 6" using w(1) mtu by (simp add: A(10))
  have "frame @ fcs (crcupdate ls) frame = eth_bytes dst (seMac ls) proto (payload @ fcs (crcupdate ls) frame)"
    by (simp add: A(12) eth_bytes_def)
  then have fr: "take ?N (drop off c') = eth_bytes dst (seMac ls) proto (payload @ fcs (crcupdate ls) frame)" using fin(3) by simp
  have bnd: "60 \<le> int ?N" "int ?N \<le> se_MaxFrameLength ls" "length c' = length buf"
    using m(2) mtu fin(2) l2 A(4) by (auto simp: se_MaxFrameLength_def uM max_def)
  have "se_Encapsulate I ls buf oip (int off) = Some (ls\<lparr>seHandlers := h\<rparr>, c', int ?N, err) \<and> length c' = length buf \<and>
      60 \<le> int ?N \<and> int ?N \<le> se_MaxFrameLength ls \<and> take (nat (int ?N)) (drop off c') = frame @ fcs (crcupdate ls) frame \<and>
      (1500 < proto \<and> proto \<noteq> TypeVLAN \<and> \<not> se_ignores R (dst = eth_BroadcastAddr) dst \<and> nodeByProto J (seHandlers R) proto = Some j \<longrightarrow>
        se_Demux J R (take (nat (int ?N)) (drop off c')) 0 = do {
          (h, gone, err) \<leftarrow> nodeDemux J (seHandlers R) j (payload @ fcs (crcupdate ls) frame) 0;
          Some (R\<lparr>seHandlers := h\<rparr>, err)
        })"
    unfolding nat_int fr using enc bnd fin(3) fr se_Demux_frame [OF ld A(5), of proto R J j] by simp
  then show ?thesis by blast
qed

end
