(* ===== verification/Arp.thy ===== *)
theory Arp
  imports Inet_Handlers Net_Frames
begin

unbundle bit_operations_syntax

text \<open>
  Address resolution: the frame of \<open>arp/frame.go\<close>, the cache of \<open>arp/cache.go\<close> and the handler of
  \<open>arp/handler.go\<close>, a node of the Ethernet stack.

  A frame is its buffer and \<open>None\<close> is a panic. The cache is the list of its entries; an entry
  the code points to is its index. The callback of the user is whether there is one, and the
  handler of the model keeps the calls made to it.
\<close>

section \<open>Frames\<close>

definition OpRequest :: u16 where "OpRequest = 1"
definition OpReply :: u16 where "OpReply = 2"

definition arp_NewFrame :: "bytes \<Rightarrow> goerror option" where
  "arp_NewFrame buf = (if length buf < 28 then Some (Generic ErrTruncatedFrame) else None)"

definition arp_Hardware :: "bytes \<Rightarrow> (u16 \<times> u8) option" where
  "arp_Hardware buf = do { t \<leftarrow> get16 buf 0; l \<leftarrow> get8 buf 4; Some (t, l) }"

definition arp_SetHardware :: "bytes \<Rightarrow> u16 \<Rightarrow> u8 \<Rightarrow> bytes option" where
  "arp_SetHardware buf t l = do { buf \<leftarrow> put16 buf 0 t; put8 buf 4 l }"

definition arp_Protocol :: "bytes \<Rightarrow> (EtherType \<times> u8) option" where
  "arp_Protocol buf = do { t \<leftarrow> get16 buf 2; l \<leftarrow> get8 buf 5; Some (t, l) }"

definition arp_SetProtocol :: "bytes \<Rightarrow> EtherType \<Rightarrow> u8 \<Rightarrow> bytes option" where
  "arp_SetProtocol buf t l = do { buf \<leftarrow> put16 buf 2 t; put8 buf 5 l }"

definition arp_Operation :: "bytes \<Rightarrow> u16 option" where
  "arp_Operation buf = get16 buf 6"

definition arp_SetOperation :: "bytes \<Rightarrow> u16 \<Rightarrow> bytes option" where
  "arp_SetOperation buf op = put16 buf 6 op"

text \<open>The offsets are computed in 8 bits.\<close>

definition arp_Sender :: "bytes \<Rightarrow> (bytes \<times> bytes) option" where
  "arp_Sender buf = do {
     (_, hlen) \<leftarrow> arp_Hardware buf;
     (_, ilen) \<leftarrow> arp_Protocol buf;
     hw \<leftarrow> go_slice buf 8 (uint (8 + hlen));
     proto \<leftarrow> go_slice buf (uint (8 + hlen)) (uint (8 + hlen + ilen));
     Some (hw, proto)
   }"

definition arp_Target :: "bytes \<Rightarrow> (bytes \<times> bytes) option" where
  "arp_Target buf = do {
     (_, hlen) \<leftarrow> arp_Hardware buf;
     (_, ilen) \<leftarrow> arp_Protocol buf;
     let toff = 8 + hlen + ilen;
     hw \<leftarrow> go_slice buf (uint toff) (uint (toff + hlen));
     proto \<leftarrow> go_slice buf (uint (toff + hlen)) (uint (toff + hlen + ilen));
     Some (hw, proto)
   }"

definition arp_ValidateSize :: "bytes \<Rightarrow> Validator \<Rightarrow> Validator option" where
  "arp_ValidateSize buf v = do {
     (_, hlen) \<leftarrow> arp_Hardware buf;
     (_, ilen) \<leftarrow> arp_Protocol buf;
     let minLen = 8 + 2 * (uint hlen + uint ilen);
     Some (if int (length buf) < minLen then vld_AddError (Generic ErrTruncatedFrame) v
           else if minLen > 255 then vld_AddError (Generic ErrPacketDrop) v else v)
   }"

section \<open>The cache\<close>

type_synonym eflags = u8

definition eflagInUse :: eflags where "eflagInUse = 1"
definition eflagIPv6 :: eflags where "eflagIPv6 = 2"
definition eflagPendingResponse :: eflags where "eflagPendingResponse = 4"
definition eflagIncomplete :: eflags where "eflagIncomplete = 8"
definition eflagIncompletePendingQuery :: eflags where "eflagIncompletePendingQuery = 16"
definition eflagPriority :: eflags where "eflagPriority = 32"
definition eflagResolveTriggersCallback :: eflags where "eflagResolveTriggersCallback = 64"

lemmas eflag_defs = eflagInUse_def eflagIPv6_def eflagPendingResponse_def eflagIncomplete_def
  eflagIncompletePendingQuery_def eflagPriority_def eflagResolveTriggersCallback_def

record entry =
  enAddr :: bytes
  enMac :: bytes
  enAge :: u8
  enFlags :: eflags

definition zeroEntry :: entry where
  "zeroEntry = \<lparr>enAddr = replicate 16 0, enMac = replicate 6 0, enAge = 0, enFlags = 0\<rparr>"

definition eflags_hasAny :: "eflags \<Rightarrow> eflags \<Rightarrow> bool" where
  "eflags_hasAny flags bits \<longleftrightarrow> flags AND bits \<noteq> 0"

definition entry_use :: "entry \<Rightarrow> bytes \<Rightarrow> bytes \<Rightarrow> eflags \<Rightarrow> entry" where
  "entry_use e mac proto flags =
     (let n = min 16 (length proto); fl = eflagInUse OR flags in
      \<lparr>enAddr = take n proto @ drop n (enAddr e), enMac = mac, enAge = 0,
       enFlags = (if n = 16 then fl OR eflagIPv6 else fl)\<rparr>)"

definition entry_put :: "entry \<Rightarrow> bytes \<Rightarrow> bytes \<Rightarrow> bytes \<Rightarrow> u16 \<Rightarrow> (bytes \<times> int \<times> goerror option) option" where
  "entry_put e frame ourAddr ourMAC op =
     (if length ourMAC \<noteq> 6 then Some (frame, 0, Some (Generic ErrInvalidAddr))
      else case arp_NewFrame frame of
        Some err \<Rightarrow> Some (frame, 0, Some err)
      | None \<Rightarrow> do {
          f \<leftarrow> arp_SetHardware frame 1 6;
          f \<leftarrow> arp_SetOperation f op;
          if enFlags e AND eflagIPv6 \<noteq> 0 then
            (if length ourAddr \<noteq> 16 then Some (f, 0, Some (Generic ErrInvalidAddr))
             else if length frame < 52 then Some (f, 0, Some (Generic ErrShortBuffer))
             else do {
               f \<leftarrow> arp_SetProtocol f TypeIPv6 16;
               f \<leftarrow> put_bytes f 8 ourMAC;
               f \<leftarrow> put_bytes f 14 ourAddr;
               f \<leftarrow> put_bytes f 30 (enMac e);
               f \<leftarrow> put_bytes f 36 (enAddr e);
               Some (f, 52, None)
             })
          else
            (if length ourAddr \<noteq> 4 then Some (f, 0, Some (Generic ErrInvalidAddr))
             else do {
               f \<leftarrow> arp_SetProtocol f TypeIPv4 4;
               f \<leftarrow> put_bytes f 8 ourMAC;
               f \<leftarrow> put_bytes f 14 ourAddr;
               f \<leftarrow> put_bytes f 18 (enMac e);
               f \<leftarrow> put_bytes f 24 (take 4 (enAddr e));
               Some (f, 28, None)
             })
        })"

definition cache_age :: "entry list \<Rightarrow> entry list" where
  "cache_age c = map (\<lambda>e. if enFlags e AND eflagInUse \<noteq> 0 \<and> enAge e < 255 then e\<lparr>enAge := enAge e + 1\<rparr> else e) c"

text \<open>
  \<open>reset\<close> with the slots of the slice between its length and its capacity: they become entries
  as they are.
\<close>

definition cache_reset :: "entry list \<Rightarrow> int \<Rightarrow> entry list" where
  "cache_reset slots n =
     (if int (length slots) < n then replicate (nat n) zeroEntry else slots)"

fun getNextFlagged :: "entry list \<Rightarrow> eflags \<Rightarrow> nat option" where
  "getNextFlagged [] fl = None"
| "getNextFlagged (e # es) fl =
     (if enFlags e AND eflagInUse \<noteq> 0 \<and> eflags_hasAny (enFlags e) fl then Some 0
      else map_option Suc (getNextFlagged es fl))"

definition clearFlags :: "entry list \<Rightarrow> eflags \<Rightarrow> eflags \<Rightarrow> entry list" where
  "clearFlags c has clr = map (\<lambda>e. if enFlags e AND has \<noteq> 0 then e\<lparr>enFlags := enFlags e AND NOT clr\<rparr> else e) c"

text \<open>A query longer than the address of an entry in use panics, the outer \<open>None\<close>.\<close>

fun cache_Lookup :: "entry list \<Rightarrow> bytes \<Rightarrow> nat option option" where
  "cache_Lookup [] addr = Some None"
| "cache_Lookup (e # es) addr =
     (if enFlags e AND eflagInUse \<noteq> 0 then
        (if length addr > 16 then None
         else if take (length addr) (enAddr e) = addr then Some (Some 0)
         else map_option (map_option Suc) (cache_Lookup es addr))
      else map_option (map_option Suc) (cache_Lookup es addr))"

definition priorityFlags :: eflags where
  "priorityFlags = eflagPendingResponse OR eflagIncomplete OR eflagPriority"

text \<open>The loop of \<open>acquireNext\<close> from index \<open>i\<close> on, with the oldest entry and the oldest passive one so far.\<close>

function acquireLoop :: "entry list \<Rightarrow> nat \<Rightarrow> nat \<Rightarrow> nat option \<Rightarrow> nat \<times> nat option" where
  "acquireLoop c i oldest passive =
     (if i \<ge> length c then (oldest, passive)
      else if enFlags (c ! i) AND eflagInUse = 0 then (i, passive)
      else
        let passive = (if \<not> eflags_hasAny (enFlags (c ! i)) priorityFlags \<and>
                          (case passive of None \<Rightarrow> True | Some j \<Rightarrow> enAge (c ! i) > enAge (c ! j))
                       then Some i else passive);
            oldest = (if enAge (c ! i) > enAge (c ! oldest) then i else oldest)
        in acquireLoop c (Suc i) oldest passive)"
  by pat_completeness auto
termination by (relation "measure (\<lambda>(c, i, _, _). length c - i)") auto

declare acquireLoop.simps [simp del]

definition acquireChoice :: "entry list \<Rightarrow> nat" where
  "acquireChoice c =
     (let (oldest, passive) = acquireLoop c 0 0 None in
      case passive of
        Some j \<Rightarrow> (if enFlags (c ! oldest) AND eflagInUse \<noteq> 0 then j else oldest)
      | None \<Rightarrow> oldest)"

definition acquireNext :: "entry list \<Rightarrow> (entry list \<times> nat) option" where
  "acquireNext c =
     (if c = [] then None
      else let i = acquireChoice c in Some ((cache_age c)[i := zeroEntry], i))"

section \<open>The handler\<close>

record ArpHandler =
  ahConnID :: u64
  ahCache :: "entry list"
  ahVld :: Validator
  ourProtoAddr :: bytes
  onresolve :: bool
  ahCalls :: "(bytes \<times> bytes) list"
  ahHtype :: u16
  ahProtoType :: EtherType
  ourHWAddr :: bytes

definition ah_UpdateProtoAddr :: "ArpHandler \<Rightarrow> bytes \<Rightarrow> ArpHandler \<times> goerror option" where
  "ah_UpdateProtoAddr h protoAddr =
     (if length protoAddr \<noteq> length (ourProtoAddr h) then (h, Some (Generic ErrMismatchLen))
      else (h\<lparr>ourProtoAddr := protoAddr\<rparr>, None))"

definition ah_SetOnResolveCallback :: "ArpHandler \<Rightarrow> bool \<Rightarrow> ArpHandler" where
  "ah_SetOnResolveCallback h cb = h\<lparr>onresolve := cb\<rparr>"

text \<open>The conversion of the hardware address to an array panics when it is too short.\<close>

definition ah_Reset ::
    "ArpHandler \<Rightarrow> bytes \<Rightarrow> bytes \<Rightarrow> int \<Rightarrow> int \<Rightarrow> u16 \<Rightarrow> EtherType \<Rightarrow> (ArpHandler \<times> goerror option) option" where
  "ah_Reset h hwAddr protoAddr maxQueries maxPending hwType protoType =
     (if hwAddr = [] \<or> length hwAddr > 255 \<or> protoAddr = [] \<or> length protoAddr > 255
      then Some (h, Some (Generic ErrInvalidConfig))
      else if maxQueries \<le> 0 \<or> maxPending \<le> 0 then Some (h, Some (Generic ErrInvalidConfig))
      else if hwType \<noteq> 1 \<or> protoType \<noteq> TypeIPv4 \<and> protoType \<noteq> TypeIPv6 then Some (h, Some (Generic ErrUnsupported))
      else if length hwAddr < 6 then None
      else Some (\<lparr>ahConnID = ahConnID h + 1, ahCache = cache_reset (ahCache h) (maxPending + maxQueries),
             ahVld = \<lparr>accum = [], accumBitpos = [], vldFlags = 0\<rparr>, ourProtoAddr = protoAddr, onresolve = False,
             ahCalls = ahCalls h, ahHtype = hwType, ahProtoType = protoType, ourHWAddr = take 6 hwAddr\<rparr>, None))"

definition ah_AbortPending :: "ArpHandler \<Rightarrow> ArpHandler" where
  "ah_AbortPending h = h\<lparr>ahCache := clearFlags (ahCache h) (eflagPendingResponse OR eflagIncomplete) eflagInUse\<rparr>"

definition ah_CacheSeed :: "ArpHandler \<Rightarrow> bytes \<Rightarrow> bytes \<Rightarrow> (ArpHandler \<times> goerror option) option" where
  "ah_CacheSeed h protoAddr hwAddr =
     (if length hwAddr \<noteq> 6 then Some (h, Some (Generic ErrUnsupported))
      else do {
        (c, i) \<leftarrow> acquireNext (ahCache h);
        Some (h\<lparr>ahCache := c[i := entry_use (c ! i) hwAddr protoAddr 0]\<rparr>, None)
      })"

definition ah_CacheLookup :: "ArpHandler \<Rightarrow> bytes \<Rightarrow> (bytes \<times> goerror option) option" where
  "ah_CacheLookup h protoAddr = do {
     r \<leftarrow> cache_Lookup (ahCache h) protoAddr;
     Some (case r of
         None \<Rightarrow> ([], Some (ArpErr errQueryNotFound))
       | Some i \<Rightarrow> let e = ahCache h ! i in
           if eflags_hasAny (enFlags e) eflagIncomplete then ([], Some (ArpErr errQueryPending)) else (enMac e, None))
   }"

definition ah_CacheRemove :: "ArpHandler \<Rightarrow> bytes \<Rightarrow> (ArpHandler \<times> goerror option) option" where
  "ah_CacheRemove h protoAddr = do {
     r \<leftarrow> cache_Lookup (ahCache h) protoAddr;
     Some (case r of
         None \<Rightarrow> (h, Some (ArpErr errQueryNotFound))
       | Some i \<Rightarrow> (h\<lparr>ahCache := (ahCache h)[i := zeroEntry]\<rparr>, None))
   }"

definition ah_StartQuery :: "ArpHandler \<Rightarrow> bytes \<Rightarrow> bool \<Rightarrow> (ArpHandler \<times> goerror option) option" where
  "ah_StartQuery h proto triggerCallback =
     (if length proto \<noteq> length (ourProtoAddr h) then Some (h, Some (Generic ErrMismatchLen))
      else do {
        (c, i) \<leftarrow> acquireNext (ahCache h);
        let e = entry_use (c ! i) (replicate 6 0) proto (eflagIncomplete OR eflagIncompletePendingQuery OR eflagPriority);
        let e = (if triggerCallback then e\<lparr>enFlags := enFlags e OR eflagResolveTriggersCallback\<rparr> else e);
        Some (h\<lparr>ahCache := c[i := e]\<rparr>, None)
      })"

definition ah_newframe :: "ArpHandler \<Rightarrow> bytes \<Rightarrow> goerror option" where
  "ah_newframe h b =
     (case arp_NewFrame b of
        Some err \<Rightarrow> Some err
      | None \<Rightarrow> if ahProtoType h = TypeIPv6 \<and> length b < 52 then Some (Generic ErrMismatch) else None)"

definition trySetEthernetDst :: "bytes \<Rightarrow> bytes \<Rightarrow> bytes" where
  "trySetEthernetDst ethFrame dst = (if length ethFrame \<ge> 14 then patch 0 (take 6 dst) ethFrame else ethFrame)"

definition ah_Encapsulate :: "ArpHandler \<Rightarrow> bytes \<Rightarrow> int \<Rightarrow> int \<Rightarrow> (ArpHandler \<times> bytes \<times> int \<times> goerror option) option" where
  "ah_Encapsulate h carrierData oip offsetToFrame = do {
     b \<leftarrow> go_slice carrierData offsetToFrame (int (length carrierData));
     let head = take (nat offsetToFrame) carrierData;
     case ah_newframe h b of
       Some err \<Rightarrow> Some (h, carrierData, 0, Some err)
     | None \<Rightarrow> (
         case (case getNextFlagged (ahCache h) eflagPendingResponse of
                 Some i \<Rightarrow> Some (i, eflagPendingResponse, OpReply)
               | None \<Rightarrow> map_option (\<lambda>i. (i, eflagIncompletePendingQuery, OpRequest))
                          (getNextFlagged (ahCache h) eflagIncompletePendingQuery)) of
           None \<Rightarrow> Some (h, carrierData, 0, None)
         | Some (i, flag, op) \<Rightarrow> do {
             let e = (ahCache h ! i)\<lparr>enFlags := enFlags (ahCache h ! i) AND NOT flag\<rparr>;
             let h = h\<lparr>ahCache := (ahCache h)[i := e]\<rparr>;
             (b, n, err) \<leftarrow> entry_put e b (ourProtoAddr h) (ourHWAddr h) op;
             if err \<noteq> None then Some (h, head @ b, 0, err)
             else if op = OpRequest then Some (h, trySetEthernetDst head eth_BroadcastAddr @ b, n, None)
             else do { (tgt, _) \<leftarrow> arp_Target b; Some (h, trySetEthernetDst head tgt @ b, n, None) }
           })
   }"

definition ah_receive :: "ArpHandler \<Rightarrow> bytes \<Rightarrow> (ArpHandler \<times> goerror option) option" where
  "ah_receive h b = do {
     op \<leftarrow> arp_Operation b;
     if op = OpRequest then do {
       (_, protoaddr) \<leftarrow> arp_Target b;
       if protoaddr \<noteq> ourProtoAddr h then Some (h, None)
       else do {
         (hw, proto) \<leftarrow> arp_Sender b;
         (c, i) \<leftarrow> acquireNext (ahCache h);
         Some (h\<lparr>ahCache := c[i := entry_use (c ! i) hw proto eflagPendingResponse]\<rparr>, None)
       }
     }
     else if op = OpReply then do {
       (hwaddr, protoaddr) \<leftarrow> arp_Sender b;
       r \<leftarrow> cache_Lookup (ahCache h) protoaddr;
       case r of
         None \<Rightarrow> Some (h, None)
       | Some i \<Rightarrow>
           let e = (ahCache h ! i)\<lparr>enMac := hwaddr,
                 enFlags := enFlags (ahCache h ! i) AND NOT (eflagIncomplete OR eflagIncompletePendingQuery)\<rparr>;
               h = h\<lparr>ahCache := (ahCache h)[i := e]\<rparr>
           in Some (if eflags_hasAny (enFlags e) eflagResolveTriggersCallback \<and> onresolve h
                    then h\<lparr>ahCalls := ahCalls h @ [(enMac e, protoaddr)]\<rparr> else h, None)
     }
     else Some (h, Some (Generic ErrUnsupported))
   }"

definition ah_Demux :: "ArpHandler \<Rightarrow> bytes \<Rightarrow> int \<Rightarrow> (ArpHandler \<times> goerror option) option" where
  "ah_Demux h ethFrame frameOffset = do {
     b \<leftarrow> go_slice ethFrame frameOffset (int (length ethFrame));
     case ah_newframe h b of
       Some err \<Rightarrow> Some (h, Some err)
     | None \<Rightarrow> do {
         v \<leftarrow> arp_ValidateSize b (ahVld h);
         bad \<leftarrow> vld_HasError v;
         if bad then (case vld_ErrPop v of (v, err) \<Rightarrow> Some (h\<lparr>ahVld := v\<rparr>, err))
         else do {
           let h = h\<lparr>ahVld := v\<rparr>;
           (htype, hlen) \<leftarrow> arp_Hardware b;
           if htype \<noteq> ahHtype h \<or> uint hlen \<noteq> int (length (ourHWAddr h)) then Some (h, Some (Generic ErrMismatch))
           else do {
             (protoType, protoLen) \<leftarrow> arp_Protocol b;
             if protoType \<noteq> ahProtoType h \<or> uint protoLen \<noteq> int (length (ourProtoAddr h))
             then Some (h, Some (Generic ErrMismatch))
             else ah_receive h b
           }
         }
       }
   }"

text \<open>The handler as a node of the stack.\<close>

definition arp_node :: "ArpHandler StackNode" where
  "arp_node = \<lparr>ifProtocol = (\<lambda>_. ucast TypeARP), ifLocalPort = (\<lambda>_. 0), ifConnID = (\<lambda>h. Some (ahConnID h)),
     ifEncapsulate = ah_Encapsulate, ifDemux = ah_Demux\<rparr>"

end
