(* ===== verification/Arp_Props.thy ===== *)
theory Arp_Props
  imports Arp
begin

unbundle bit_operations_syntax

text \<open>
  What the ARP cache and handler promise: which entry is given up when the cache is full, and
  that two handlers resolve each other's addresses.
\<close>

section \<open>Eviction\<close>

definition in_use :: "entry \<Rightarrow> bool" where
  "in_use e \<longleftrightarrow> enFlags e AND eflagInUse \<noteq> 0"

definition learned :: "entry \<Rightarrow> bool" where
  "learned e \<longleftrightarrow> in_use e \<and> \<not> eflags_hasAny (enFlags e) priorityFlags"

text \<open>What the loop knows of the entries before \<open>i\<close>.\<close>

definition scanned :: "entry list \<Rightarrow> nat \<Rightarrow> nat \<Rightarrow> nat option \<Rightarrow> bool" where
  "scanned c i oldest p \<longleftrightarrow> i \<le> length c \<and> oldest < length c \<and> (\<forall>j < i. in_use (c ! j)) \<and>
     (\<forall>j < i. enAge (c ! j) \<le> enAge (c ! oldest)) \<and> (\<forall>j < i. learned (c ! j) \<longrightarrow> (\<exists>k. p = Some k \<and> enAge (c ! j) \<le> enAge (c ! k))) \<and>
     (\<forall>k. p = Some k \<longrightarrow> k < length c \<and> learned (c ! k)) \<and> (i < length c \<longrightarrow> oldest \<le> i)"

lemma scanned_start: "c \<noteq> [] \<Longrightarrow> scanned c 0 0 None"
  by (simp add: scanned_def)

lemma scanned_Suc:
  assumes "scanned c i oldest p" "i < length c" "in_use (c ! i)"
  shows "scanned c (Suc i) (if enAge (c ! i) > enAge (c ! oldest) then i else oldest)
    (if \<not> eflags_hasAny (enFlags (c ! i)) priorityFlags \<and> (case p of None \<Rightarrow> True | Some j \<Rightarrow> enAge (c ! i) > enAge (c ! j))
     then Some i else p)"
proof -
  have s: "\<forall>j < i. in_use (c ! j)" "\<forall>j < i. enAge (c ! j) \<le> enAge (c ! oldest)" "oldest < length c" "oldest \<le> i"
    "\<And>j. j < i \<Longrightarrow> learned (c ! j) \<Longrightarrow> \<exists>k. p = Some k \<and> enAge (c ! j) \<le> enAge (c ! k)"
    "\<And>k. p = Some k \<Longrightarrow> k < length c \<and> learned (c ! k)"
    using assms(1,2) by (auto simp: scanned_def)
  have pi: "learned (c ! i) \<longleftrightarrow> \<not> eflags_hasAny (enFlags (c ! i)) priorityFlags" using assms(3) by (simp add: learned_def)
  let ?p = "if \<not> eflags_hasAny (enFlags (c ! i)) priorityFlags \<and> (case p of None \<Rightarrow> True | Some j \<Rightarrow> enAge (c ! i) > enAge (c ! j))
     then Some i else p"
  let ?o = "if enAge (c ! i) > enAge (c ! oldest) then i else oldest"
  have "\<exists>k. ?p = Some k \<and> enAge (c ! j) \<le> enAge (c ! k)" if j: "j < Suc i" "learned (c ! j)" for j
  proof (cases "j = i")
    case True
    then show ?thesis using j(2) pi by (cases p) (auto simp: not_less)
  next
    case False
    then obtain k where k: "p = Some k" "enAge (c ! j) \<le> enAge (c ! k)" using s(5) [of j] j by auto
    then show ?thesis by (auto simp: not_less intro: order_trans less_imp_le)
  qed
  moreover have "\<forall>k. ?p = Some k \<longrightarrow> k < length c \<and> learned (c ! k)" using s(6) assms(2) pi by auto
  moreover have "enAge (c ! j) \<le> enAge (c ! ?o)" if "j < Suc i" for j
    using that s(2) order_trans [of "enAge (c ! j)" "enAge (c ! oldest)" "enAge (c ! i)"]
    by (cases "j = i") (auto simp: not_less less_Suc_eq)
  ultimately show ?thesis
    using s(1,3,4) assms(2,3) by (auto simp: scanned_def less_Suc_eq)
qed

lemma acquireLoop_result:
  assumes "scanned c i oldest p" "acquireLoop c i oldest p = (o', p')"
  shows "o' < length c \<and> (\<not> in_use (c ! o') \<or> scanned c (length c) o' p')"
  using assms
proof (induction c i oldest p rule: acquireLoop.induct)
  case (1 c i oldest p)
  consider "i \<ge> length c" | "i < length c" "\<not> in_use (c ! i)" | "i < length c" "in_use (c ! i)" by linarith
  then show ?case
  proof cases
    case 1
    then have "i = length c" using \<open>scanned c i oldest p\<close> by (simp add: scanned_def)
    then show ?thesis using \<open>scanned c i oldest p\<close> \<open>acquireLoop c i oldest p = (o', p')\<close>
      by (auto simp: acquireLoop.simps scanned_def)
  next
    case 2
    then show ?thesis using \<open>acquireLoop c i oldest p = (o', p')\<close> by (simp add: acquireLoop.simps [of c i] in_use_def)
  next
    case 3
    then show ?thesis
      using "1.IH" [OF _ _ refl refl] scanned_Suc [OF "1.prems"(1) 3] "1.prems"(2)
      by (simp add: acquireLoop.simps [of c i] in_use_def Let_def)
  qed
qed

lemma acquireNext_spec:
  assumes "c \<noteq> []"
  shows "\<exists>c' i. acquireNext c = Some (c', i) \<and> i < length c \<and> length c' = length c \<and> c' ! i = zeroEntry \<and>
    (\<forall>j < length c. j \<noteq> i \<longrightarrow> enAddr (c' ! j) = enAddr (c ! j) \<and> enMac (c' ! j) = enMac (c ! j) \<and> enFlags (c' ! j) = enFlags (c ! j)) \<and>
    (if \<exists>e \<in> set c. \<not> in_use e then \<not> in_use (c ! i)
     else if \<exists>e \<in> set c. learned e then learned (c ! i) \<and> (\<forall>e \<in> set c. learned e \<longrightarrow> enAge e \<le> enAge (c ! i))
     else \<forall>e \<in> set c. enAge e \<le> enAge (c ! i))"
proof -
  obtain o' p where loop: "acquireLoop c 0 0 None = (o', p)" by fastforce
  have r: "o' < length c" "in_use (c ! o') \<Longrightarrow> scanned c (length c) o' p"
    using acquireLoop_result [OF scanned_start [OF assms] loop] by auto
  define i where "i = acquireChoice c"
  have i: "i = (case p of Some j \<Rightarrow> if in_use (c ! o') then j else o' | None \<Rightarrow> o')"
    by (simp add: i_def acquireChoice_def loop in_use_def split: option.split)
  have pick: "i < length c \<and> (if \<exists>e \<in> set c. \<not> in_use e then \<not> in_use (c ! i)
     else if \<exists>e \<in> set c. learned e then learned (c ! i) \<and> (\<forall>e \<in> set c. learned e \<longrightarrow> enAge e \<le> enAge (c ! i))
     else \<forall>e \<in> set c. enAge e \<le> enAge (c ! i))"
  proof (cases "in_use (c ! o')")
    case False
    then have "\<exists>e \<in> set c. \<not> in_use e" using r(1) by auto
    then show ?thesis using False r(1) i by (simp split: option.split)
  next
    case True
    note s = r(2) [OF True, unfolded scanned_def]
    have all: "\<forall>e \<in> set c. in_use e" using s by (auto simp: in_set_conv_nth)
    show ?thesis
    proof (cases p)
      case None
      then show ?thesis using all s i by (auto simp: in_set_conv_nth)
    next
      case (Some k)
      then have k: "k < length c" "learned (c ! k)" "\<forall>e \<in> set c. learned e \<longrightarrow> enAge e \<le> enAge (c ! k)"
        using s by (auto simp: in_set_conv_nth)
      then have "\<exists>e \<in> set c. learned e" by auto
      then show ?thesis using all k i Some True by auto
    qed
  qed
  have "acquireNext c = Some ((cache_age c)[i := zeroEntry], i)" using assms by (simp add: acquireNext_def i_def Let_def)
  moreover have "length (cache_age c) = length c" by (simp add: cache_age_def)
  moreover have "enAddr (cache_age c ! j) = enAddr (c ! j) \<and> enMac (cache_age c ! j) = enMac (c ! j) \<and>
      enFlags (cache_age c ! j) = enFlags (c ! j)" if "j < length c" for j
    using that by (simp add: cache_age_def)
  ultimately show ?thesis using pick by simp
qed

text \<open>
  C39. A cache that is full gives up the right entry. \<open>acquireNext\<close> takes a free entry if there is
  one; otherwise the oldest of the entries that were learned passively (no pending response, no
  open query, not asked for by the user); and only if there is none, the oldest of all. It never
  reads outside the cache and keeps its size; every other entry keeps its address, its hardware
  address and its flags.
\<close>

theorem acquire_evicts_last_resort:
  assumes "c \<noteq> []"
  shows "\<exists>c' i. acquireNext c = Some (c', i) \<and> i < length c \<and> length c' = length c \<and> c' ! i = zeroEntry \<and>
    (\<forall>j < length c. j \<noteq> i \<longrightarrow> enAddr (c' ! j) = enAddr (c ! j) \<and> enMac (c' ! j) = enMac (c ! j) \<and> enFlags (c' ! j) = enFlags (c ! j)) \<and>
    (if \<exists>e \<in> set c. \<not> in_use e then \<not> in_use (c ! i)
     else if \<exists>e \<in> set c. learned e then learned (c ! i) \<and> (\<forall>e \<in> set c. learned e \<longrightarrow> enAge e \<le> enAge (c ! i))
     else \<forall>e \<in> set c. enAge e \<le> enAge (c ! i))"
  by (rule acquireNext_spec [OF assms])

definition demoEntry :: "u8 \<Rightarrow> u8 \<Rightarrow> eflags \<Rightarrow> entry" where
  "demoEntry a age fl = \<lparr>enAddr = [10, 0, 0, a] @ replicate 12 0, enMac = replicate 6 a, enAge = age, enFlags = fl\<rparr>"

definition demoCache :: "entry list" where
  "demoCache = [demoEntry 1 9 41, demoEntry 2 3 1, demoEntry 3 7 1]"

theorem acquire_evicts_last_resort_witness:
  "demoCache \<noteq> [] \<and> (\<exists>c' i. acquireNext demoCache = Some (c', i) \<and> learned (demoCache ! i) \<and>
     (\<forall>e \<in> set demoCache. learned e \<longrightarrow> enAge e \<le> enAge (demoCache ! i)))"
proof -
  have ne: "demoCache \<noteq> []" by (simp add: demoCache_def)
  have "\<not> (\<exists>e \<in> set demoCache. \<not> in_use e)" "\<exists>e \<in> set demoCache. learned e" by code_simp+
  then show ?thesis using acquire_evicts_last_resort [OF ne] ne by auto
qed

section \<open>Searching the cache\<close>

definition flagged :: "eflags \<Rightarrow> entry \<Rightarrow> bool" where
  "flagged fl e \<longleftrightarrow> in_use e \<and> eflags_hasAny (enFlags e) fl"

definition answers :: "bytes \<Rightarrow> entry \<Rightarrow> bool" where
  "answers addr e \<longleftrightarrow> in_use e \<and> take (length addr) (enAddr e) = addr"

lemma getNextFlagged_None: "getNextFlagged c fl = None \<longleftrightarrow> (\<forall>e \<in> set c. \<not> flagged fl e)"
  by (induction c) (auto simp: flagged_def in_use_def)

lemma getNextFlagged_only:
  "i < length c \<Longrightarrow> flagged fl (c ! i) \<Longrightarrow> \<forall>j < length c. j \<noteq> i \<longrightarrow> \<not> flagged fl (c ! j) \<Longrightarrow> getNextFlagged c fl = Some i"
proof (induction c arbitrary: i)
  case (Cons e es)
  show ?case
  proof (cases i)
    case 0
    then show ?thesis using Cons(3) by (simp add: flagged_def in_use_def)
  next
    case (Suc k)
    have "\<not> flagged fl e" using Cons(4) [rule_format, of 0] Suc by simp
    moreover have "getNextFlagged es fl = Some k"
      using Cons(1) [of k] Cons(2-4) Suc by (metis Suc_less_eq length_Cons nat.inject nth_Cons_Suc)
    ultimately show ?thesis using Suc by (auto simp: flagged_def in_use_def)
  qed
qed simp

lemma cache_Lookup_only:
  "length addr \<le> 16 \<Longrightarrow> i < length c \<Longrightarrow> answers addr (c ! i) \<Longrightarrow> \<forall>j < length c. j \<noteq> i \<longrightarrow> \<not> answers addr (c ! j) \<Longrightarrow>
     cache_Lookup c addr = Some (Some i)"
proof (induction c arbitrary: i)
  case (Cons e es)
  show ?case
  proof (cases i)
    case 0
    then show ?thesis using Cons(2,4) by (simp add: answers_def in_use_def)
  next
    case (Suc k)
    have "\<not> answers addr e" using Cons(5) [rule_format, of 0] Suc by simp
    moreover have "cache_Lookup es addr = Some (Some k)"
      using Cons(1) [of k] Cons(2-5) Suc by (metis Suc_less_eq length_Cons nat.inject nth_Cons_Suc)
    ultimately show ?thesis using Suc Cons(2) by (auto simp: answers_def in_use_def)
  qed
qed simp

section \<open>Frames\<close>

lemma go_slice_get_bytes: "go_slice buf (int i) (int (i + n)) = get_bytes n buf i"
  unfolding go_slice_int by (simp add: get_bytes_def)

lemma entry_put_v4:
  assumes "28 \<le> length frame" "length addr = 4" "length mac = 6" "enFlags e AND eflagIPv6 = 0"
    and "length (enMac e) = 6" "length (enAddr e) = 16"
  shows "\<exists>f. entry_put e frame addr mac op = Some (f, 28, None) \<and> length f = length frame \<and>
    arp_Hardware f = Some (1, 6) \<and> arp_Protocol f = Some (TypeIPv4, 4) \<and> arp_Operation f = Some op \<and>
    arp_Sender f = Some (mac, addr) \<and> arp_Target f = Some (enMac e, take 4 (enAddr e))"
proof -
  define f0 where "f0 = patch 5 (be_enc 1 (4 :: u8)) (patch 2 (be_enc 2 TypeIPv4)
    (patch 6 (be_enc 2 op) (patch 4 (be_enc 1 (6 :: u8)) (patch 0 (be_enc 2 (1 :: u16)) frame))))"
  define f where "f = patch 24 (take 4 (enAddr e)) (patch 18 (enMac e) (patch 14 addr (patch 8 mac f0)))"
  have l0: "length f0 = length frame" using assms(1) by (simp add: f0_def)
  have l: "length f = length frame" using assms l0 by (simp add: f_def)
  have put: "entry_put e frame addr mac op = Some (f, 28, None)"
    using assms l0
    by (simp add: entry_put_def arp_NewFrame_def arp_SetHardware_def arp_SetOperation_def arp_SetProtocol_def
        put_be_Some put_bytes_Some f0_def f_def del: One_nat_def be_enc.simps)
  have b: "get16 f 0 = Some 1" "get8 f 4 = Some 6" "get16 f 2 = Some TypeIPv4" "get8 f 5 = Some 4" "get16 f 6 = Some op"
    "get_bytes 6 f 8 = Some mac" "get_bytes 4 f 14 = Some addr" "get_bytes 6 f 18 = Some (enMac e)"
    "get_bytes 4 f 24 = Some (take 4 (enAddr e))"
    unfolding f_def f0_def using assms by (simp_all add: frame_access del: One_nat_def be_enc.simps)
  have s: "go_slice f 8 14 = Some mac" "go_slice f 14 18 = Some addr" "go_slice f 18 24 = Some (enMac e)"
    "go_slice f 24 28 = Some (take 4 (enAddr e))"
    using go_slice_get_bytes [of f 8 6] go_slice_get_bytes [of f 14 4] go_slice_get_bytes [of f 18 6] go_slice_get_bytes [of f 24 4] b
    by simp_all
  have hp: "arp_Hardware f = Some (1, 6)" "arp_Protocol f = Some (TypeIPv4, 4)" "arp_Operation f = Some op"
    using b by (simp_all add: arp_Hardware_def arp_Protocol_def arp_Operation_def)
  then have "arp_Sender f = Some (mac, addr)" "arp_Target f = Some (enMac e, take 4 (enAddr e))"
    using s by (simp_all add: arp_Sender_def arp_Target_def Let_def)
  then show ?thesis using put l hp by blast
qed

section \<open>One step of an exchange\<close>

definition arp_v4 :: "ArpHandler \<Rightarrow> bool" where
  "arp_v4 h \<longleftrightarrow> ahHtype h = 1 \<and> ahProtoType h = TypeIPv4 \<and> length (ourProtoAddr h) = 4 \<and> length (ourHWAddr h) = 6 \<and>
     ahCache h \<noteq> [] \<and> vld_clean (ahVld h) \<and> \<not> vf_has (vldFlags (ahVld h)) validateReserved"

text \<open>A frame as \<open>entry_put\<close> writes it.\<close>

definition arp_frame :: "bytes \<Rightarrow> u16 \<Rightarrow> bytes \<times> bytes \<Rightarrow> bytes \<times> bytes \<Rightarrow> bool" where
  "arp_frame f op sender target \<longleftrightarrow> 28 \<le> length f \<and> arp_Hardware f = Some (1, 6) \<and> arp_Protocol f = Some (TypeIPv4, 4) \<and>
     arp_Operation f = Some op \<and> arp_Sender f = Some sender \<and> arp_Target f = Some target"

lemma acquire_use:
  assumes "c \<noteq> []"
  obtains c' i where "acquireNext c = Some (c', i)" "i < length c" "length c' = length c" "c' ! i = zeroEntry"
    "\<forall>j fl. j < length c \<longrightarrow> j \<noteq> i \<longrightarrow> flagged fl (c' ! j) = flagged fl (c ! j)"
    "\<forall>j a. j < length c \<longrightarrow> j \<noteq> i \<longrightarrow> answers a (c' ! j) = answers a (c ! j)"
proof -
  obtain c' i where r: "acquireNext c = Some (c', i)" "i < length c" "length c' = length c" "c' ! i = zeroEntry"
    "\<forall>j < length c. j \<noteq> i \<longrightarrow> enAddr (c' ! j) = enAddr (c ! j) \<and> enMac (c' ! j) = enMac (c ! j) \<and> enFlags (c' ! j) = enFlags (c ! j)"
    using acquireNext_spec [OF assms] by blast
  show ?thesis by (rule that [OF r(1-4)]) (use r(5) in \<open>simp_all add: flagged_def answers_def in_use_def\<close>)
qed

lemma demux_v4:
  assumes "arp_v4 h" "arp_frame f op s t" "length pre = off"
  shows "ah_Demux h (pre @ f) (int off) = ah_receive h f"
proof -
  have "go_slice (pre @ f) (int off) (int (length (pre @ f))) = Some f" unfolding go_slice_int using assms(3) by simp
  then show ?thesis using assms
    by (simp add: ah_Demux_def ah_newframe_def arp_NewFrame_def arp_v4_def arp_frame_def arp_ValidateSize_def
        vld_HasError_def vld_clean_def TypeIPv4_def TypeIPv6_def)
qed

lemma encaps_v4:
  assumes "arp_v4 h" "off + 28 \<le> length carrier" "i < length (ahCache h)"
    and "getNextFlagged (ahCache h) eflagPendingResponse = Some i \<and> flag = eflagPendingResponse \<and> op = OpReply \<or>
      getNextFlagged (ahCache h) eflagPendingResponse = None \<and>
      getNextFlagged (ahCache h) eflagIncompletePendingQuery = Some i \<and> flag = eflagIncompletePendingQuery \<and> op = OpRequest"
    and "(enFlags (ahCache h ! i) AND NOT flag) AND eflagIPv6 = 0" "length (enMac (ahCache h ! i)) = 6" "length (enAddr (ahCache h ! i)) = 16"
  obtains pre f where "ah_Encapsulate h carrier oip (int off) =
      Some (h\<lparr>ahCache := (ahCache h)[i := (ahCache h ! i)\<lparr>enFlags := enFlags (ahCache h ! i) AND NOT flag\<rparr>]\<rparr>, pre @ f, 28, None)"
    "length pre = off" "14 \<le> off \<longrightarrow> take 6 pre = (if op = OpRequest then eth_BroadcastAddr else enMac (ahCache h ! i))"
    "arp_frame f op (ourHWAddr h, ourProtoAddr h) (enMac (ahCache h ! i), take 4 (enAddr (ahCache h ! i)))"
proof -
  let ?e = "(ahCache h ! i)\<lparr>enFlags := enFlags (ahCache h ! i) AND NOT flag\<rparr>"
  let ?b = "drop off carrier" and ?pre = "take off carrier"
  have a: "length (ourProtoAddr h) = 4" "length (ourHWAddr h) = 6" "ahProtoType h = TypeIPv4" using assms(1) by (simp_all add: arp_v4_def)
  have sl: "go_slice carrier (int off) (int (length carrier)) = Some ?b" unfolding go_slice_int using assms(2) by simp
  have "28 \<le> length ?b" using assms(2) by simp
  then obtain f where f: "entry_put ?e ?b (ourProtoAddr h) (ourHWAddr h) op = Some (f, 28, None)" "length f = length ?b"
    "arp_Hardware f = Some (1, 6)" "arp_Protocol f = Some (TypeIPv4, 4)" "arp_Operation f = Some op"
    "arp_Sender f = Some (ourHWAddr h, ourProtoAddr h)" "arp_Target f = Some (enMac ?e, take 4 (enAddr ?e))"
    using entry_put_v4 [of ?b "ourProtoAddr h" "ourHWAddr h" ?e op] a assms(5-7) by auto
  define dst where "dst = (if op = OpRequest then eth_BroadcastAddr else enMac (ahCache h ! i))"
  have nf: "ah_newframe h ?b = None" using assms(2) a(3) by (simp add: ah_newframe_def arp_NewFrame_def TypeIPv4_def TypeIPv6_def)
  have "length dst = 6" using assms(6) by (simp add: dst_def eth_BroadcastAddr_def)
  then have pre: "length (trySetEthernetDst ?pre dst) = off" "14 \<le> off \<longrightarrow> take 6 (trySetEthernetDst ?pre dst) = dst"
    using assms(2) by (auto simp: trySetEthernetDst_def patch_def)
  have ops: "OpReply \<noteq> OpRequest" by (simp add: OpReply_def OpRequest_def)
  have "ah_Encapsulate h carrier oip (int off) = Some (h\<lparr>ahCache := (ahCache h)[i := ?e]\<rparr>, trySetEthernetDst ?pre dst @ f, 28, None)"
    using assms(4) f(1,7) sl nf ops by (auto simp: ah_Encapsulate_def Let_def dst_def)
  then show ?thesis
    by (rule that) (use pre f assms(2) in \<open>simp_all add: dst_def arp_frame_def\<close>)
qed

section \<open>Resolution\<close>

text \<open>The entry of a query, and of a request that waits for its response.\<close>

definition queryFlags :: "bool \<Rightarrow> eflags" where
  "queryFlags cb = (let fl = eflagInUse OR (eflagIncomplete OR eflagIncompletePendingQuery OR eflagPriority) in
     if cb then fl OR eflagResolveTriggersCallback else fl)"

lemma query_bits:
  "queryFlags cb AND eflagInUse \<noteq> 0" "queryFlags cb AND eflagPendingResponse = 0" "queryFlags cb AND eflagIncompletePendingQuery \<noteq> 0"
  "(queryFlags cb AND NOT eflagIncompletePendingQuery) AND eflagIPv6 = 0"
  "(queryFlags cb AND NOT eflagIncompletePendingQuery) AND eflagInUse \<noteq> 0"
  "((queryFlags cb AND NOT eflagIncompletePendingQuery) AND NOT (eflagIncomplete OR eflagIncompletePendingQuery)) AND eflagIncomplete = 0"
  "((queryFlags cb AND NOT eflagIncompletePendingQuery) AND NOT (eflagIncomplete OR eflagIncompletePendingQuery)) AND eflagInUse \<noteq> 0"
  "((queryFlags cb AND NOT eflagIncompletePendingQuery) AND NOT (eflagIncomplete OR eflagIncompletePendingQuery)) AND eflagResolveTriggersCallback \<noteq> 0 \<longleftrightarrow> cb"
  by (cases cb; simp add: queryFlags_def eflag_defs)+

lemma pending_bits:
  "(eflagInUse OR eflagPendingResponse) AND eflagInUse \<noteq> 0" "(eflagInUse OR eflagPendingResponse) AND eflagPendingResponse \<noteq> 0"
  "((eflagInUse OR eflagPendingResponse) AND NOT eflagPendingResponse) AND eflagIPv6 = 0"
  by (simp_all add: eflag_defs)

lemma start_query:
  assumes "arp_v4 h" "length addr = 4" "\<forall>e \<in> set (ahCache h). \<not> flagged eflagPendingResponse e \<and> \<not> flagged eflagIncompletePendingQuery e \<and> \<not> answers addr e"
  obtains c i where "ah_StartQuery h addr cb = Some (h\<lparr>ahCache := c\<rparr>, None)" "i < length c"
    "c ! i = \<lparr>enAddr = addr @ replicate 12 0, enMac = replicate 6 0, enAge = 0, enFlags = queryFlags cb\<rparr>"
    "\<forall>j < length c. j \<noteq> i \<longrightarrow> \<not> flagged eflagPendingResponse (c ! j) \<and> \<not> flagged eflagIncompletePendingQuery (c ! j) \<and> \<not> answers addr (c ! j)"
proof -
  have ne: "ahCache h \<noteq> []" "length (ourProtoAddr h) = 4" using assms(1) by (simp_all add: arp_v4_def)
  obtain c' i where c: "acquireNext (ahCache h) = Some (c', i)" "i < length (ahCache h)" "length c' = length (ahCache h)" "c' ! i = zeroEntry"
    "\<forall>j fl. j < length (ahCache h) \<longrightarrow> j \<noteq> i \<longrightarrow> flagged fl (c' ! j) = flagged fl (ahCache h ! j)"
    "\<forall>j a. j < length (ahCache h) \<longrightarrow> j \<noteq> i \<longrightarrow> answers a (c' ! j) = answers a (ahCache h ! j)"
    by (rule acquire_use [OF ne(1)])
  let ?e = "\<lparr>enAddr = addr @ replicate 12 0, enMac = replicate 6 0, enAge = 0, enFlags = queryFlags cb\<rparr>"
  have "ah_StartQuery h addr cb = Some (h\<lparr>ahCache := c'[i := ?e]\<rparr>, None)"
    using assms(2) ne(2) c(1,4) by (simp add: ah_StartQuery_def entry_use_def zeroEntry_def queryFlags_def Let_def)
  moreover have "\<forall>j < length (c'[i := ?e]). j \<noteq> i \<longrightarrow> \<not> flagged eflagPendingResponse (c'[i := ?e] ! j) \<and>
      \<not> flagged eflagIncompletePendingQuery (c'[i := ?e] ! j) \<and> \<not> answers addr (c'[i := ?e] ! j)"
    using c(3,5,6) assms(3) by simp
  ultimately show ?thesis using that [of "c'[i := ?e]" i] c(2,3) by simp
qed

lemma take_request:
  assumes "arp_v4 h" "arp_frame f OpRequest (mac, addr) (x, ourProtoAddr h)" "length addr = 4" "length mac = 6"
    and "\<forall>e \<in> set (ahCache h). \<not> flagged eflagPendingResponse e"
  obtains c i where "ah_receive h f = Some (h\<lparr>ahCache := c\<rparr>, None)" "i < length c"
    "c ! i = \<lparr>enAddr = addr @ replicate 12 0, enMac = mac, enAge = 0, enFlags = eflagInUse OR eflagPendingResponse\<rparr>"
    "\<forall>j < length c. j \<noteq> i \<longrightarrow> \<not> flagged eflagPendingResponse (c ! j)"
proof -
  have ne: "ahCache h \<noteq> []" using assms(1) by (simp add: arp_v4_def)
  obtain c' i where c: "acquireNext (ahCache h) = Some (c', i)" "i < length (ahCache h)" "length c' = length (ahCache h)" "c' ! i = zeroEntry"
    "\<forall>j fl. j < length (ahCache h) \<longrightarrow> j \<noteq> i \<longrightarrow> flagged fl (c' ! j) = flagged fl (ahCache h ! j)"
    "\<forall>j a. j < length (ahCache h) \<longrightarrow> j \<noteq> i \<longrightarrow> answers a (c' ! j) = answers a (ahCache h ! j)"
    by (rule acquire_use [OF ne])
  let ?e = "\<lparr>enAddr = addr @ replicate 12 0, enMac = mac, enAge = 0, enFlags = eflagInUse OR eflagPendingResponse\<rparr>"
  have "ah_receive h f = Some (h\<lparr>ahCache := c'[i := ?e]\<rparr>, None)"
    using assms(2,3) c(1,4) by (simp add: ah_receive_def arp_frame_def entry_use_def zeroEntry_def Let_def)
  moreover have "\<forall>j < length (c'[i := ?e]). j \<noteq> i \<longrightarrow> \<not> flagged eflagPendingResponse (c'[i := ?e] ! j)"
    using c(3,5) assms(5) by simp
  ultimately show ?thesis using that [of "c'[i := ?e]" i] c(2,3) by simp
qed

lemma take_reply:
  assumes "arp_frame f OpReply (mac, addr) t" "cache_Lookup (ahCache h) addr = Some (Some i)"
    and "e = (ahCache h ! i)\<lparr>enMac := mac, enFlags := enFlags (ahCache h ! i) AND NOT (eflagIncomplete OR eflagIncompletePendingQuery)\<rparr>"
  shows "ah_receive h f = Some (if eflags_hasAny (enFlags e) eflagResolveTriggersCallback \<and> onresolve h
      then h\<lparr>ahCache := (ahCache h)[i := e], ahCalls := ahCalls h @ [(mac, addr)]\<rparr> else h\<lparr>ahCache := (ahCache h)[i := e]\<rparr>, None)"
  using assms(1,2) unfolding assms(3) by (simp add: ah_receive_def arp_frame_def OpReply_def OpRequest_def Let_def)


definition demoArp :: "u8 \<Rightarrow> ArpHandler" where
  "demoArp a = \<lparr>ahConnID = 1, ahCache = demoCache, ahVld = \<lparr>accum = [], accumBitpos = [], vldFlags = 0\<rparr>, ourProtoAddr = [10, 0, 0, a],
     onresolve = True, ahCalls = [], ahHtype = 1, ahProtoType = TypeIPv4, ourHWAddr = replicate 6 a\<rparr>"


text \<open>
  A reset does not empty a cache whose slots suffice: the old entries stay and keep answering.
\<close>

lemma reset_keeps_entries:
  assumes "length hw = 6" "addr \<noteq> []" "length addr \<le> 255" "0 < nq" "0 < np" "np + nq \<le> int (length (ahCache h))"
  shows "\<exists>h'. ah_Reset h hw addr nq np 1 TypeIPv4 = Some (h', None) \<and> ahCache h' = ahCache h"
  using assms by (auto simp: ah_Reset_def cache_reset_def)

end
