(* ===== verification/Inet_Arp.thy ===== *)
theory Inet_Arp
  imports Inet_Ethernet Arp_Props
begin

unbundle bit_operations_syntax

text \<open>
  The ARP handler as a node of the Ethernet stack: it keeps the contract of the layer, and an
  example of a request that goes from one stack to the other.
\<close>

section \<open>The handler keeps the contract\<close>

lemma put_bytes_length: "put_bytes buf i bs = Some buf' \<Longrightarrow> length buf' = length buf"
  by (auto simp: put_bytes_def split: if_splits)

lemma entry_put_length:
  assumes "entry_put e frame a m op = Some (f, n, err)"
  shows "length f = length frame \<and> 0 \<le> n \<and> n \<le> int (length frame)"
proof -
  have "length f = length frame"
    using assms by (auto simp: entry_put_def arp_SetHardware_def arp_SetOperation_def arp_SetProtocol_def
        split: if_splits option.splits bind_splits dest!: put_be_length put_bytes_length)
  moreover have "n = 0 \<or> n = 28 \<and> 28 \<le> length frame \<or> n = 52 \<and> 52 \<le> length frame"
    using assms by (auto simp: entry_put_def arp_NewFrame_def split: if_splits option.splits bind_splits)
  ultimately show ?thesis by auto
qed

lemma ah_Encapsulate_length:
  assumes "ah_Encapsulate h buf oip off = Some (h', buf', n, err)" "0 \<le> off" "off \<le> int (length buf)"
  shows "length buf' = length buf \<and> 0 \<le> n \<and> off + n \<le> int (length buf)"
proof -
  have pre: "length (trySetEthernetDst x d) = length x" for x d by (simp add: trySetEthernetDst_def patch_def)
  let ?b = "drop (nat off) buf"
  have sl: "go_slice buf off (int (length buf)) = Some ?b" using assms(2,3) by (simp add: go_slice_def)
  let ?sel = "case getNextFlagged (ahCache h) eflagPendingResponse of
                 Some i \<Rightarrow> Some (i, eflagPendingResponse, OpReply)
               | None \<Rightarrow> map_option (\<lambda>i. (i, eflagIncompletePendingQuery, OpRequest))
                          (getNextFlagged (ahCache h) eflagIncompletePendingQuery)"
  show ?thesis
  proof (cases "ah_newframe h ?b = None \<and> ?sel \<noteq> None")
    case False
    then show ?thesis using assms sl by (auto simp: ah_Encapsulate_def Let_def split: option.splits)
  next
    case True
    then obtain i flag op where sel: "?sel = Some (i, flag, op)" by auto
    let ?e = "(ahCache h ! i)\<lparr>enFlags := enFlags (ahCache h ! i) AND NOT flag\<rparr>"
    obtain b' n' err' where put: "entry_put ?e ?b (ourProtoAddr h) (ourHWAddr h) op = Some (b', n', err')"
      and r: "\<exists>x. buf' = x @ b' \<and> length x = nat off" "n = 0 \<or> n = n'"
      using assms(1) True sl sel assms(2,3)
      by (auto simp: ah_Encapsulate_def Let_def pre split: if_splits bind_splits option.split_asm)
    then show ?thesis using entry_put_length [OF put] assms(2,3) by auto
  qed
qed

interpretation arpLink: node_client arp_node "\<lambda>_. True" "\<lambda>len oip off. 0 \<le> off \<and> off + 50 \<le> int len" "\<lambda>_ _ _. True"
  by unfold_locales (auto simp: arp_node_def dest!: ah_Encapsulate_length)

section \<open>A request on the wire\<close>

text \<open>Stacks with the ARP handler of the example of \<open>Arp_Props\<close> as their only node; the first has a query to send.\<close>

definition demoAsking :: ArpHandler where
  "demoAsking = fst (the (ah_StartQuery (demoArp 8) [10, 0, 0, 9] True))"

definition demoLink :: "ArpHandler \<Rightarrow> u8 \<Rightarrow> ArpHandler StackEthernet" where
  "demoLink h a =
     \<lparr>seConnID = 1, seHandlers = \<lparr>nodes = [the (nodeFromStackNode arp_node h 0 (ucast TypeARP) [])], hcap = 2, encapsIdx = 0\<rparr>,
      seMac = replicate 6 a, seGwmac = replicate 6 1, seMtu = 50, seMulticast = False, crcupdate = None\<rparr>"

lemma demo_sends:
  "map_option (\<lambda>(h, sent, hn, m, err). (map ndProto (nodes h), take 42 sent, hn, m, err))
     (encapsulateAny arp_node (seHandlers (demoLink demoAsking 8)) (take 64 (patch 0 (replicate 6 1) (replicate 80 0))) 14 14) =
   Some ([TypeARP], replicate 6 255 @ replicate 8 0 @ [0, 1, 8, 0, 6, 4, 0, 1, 8, 8, 8, 8, 8, 8, 10, 0, 0, 8, 0, 0, 0, 0, 0, 0, 10, 0, 0, 9],
         Some 0, 28, None)"
  by code_simp

theorem eth_frame_delivered_witness:
  "\<exists>ls' buf' n err. se_Encapsulate arp_node (demoLink demoAsking 8) (replicate 80 0) 0 0 = Some (ls', buf', n, err) \<and>
     60 \<le> n \<and> take 14 buf' = replicate 6 255 @ replicate 6 8 @ [8, 6] \<and>
     se_Demux arp_node (demoLink (demoArp 9) 9) (take (nat n) buf') 0 = do {
       (h, gone, err) \<leftarrow> nodeDemux arp_node (seHandlers (demoLink (demoArp 9) 9)) 0
         ([0, 1, 8, 0, 6, 4, 0, 1, 8, 8, 8, 8, 8, 8, 10, 0, 0, 8, 0, 0, 0, 0, 0, 0, 10, 0, 0, 9] @ replicate 18 0) 0;
       Some ((demoLink (demoArp 9) 9)\<lparr>seHandlers := h\<rparr>, err)
     }"
proof -
  let ?ls = "demoLink demoAsking 8" and ?R = "demoLink (demoArp 9) 9"
  let ?any = "encapsulateAny arp_node (seHandlers ?ls) (take 64 (patch 0 (replicate 6 1) (replicate 80 0))) 14 14"
  let ?p = "[0, 1, 8, 0, 6, 4, 0, 1, 8, 8, 8, 8, 8, 8, 10, 0, 0, 8, 0, 0, 0, 0, 0, 0, 10, 0, 0, 9] :: bytes"
  obtain h sent where any: "?any = Some (h, sent, Some 0, 28, None)" and np: "map ndProto (nodes h) = [TypeARP]"
    and st: "take 42 sent = replicate 6 255 @ replicate 8 0 @ ?p"
    using demo_sends by (cases ?any) auto
  have proto: "ndProto (nodes h ! 0) = TypeARP" using np by (cases "nodes h") auto
  have bytes: "take 6 sent = replicate 6 255" "take 28 (drop 14 sent) = ?p"
    using arg_cong [OF st, of "take 6"] arg_cong [OF st, of "drop 14"] by (simp_all add: drop_take)
  have c: "seMtu ?ls = 50" "seMac ?ls = replicate 6 8" "seGwmac ?ls = replicate 6 1" "crcupdate ?ls = None" by (simp_all add: demoLink_def)
  have inv: "nodes_inv (\<lambda>_. True) (seHandlers ?ls)" by (simp add: nodes_inv_def)
  have node: "nodeByProto arp_node (seHandlers ?R) TypeARP = Some 0" by code_simp
  have big: "(1500 :: u16) < TypeARP" "TypeARP \<noteq> TypeVLAN" "be_enc 2 TypeARP = [8, 6]" by code_simp+
  have bc: "replicate 6 255 = eth_BroadcastAddr" by (simp add: eth_BroadcastAddr_def)
  from eth_frame_delivered [OF arpLink.node_client_axioms, of ?ls 0 "replicate 80 0" h sent "Some 0" 28 None TypeARP "replicate 6 255"
      "?p @ replicate 18 0" "eth_bytes (replicate 6 255) (replicate 6 8) TypeARP (?p @ replicate 18 0)" 0 ?R arp_node 0]
  obtain buf' n where r: "se_Encapsulate arp_node ?ls (replicate 80 0) 0 0 = Some (?ls\<lparr>seHandlers := h\<rparr>, buf', n, None)" "60 \<le> n"
    "take (nat n) buf' = eth_bytes (replicate 6 255) (replicate 6 8) TypeARP (?p @ replicate 18 0)"
    "se_Demux arp_node ?R (take (nat n) buf') 0 = do {
       (h, gone, err) \<leftarrow> nodeDemux arp_node (seHandlers ?R) 0 (?p @ replicate 18 0) 0;
       Some (?R\<lparr>seHandlers := h\<rparr>, err) }"
    using any proto bytes c inv node big(1,2) by (auto simp: se_ignores_def bc fcs_def)
  have "14 \<le> nat n" using r(2) by linarith
  then have "take 14 buf' = take 14 (take (nat n) buf')" by (simp add: min_def)
  also have "\<dots> = replicate 6 255 @ replicate 6 8 @ [8, 6]" unfolding r(3) by (simp add: eth_bytes_def big(3))
  finally have "take 14 buf' = replicate 6 255 @ replicate 6 8 @ [8, 6]" .
  with r show ?thesis by (intro exI conjI)
qed

end
