(* ===== verification/Spec2Isabelle.thy ===== *)
theory Spec2Isabelle
  imports Tcp_Handler_Rx Tcp_Scenarios Inet_Tcp Tcp_Conn_Props Tcp_Rto_Handler Syn_Cookie Inet_Arp
begin

text \<open>
  A verification library for lneto, a network stack in Go without heap allocation on the packet
  path. The theories model the path of a packet from the Ethernet frame to the byte stream of a TCP
  connection and back.

  \<^bold>\<open>The parts and how they interact.\<close> A driver hands received frames to \<open>StackEthernet.Demux\<close> and
  asks \<open>StackEthernet.Encapsulate\<close> for frames to send. A layer of the stack keeps a table of
  \<open>StackNode\<close>s, passes what it receives to the node with the protocol or port of the packet, and
  asks the nodes in turn for something to send: Ethernet has ARP and IP as its nodes, IP has
  \<open>StackPorts\<close>, and this has the connections. A \<open>tcp.Conn\<close> is a node with a mutex around a
  \<open>tcp.Handler\<close>; the handler joins the control block, the transmit ring, the receive ring with its
  reassembly queue, and a \<open>Policy\<close> such as the retransmission timer.

  \<^bold>\<open>Conventions.\<close> A Go \<open>uint8\<close> to \<open>uint64\<close> is a word of that width, a Go \<open>int\<close> an integer. A struct is
  a record, a method a function that returns the new record. \<open>None\<close> as the result of an operation is
  a panic; a Go \<open>error\<close> is a \<open>goerror option\<close>. A frame type is its buffer. An interface is a record
  of functions over a state of any type, so that theorems about a client hold for every
  implementation of the interface.

  \<^bold>\<open>Foundations.\<close>
  \<^item> \<open>Lneto_Prelude\<close>: integers, errors, slices and the lemmas on them.
  \<^item> \<open>Go_Binary\<close>: big-endian fields of buffers, with the laws that the field written is the field read
    and that other fields are not changed.
  \<^item> \<open>Validation\<close>: \<open>validation.go\<close>.
  \<^item> \<open>Lneto_Crc\<close>: \<open>crc.go\<close>. The incremental sum is the ones' complement sum of RFC 1071 whatever the
    pieces in which the data is written.

  \<^bold>\<open>Buffers.\<close>
  \<^item> \<open>Byte_Fifo\<close>: the contracts \<open>byte_fifo\<close> and \<open>staged_fifo\<close> of a bounded queue of bytes.
  \<^item> \<open>Ring\<close>, \<open>Ring_Window\<close>: \<open>internal/ring.go\<close>, which implements both.
  \<^item> \<open>Tx_Queue\<close>, \<open>Tx_Queue_Props\<close>, \<open>Tx_Stream\<close>: \<open>tcp/txqueue.go\<close>, with the contract
    \<open>retransmission_queue\<close> of a sender, which the transmit ring implements: what is sent, for the
    first time or again, is the stream written.
  \<^item> \<open>Reassembly\<close>, \<open>Rx_Stream\<close>: \<open>tcp/reassembly.go\<close> on the receive ring. The reader gets the stream in
    order, whatever the order of arrival.

  \<^bold>\<open>TCP.\<close>
  \<^item> \<open>Tcp_Seq\<close>: \<open>tcp/valuesize.go\<close> and the data of \<open>tcp/definitions.go\<close>. Sequence numbers are compared
    modulo \<open>2^32\<close>.
  \<^item> \<open>Tcp_Frame\<close>, \<open>Tcp_Options\<close>: \<open>tcp/frame.go\<close> and \<open>tcp/options.go\<close>, with round trips and the safety of
    the parsers on any input.
  \<^item> \<open>Tcp_Control\<close>, \<open>Tcp_Control_Props\<close>, \<open>Tcp_Pending\<close>: \<open>tcp/control.go\<close> and
    \<open>tcp/control_rcvhandlers.go\<close>. When a reception panics, what it accepts and what it changes; the
    state diagram as an inductive relation that every operation follows; the bounds of reachable
    control blocks; the segments proposed.
  \<^item> \<open>Tcp_Scenarios\<close>: two control blocks that exchange segments, from the handshake to the close.
  \<^item> \<open>Tcp_Handler\<close>, \<open>Tcp_Handler_Rx\<close>, \<open>Tcp_Handler_Tx\<close>: \<open>tcp/handler.go\<close> and \<open>tcp/policy.go\<close>. The
    stream from the frames to the reader and from the writer to the frames.
  \<^item> \<open>Tcp_Rto\<close>, \<open>Tcp_Rto_Handler\<close>: \<open>tcp/rto/timer.go\<close>. The bounds and the backing off of the timer, and
    that a handler with it sends the oldest data again when it expires. \<open>timing_policy\<close> is the
    contract between the two.
  \<^item> \<open>Tcp_Conn\<close>, \<open>Tcp_Conn_Props\<close>: \<open>tcp/conn.go\<close>. Goroutines are interleaved at the granularity of
    critical sections and atomic operations; concurrent writes do not mix.
  \<^item> \<open>Rst_Queue\<close>, \<open>Syn_Cookie\<close>: \<open>tcp/rst.go\<close> and \<open>tcp/syncookie.go\<close>.

  \<^bold>\<open>The layers.\<close>
  \<^item> \<open>Net_Frames\<close>, \<open>Ip_Internal\<close>: the headers of \<open>ethernet/frame.go\<close>, \<open>ipv4/frame.go\<close>, \<open>ipv6/frame.go\<close>
    and \<open>udp/frame.go\<close>, and \<open>internal/ip.go\<close>.
  \<^item> \<open>Inet_Handlers\<close>, \<open>Inet_Clients\<close>: the table of \<open>internet/definitions.go\<close>. Its keys are unique and
    every node gets its turn. \<open>node_client\<close> is what a layer asks of its nodes.
  \<^item> \<open>Inet_Ethernet\<close>: \<open>internet/stack-ethernet.go\<close>. A frame sent arrives as it was written.
  \<^item> \<open>Inet_Ip4\<close>, \<open>Inet_Ip4_Props\<close>: \<open>internet/stack-ip4.go\<close>, with \<open>ip_client\<close> as the contract of its
    nodes. What is sent is accepted, and only intact packets are delivered.
  \<^item> \<open>Inet_Ports\<close>: \<open>internet/stack-ports.go\<close> and \<open>internet/stack-udpport.go\<close>.
  \<^item> \<open>Inet_Tcp\<close>: connections and port tables keep the contract of the IPv4 layer.
  \<^item> \<open>Arp\<close>, \<open>Arp_Props\<close>, \<open>Inet_Arp\<close>: \<open>arp/cache.go\<close>, \<open>arp/handler.go\<close> and their frame. Two hosts resolve
    each other; the handler keeps the contract of the Ethernet layer.

  \<^bold>\<open>Loops.\<close> All loops are functions with a termination proof and without fuel, with one exception: the
  search of \<open>ValidateSYNCookie\<close> counts up to and including a configured 32-bit limit and does not end
  if this is the largest number. It is a partial function, proved to return for every other limit.
  A goroutine that waits is a step that leaves the state as it is; that it is eventually served is
  not claimed.

  \<^bold>\<open>Parameters.\<close> The growth of slices by the Go runtime, the clock of the retransmission timer, the
  checksum function of the Ethernet layer, the policies of the user and the nodes of a table are
  arguments of the definitions.

  \<^bold>\<open>Not modelled.\<close> Logging, string formatting and callbacks that only monitor. The IPv6 layer, ICMP,
  the UDP endpoints, the TCP listener and link-local addresses; the application protocols DHCP, DNS,
  mDNS, NTP, NTS and HTTP; capture of packets, device and system-call interfaces, and the glue with
  the socket interfaces of the Go library.
\<close>

end
